(* ===== verification/Prelude.thy ===== *)
theory Prelude
  imports Main "HOL-Library.Word" "HOL-Library.Signed_Division"
begin

text \<open>
  Shared material of the Fluxora development: the result type of the contract's
  functions and the combinator that models Rust's \<open>?\<close>, the machine integers the
  contract uses, and the lemmas that turn their operations into integer arithmetic.

  Integers. A \<open>u64\<close> is a \<^typ>\<open>64 word\<close> and a \<open>u32\<close> a \<^typ>\<open>32 word\<close>. An \<open>i128\<close>
  is an \<^typ>\<open>int\<close>: every operation the contract performs on one is checked, so each is
  written here with its range test, and no value outside the range is ever produced.
\<close>

section \<open>Results\<close>

text \<open>
  A contract call returns \<open>Ok\<close>, returns a typed contract error, or traps (a panic, a
  failed \<open>require_auth\<close>, an overflow of an unchecked operator). The host rolls the
  whole invocation back in the last two cases, so neither carries a state.
\<close>

datatype 'e fault = Err 'e | Trap

definition and_then :: "'f + 'a \<Rightarrow> ('a \<Rightarrow> 'f + 'b) \<Rightarrow> 'f + 'b" where
  "and_then m k = (case m of Inl f \<Rightarrow> Inl f | Inr x \<Rightarrow> k x)"

definition ok_or :: "'f \<Rightarrow> 'a option \<Rightarrow> 'f + 'a" where
  "ok_or f opt = (case opt of None \<Rightarrow> Inl f | Some x \<Rightarrow> Inr x)"

lemma and_then_simps [simp]:
  "and_then (Inl f) k = Inl f"
  "and_then (Inr x) k = k x"
  by (simp_all add: and_then_def)

lemma ok_or_simps [simp]:
  "ok_or f None = Inl f"
  "ok_or f (Some x) = Inr x"
  by (simp_all add: ok_or_def)

lemma and_then_eq_Inr [simp]:
  "and_then m k = Inr y \<longleftrightarrow> (\<exists>x. m = Inr x \<and> k x = Inr y)"
  by (cases m) auto

lemma and_then_eq_Inl:
  "and_then m k = Inl f \<longleftrightarrow> m = Inl f \<or> (\<exists>x. m = Inr x \<and> k x = Inl f)"
  by (cases m) auto

lemma ok_or_eq_Inr [simp]: "ok_or f opt = Inr x \<longleftrightarrow> opt = Some x"
  by (cases opt) auto

lemma ok_or_eq_Inl: "ok_or f opt = Inl g \<longleftrightarrow> opt = None \<and> f = g"
  by (cases opt) auto

lemma and_then_assoc: "and_then (and_then m k) h = and_then m (\<lambda>x. and_then (k x) h)"
  by (cases m) auto

lemma and_then_cong: "m = m' \<Longrightarrow> (\<And>x. m' = Inr x \<Longrightarrow> k x = k' x) \<Longrightarrow> and_then m k = and_then m' k'"
  by (cases m') auto

lemma if_Inl_eq_Inr [simp]:
  "(if b then Inl f else m) = Inr y \<longleftrightarrow> \<not> b \<and> m = Inr y"
  "(if b then m else Inl f) = Inr y \<longleftrightarrow> b \<and> m = Inr y"
  by auto

text \<open>A loop whose body may return early with an error, over a list of elements.\<close>

fun fold_result :: "('x \<Rightarrow> 's \<Rightarrow> 'f + 's) \<Rightarrow> 'x list \<Rightarrow> 's \<Rightarrow> 'f + 's" where
  "fold_result f [] s = Inr s"
| "fold_result f (x # xs) s = and_then (f x s) (fold_result f xs)"

section \<open>Machine integers\<close>

type_synonym u64 = "64 word"
type_synonym u32 = "32 word"

named_theorems int_arith_simps \<open>machine operations as integer arithmetic\<close>

subsection \<open>Unsigned 64-bit: saturating and checked operations\<close>

definition u64_max :: int where
  "u64_max = 2 ^ 64 - 1"

definition u32_max :: int where
  "u32_max = 2 ^ 32 - 1"

definition saturating_sub_u64 :: "u64 \<Rightarrow> u64 \<Rightarrow> u64" where
  "saturating_sub_u64 a b = (if a < b then 0 else a - b)"

definition saturating_add_u64 :: "u64 \<Rightarrow> u64 \<Rightarrow> u64" where
  "saturating_add_u64 a b = (if uint a + uint b > u64_max then word_of_int u64_max else a + b)"

definition saturating_mul_u64 :: "u64 \<Rightarrow> u64 \<Rightarrow> u64" where
  "saturating_mul_u64 a b = (if uint a * uint b > u64_max then word_of_int u64_max else a * b)"

definition checked_add_u64 :: "u64 \<Rightarrow> u64 \<Rightarrow> u64 option" where
  "checked_add_u64 a b = (if uint a + uint b > u64_max then None else Some (a + b))"

definition checked_sub_u64 :: "u64 \<Rightarrow> u64 \<Rightarrow> u64 option" where
  "checked_sub_u64 a b = (if a < b then None else Some (a - b))"

lemma uint_u64_bounds [simp]: "0 \<le> uint (x :: u64)" "uint (x :: u64) \<le> u64_max"
  using uint_bounded [of x] by (auto simp: u64_max_def)

lemma uint_less_pos: "uint (x :: u64) < i \<Longrightarrow> 0 < i"
  using uint_u64_bounds(1) [of x] by linarith

lemma u64_less_pos: "(x :: u64) < y \<Longrightarrow> 0 < y"
  by (auto simp: word_less_def intro: uint_less_pos)

lemmas u64_order [int_arith_simps] = word_le_def [where 'a = 64] word_less_def [where 'a = 64]

lemma uint_u64_of_int: "0 \<le> i \<Longrightarrow> i \<le> u64_max \<Longrightarrow> uint (word_of_int i :: u64) = i"
  by (simp add: uint_word_of_int u64_max_def)

lemma uint_saturating_sub_u64 [int_arith_simps]:
  "uint (saturating_sub_u64 a b) = max 0 (uint a - uint b)"
  by (auto simp: saturating_sub_u64_def word_less_def uint_sub_lem [THEN iffD1])

lemma uint_add_u64:
  "uint a + uint b \<le> u64_max \<Longrightarrow> uint (a + b :: u64) = uint a + uint b"
  by (simp add: u64_max_def uint_add_lem [THEN iffD1])

lemma uint_saturating_add_u64 [int_arith_simps]:
  "uint (saturating_add_u64 a b) = min u64_max (uint a + uint b)"
  by (auto simp: saturating_add_u64_def uint_add_u64 uint_u64_of_int u64_max_def)

lemma uint_saturating_mul_u64 [int_arith_simps]:
  "uint (saturating_mul_u64 a b) = min u64_max (uint a * uint b)"
proof (cases "uint a * uint b > u64_max")
  case True
  then show ?thesis by (simp add: saturating_mul_u64_def uint_u64_of_int u64_max_def)
next
  case False
  then have "uint (a * b) = uint a * uint b"
    by (simp add: u64_max_def uint_mult_lem [THEN iffD1])
  with False show ?thesis by (simp add: saturating_mul_u64_def)
qed

lemma checked_add_u64_Some [simp]:
  "checked_add_u64 a b = Some c \<longleftrightarrow> uint c = uint a + uint b"
  by (auto simp: checked_add_u64_def uint_add_u64 word_uint_eq_iff)
    (metis uint_u64_bounds(2) not_less)

lemma checked_sub_u64_Some [simp]:
  "checked_sub_u64 a b = Some c \<longleftrightarrow> uint c = uint a - uint b"
proof (cases "a < b")
  case True
  then have "uint a - uint b < 0" by (simp add: word_less_def)
  with uint_u64_bounds(1) [of c] have "uint c \<noteq> uint a - uint b" by linarith
  with True show ?thesis by (simp add: checked_sub_u64_def)
next
  case False
  then have "uint (a - b) = uint a - uint b"
    by (simp add: word_less_def uint_sub_lem [THEN iffD1])
  with False show ?thesis by (auto simp: checked_sub_u64_def word_uint_eq_iff)
qed

lemma uint_diff_u64: "b \<le> a \<Longrightarrow> uint (a - b :: u64) = uint a - uint b"
  by (simp add: word_le_def uint_sub_lem [THEN iffD1])

lemma uint_max_u64 [int_arith_simps]: "uint (max a b :: u64) = max (uint a) (uint b)"
  by (simp add: max_def word_le_def)

subsection \<open>Signed 128-bit: checked operations\<close>

definition i128_max :: int where
  "i128_max = 2 ^ 127 - 1"

definition i128_min :: int where
  "i128_min = - (2 ^ 127)"

definition in_i128 :: "int \<Rightarrow> bool" where
  "in_i128 x \<longleftrightarrow> i128_min \<le> x \<and> x \<le> i128_max"

definition checked_add_i128 :: "int \<Rightarrow> int \<Rightarrow> int option" where
  "checked_add_i128 a b = (if in_i128 (a + b) then Some (a + b) else None)"

definition checked_sub_i128 :: "int \<Rightarrow> int \<Rightarrow> int option" where
  "checked_sub_i128 a b = (if in_i128 (a - b) then Some (a - b) else None)"

definition checked_mul_i128 :: "int \<Rightarrow> int \<Rightarrow> int option" where
  "checked_mul_i128 a b = (if in_i128 (a * b) then Some (a * b) else None)"

text \<open>Rust's \<open>/\<close> on signed integers truncates towards zero, which is \<open>sdiv\<close>.\<close>

definition checked_div_i128 :: "int \<Rightarrow> int \<Rightarrow> int option" where
  "checked_div_i128 a b = (if b = 0 \<or> \<not> in_i128 (a sdiv b) then None else Some (a sdiv b))"

lemmas checked_i128_defs = checked_add_i128_def checked_sub_i128_def checked_mul_i128_def
  checked_div_i128_def

lemma checked_add_i128_Some [simp]:
  "checked_add_i128 a b = Some c \<longleftrightarrow> c = a + b \<and> in_i128 (a + b)"
  by (auto simp: checked_add_i128_def)

lemma checked_sub_i128_Some [simp]:
  "checked_sub_i128 a b = Some c \<longleftrightarrow> c = a - b \<and> in_i128 (a - b)"
  by (auto simp: checked_sub_i128_def)

lemma checked_mul_i128_Some [simp]:
  "checked_mul_i128 a b = Some c \<longleftrightarrow> c = a * b \<and> in_i128 (a * b)"
  by (auto simp: checked_mul_i128_def)

lemma checked_div_i128_Some [simp]:
  "checked_div_i128 a b = Some c \<longleftrightarrow> c = a sdiv b \<and> b \<noteq> 0 \<and> in_i128 (a sdiv b)"
  by (auto simp: checked_div_i128_def)

lemma in_i128_mono: "0 \<le> x \<Longrightarrow> x \<le> y \<Longrightarrow> in_i128 y \<Longrightarrow> in_i128 x"
  by (auto simp: in_i128_def i128_min_def)

lemma in_i128_nonneg: "0 \<le> x \<Longrightarrow> in_i128 x \<longleftrightarrow> x \<le> i128_max"
  by (auto simp: in_i128_def i128_min_def)

lemma u64_in_i128 [simp]: "in_i128 (uint (x :: u64))"
proof -
  have "u64_max \<le> i128_max" "i128_min \<le> 0" by (simp_all add: u64_max_def i128_max_def i128_min_def)
  with uint_u64_bounds [of x] show ?thesis unfolding in_i128_def by linarith
qed

lemma sdiv_nonneg [int_arith_simps]: "0 \<le> a \<Longrightarrow> 0 \<le> b \<Longrightarrow> a sdiv b = a div (b :: int)"
  by (cases "a = 0"; cases "b = 0") (simp_all add: signed_divide_int_def)

lemma smod_nonneg [int_arith_simps]: "0 \<le> a \<Longrightarrow> 0 \<le> b \<Longrightarrow> a smod b = a mod (b :: int)"
  by (cases "a = 0") (simp_all add: signed_modulo_int_def)

subsection \<open>Truncating division\<close>

text \<open>
  The three facts about \<open>floor (D * c / T)\<close> that the accrual proofs rest on: it is
  monotone in \<open>c\<close> and in \<open>D\<close>, and it is at most \<open>D\<close> while \<open>c \<le> T\<close>.
\<close>

lemma mult_div_nonneg:
  fixes D c T :: int
  shows "0 \<le> D \<Longrightarrow> 0 \<le> c \<Longrightarrow> 0 < T \<Longrightarrow> 0 \<le> D * c div T"
  by (simp add: pos_imp_zdiv_nonneg_iff)

lemma mult_div_le:
  fixes D c T :: int
  assumes "0 \<le> D" "0 \<le> c" "c \<le> T" "0 < T"
  shows "D * c div T \<le> D"
proof -
  have "D * c \<le> D * T" using assms by (simp add: mult_left_mono)
  then have "D * c div T \<le> D * T div T" using assms(4) by (rule zdiv_mono1)
  with assms(4) show ?thesis by simp
qed

lemma mult_div_mono:
  fixes D D' c c' T :: int
  assumes "0 \<le> D" "D \<le> D'" "0 \<le> c" "c \<le> c'" "0 < T"
  shows "D * c div T \<le> D' * c' div T"
  using assms by (simp add: mult_mono zdiv_mono1)

text \<open>Comparing two quotients by cross-multiplication.\<close>

lemma div_le_div_cross:
  fixes a b m n :: int
  assumes "a * n \<le> b * m" "0 < m" "0 < n"
  shows "a div m \<le> b div n"
proof -
  have "a div m * m \<le> a" using assms(2) by (simp add: minus_mod_eq_div_mult [symmetric])
  then have "a div m * m * n \<le> a * n" using assms(3) by (simp add: mult_right_mono)
  with assms(1) have "(a div m * n) * m \<le> b * m" by (simp add: ac_simps)
  with assms(2) have "a div m * n \<le> b" by simp
  then have "a div m * n div n \<le> b div n" using assms(3) by (rule zdiv_mono1)
  with assms(3) show ?thesis by simp
qed

text \<open>Splitting a deposit by a divisor before scaling loses nothing.\<close>

lemma split_scaled_div:
  fixes D k n :: int
  assumes "0 < n"
  shows "D div n * k + D mod n * k div n = D * k div n"
proof -
  have "D * k = n * (D div n * k) + D mod n * k"
    by (metis mult.assoc distrib_right mult_div_mod_eq)
  then have "D * k div n = (D mod n * k + n * (D div n * k)) div n"
    by (simp add: add.commute)
  with assms show ?thesis by (simp add: add.commute)
qed

section \<open>Association lists\<close>

text \<open>A map built by tagging the entries of a list whose keys are distinct.\<close>

lemma map_of_tagged:
  "distinct (map fst xs) \<Longrightarrow> x \<in> set xs \<Longrightarrow> map_of (map (\<lambda>x. (fst x, f x)) xs) (fst x) = Some (f x)"
  by (induction xs) auto

lemma map_of_tagged_outside:
  "i \<notin> set (map fst xs) \<Longrightarrow> map_of (map (\<lambda>x. (fst x, f x)) xs) i = None"
  by (force simp: map_of_eq_None_iff)

end
