(* ===== verification/Stream_Types.thy ===== *)
theory Stream_Types
  imports Prelude
begin

text \<open>
  The data of the stream contract: \<^verbatim>\<open>contracts/stream/src/types.rs\<close> and
  \<^verbatim>\<open>contracts/stream/src/error.rs\<close>. An address is an opaque identity with decidable
  equality. A stream is the frozen stored record extended with the three fields that
  live in side-car entries. The lemmas show that freezing and rebuilding a stream loses
  exactly those three fields, and that error discriminants never collide.
\<close>

section \<open>Addresses and constants\<close>

datatype address = Address nat

definition MAX_REFERENCE_LENGTH :: u32 where
  "MAX_REFERENCE_LENGTH = 64"

text \<open>The delegate permission bits (module \<open>op\<close>).\<close>

definition op_WITHDRAW :: u32 where "op_WITHDRAW = push_bit 0 1"
definition op_CANCEL :: u32 where "op_CANCEL = push_bit 1 1"
definition op_PAUSE :: u32 where "op_PAUSE = push_bit 2 1"
definition op_RESUME :: u32 where "op_RESUME = push_bit 3 1"
definition op_TOP_UP :: u32 where "op_TOP_UP = push_bit 4 1"
definition op_TRANSFER_RECIPIENT :: u32 where "op_TRANSFER_RECIPIENT = push_bit 5 1"

lemmas op_defs = op_WITHDRAW_def op_CANCEL_def op_PAUSE_def op_RESUME_def op_TOP_UP_def
  op_TRANSFER_RECIPIENT_def

section \<open>Streams\<close>

datatype stream_status = Active | Paused | Cancelled | Depleted

definition is_terminal :: "stream_status \<Rightarrow> bool" where
  "is_terminal st = (case st of Cancelled \<Rightarrow> True | Depleted \<Rightarrow> True | _ \<Rightarrow> False)"

lemma is_terminal_simps [simp]:
  "is_terminal Active = False" "is_terminal Paused = False"
  "is_terminal Cancelled = True" "is_terminal Depleted = True"
  by (simp_all add: is_terminal_def)

lemma is_terminal_iff: "is_terminal st \<longleftrightarrow> st = Cancelled \<or> st = Depleted"
  by (cases st) simp_all

datatype release_curve = Linear | Step | FrontLoaded

datatype cliff_mode = Schedule | WallClock

definition DEFAULT_cliff_mode :: cliff_mode where
  "DEFAULT_cliff_mode = Schedule"

text \<open>The stored form, \<open>StreamRecord\<close>: the frozen v1 layout.\<close>

record stream_record =
  sender :: address
  recipient :: address
  token :: address
  deposited :: int
  withdrawn :: int
  start_time :: u64
  end_time :: u64
  cliff_time :: u64
  cancellable :: bool
  pausable :: bool
  transferable :: bool
  paused_at :: "u64 option"
  paused_total :: u64
  status :: stream_status

text \<open>\<open>Stream\<close>: the record's fields and the three that are not part of the stored encoding.\<close>

record stream = stream_record +
  cliff_mode :: cliff_mode
  curve :: release_curve
  reference :: "string option"

text \<open>\<open>StreamMetadata\<close>: the optional v2 fields stored beside the record.\<close>

record stream_metadata =
  meta_cliff_mode :: cliff_mode
  meta_reference :: "string option"

record delegate_grant =
  ops :: u32
  expires_at :: "u64 option"

record batch_cancel_outcome =
  refunded :: int
  refused_index :: "u32 option"
  refused_reason :: "u32 option"

record batch_create_request =
  req_recipient :: address
  req_token :: address
  req_deposit :: int
  req_start_time :: u64
  req_end_time :: u64
  req_cliff_time :: u64
  req_cancellable :: bool
  req_pausable :: bool
  req_transferable :: bool

definition from_stream :: "stream \<Rightarrow> stream_record" where
  "from_stream s = \<lparr>
     sender = sender s, recipient = recipient s, token = token s,
     deposited = deposited s, withdrawn = withdrawn s,
     start_time = start_time s, end_time = end_time s, cliff_time = cliff_time s,
     cancellable = cancellable s, pausable = pausable s, transferable = transferable s,
     paused_at = paused_at s, paused_total = paused_total s, status = status s \<rparr>"

definition into_stream :: "stream_record \<Rightarrow> release_curve \<Rightarrow> stream" where
  "into_stream r c = \<lparr>
     sender = sender r, recipient = recipient r, token = token r,
     deposited = deposited r, withdrawn = withdrawn r,
     start_time = start_time r, end_time = end_time r, cliff_time = cliff_time r,
     cancellable = cancellable r, pausable = pausable r, transferable = transferable r,
     paused_at = paused_at r, paused_total = paused_total r, status = status r,
     cliff_mode = DEFAULT_cliff_mode, curve = c, reference = None \<rparr>"

text \<open>
  Freezing and rebuilding keeps every v1 field and the curve, and resets the two
  metadata fields to their pre-feature defaults.
\<close>

lemma into_from_stream:
  "into_stream (from_stream s) (curve s) = s\<lparr>cliff_mode := DEFAULT_cliff_mode, reference := None\<rparr>"
  by (simp add: into_stream_def from_stream_def)

lemma from_into_stream: "from_stream (into_stream r c) = r"
  by (simp add: into_stream_def from_stream_def)

section \<open>Split streams\<close>

text \<open>
  The types of streams with several recipients. The repository declares them and a storage key
  for them, and no entry point that reads or writes one.
\<close>

definition TOTAL_BPS :: u32 where "TOTAL_BPS = 10000"
definition MAX_SPLIT_RECIPIENTS :: u32 where "MAX_SPLIT_RECIPIENTS = 8"

record share_entry =
  share_recipient :: address
  share_bps :: u32
  share_withdrawn :: int

record stream_shares =
  shares :: "share_entry list"

section \<open>Storage keys\<close>

datatype data_key =
    NextStreamId
  | StreamCount
  | PooledBalance address
  | StreamKey u64
  | DelegateKey u64 address
  | StreamCurveKey u64
  | HaltOperatorKey
  | HaltedAtKey
  | StreamSharesKey u64
  | StreamMetadataKey u64

section \<open>Errors\<close>

datatype error =
    StreamNotFound
  | InvalidTimeRange | InvalidCliff | InvalidDeposit | DepositRateTooLow | SelfStream
  | InvalidReferenceLength
  | Unauthorized | NotCancellable | NotPausable | NotTransferable
  | StreamNotActive | StreamNotPaused | StreamAlreadyPaused | StreamTerminated | StreamMatured
  | InsufficientWithdrawable | NothingToWithdraw | InvalidAmount
  | BatchTooLarge | EmptyBatch | DuplicateStreamId
  | Overflow | TopUpTooSmall
  | StreamIdExhausted
  | TokenTransferFailed | TokenMissing
  | DelegateNotPermitted | DelegateExpired
  | MalformedStreamId
  | RepeatedTransfer
  | InvalidTopUp
  | TokenAmountMismatch | VestedDecreased | PoolBalanceDrift
  | ContractHalted | HaltOperatorAlreadySet | HaltOperatorNotSet | ContractAlreadyHalted
  | ContractNotHalted
  | FactoryPaused | DepositExceedsCap | DurationBelowMinimum | TokenNotAllowlisted
  | RateBelowMin | RateAboveMax

text \<open>\<open>reason as u32\<close>: the discriminants of the frozen ABI.\<close>

primrec discriminant :: "error \<Rightarrow> u32" where
  "discriminant StreamNotFound = 1"
| "discriminant InvalidTimeRange = 2"
| "discriminant InvalidCliff = 3"
| "discriminant InvalidDeposit = 4"
| "discriminant DepositRateTooLow = 5"
| "discriminant SelfStream = 6"
| "discriminant InvalidReferenceLength = 40"
| "discriminant Unauthorized = 7"
| "discriminant NotCancellable = 8"
| "discriminant NotPausable = 9"
| "discriminant NotTransferable = 10"
| "discriminant StreamNotActive = 11"
| "discriminant StreamNotPaused = 12"
| "discriminant StreamAlreadyPaused = 13"
| "discriminant StreamTerminated = 14"
| "discriminant StreamMatured = 15"
| "discriminant InsufficientWithdrawable = 16"
| "discriminant NothingToWithdraw = 17"
| "discriminant InvalidAmount = 18"
| "discriminant BatchTooLarge = 19"
| "discriminant EmptyBatch = 20"
| "discriminant DuplicateStreamId = 21"
| "discriminant Overflow = 22"
| "discriminant TopUpTooSmall = 23"
| "discriminant StreamIdExhausted = 24"
| "discriminant TokenTransferFailed = 25"
| "discriminant TokenMissing = 26"
| "discriminant DelegateNotPermitted = 27"
| "discriminant DelegateExpired = 28"
| "discriminant MalformedStreamId = 29"
| "discriminant RepeatedTransfer = 30"
| "discriminant InvalidTopUp = 31"
| "discriminant TokenAmountMismatch = 32"
| "discriminant VestedDecreased = 33"
| "discriminant PoolBalanceDrift = 39"
| "discriminant ContractHalted = 34"
| "discriminant HaltOperatorAlreadySet = 35"
| "discriminant HaltOperatorNotSet = 36"
| "discriminant ContractAlreadyHalted = 37"
| "discriminant ContractNotHalted = 38"
| "discriminant FactoryPaused = 41"
| "discriminant DepositExceedsCap = 42"
| "discriminant DurationBelowMinimum = 43"
| "discriminant TokenNotAllowlisted = 44"
| "discriminant RateBelowMin = 45"
| "discriminant RateAboveMax = 46"

definition all_errors :: "error list" where
  "all_errors = [StreamNotFound, InvalidTimeRange, InvalidCliff, InvalidDeposit,
     DepositRateTooLow, SelfStream, InvalidReferenceLength, Unauthorized, NotCancellable,
     NotPausable, NotTransferable, StreamNotActive, StreamNotPaused, StreamAlreadyPaused,
     StreamTerminated, StreamMatured, InsufficientWithdrawable, NothingToWithdraw,
     InvalidAmount, BatchTooLarge, EmptyBatch, DuplicateStreamId, Overflow, TopUpTooSmall,
     StreamIdExhausted, TokenTransferFailed, TokenMissing, DelegateNotPermitted,
     DelegateExpired, MalformedStreamId, RepeatedTransfer, InvalidTopUp,
     TokenAmountMismatch, VestedDecreased, PoolBalanceDrift, ContractHalted,
     HaltOperatorAlreadySet, HaltOperatorNotSet, ContractAlreadyHalted, ContractNotHalted,
     FactoryPaused, DepositExceedsCap, DurationBelowMinimum, TokenNotAllowlisted,
     RateBelowMin, RateAboveMax]"

text \<open>A client decodes a discriminant by looking it up in the table of variants.\<close>

definition decode_error :: "u32 \<Rightarrow> error option" where
  "decode_error d = find (\<lambda>e. discriminant e = d) all_errors"

lemma decode_discriminant: "decode_error (discriminant e) = Some e"
  by (cases e) (simp_all add: decode_error_def all_errors_def)

lemma discriminant_inject [simp]: "discriminant e = discriminant e' \<longleftrightarrow> e = e'"
  by (metis decode_discriminant option.inject)

text \<open>The derived \<open>Ord\<close>: variants compare by discriminant.\<close>

instantiation error :: linorder
begin

definition less_eq_error :: "error \<Rightarrow> error \<Rightarrow> bool" where
  "less_eq_error e e' \<longleftrightarrow> discriminant e \<le> discriminant e'"

definition less_error :: "error \<Rightarrow> error \<Rightarrow> bool" where
  "less_error e e' \<longleftrightarrow> discriminant e < discriminant e'"

instance
proof
  fix x y z :: error
  show "x < y \<longleftrightarrow> x \<le> y \<and> \<not> y \<le> x"
    unfolding less_eq_error_def less_error_def by (rule less_le_not_le)
  show "x \<le> x" and "x \<le> y \<or> y \<le> x" and "x \<le> y \<Longrightarrow> y \<le> z \<Longrightarrow> x \<le> z"
    by (auto simp: less_eq_error_def)
  show "x \<le> y \<Longrightarrow> y \<le> x \<Longrightarrow> x = y"
    by (metis less_eq_error_def antisym discriminant_inject)
qed

end

type_synonym 'a result = "error fault + 'a"

end
