(* ===== verification/Accrual.thy ===== *)
theory Accrual
  imports Stream_Types
begin

text \<open>
  The accrual arithmetic of \<^verbatim>\<open>contracts/stream/src/accrual.rs\<close>: the stream clock, the
  cliff gate, the three release curves, and the four readings a stream has at an instant
  (vested, withdrawable, refundable, liability).

  The three curves share a contract, which is the locale \<open>release_shape\<close>: a total value
  between nothing and the deposit, monotone in time and in the deposit, starting at
  nothing. It is interpreted on each of the three curve functions and, from these, on the
  selection by \<^const>\<open>curve\<close>; the bounds, monotonicity and conservation of \<open>vested\<close> are
  proved from it.
\<close>

section \<open>The code\<close>

definition stream_time :: "stream \<Rightarrow> u64 \<Rightarrow> u64" where
  "stream_time s now =
     (let frozen_at = (case paused_at s of Some p \<Rightarrow> p | None \<Rightarrow> now)
      in saturating_sub_u64 frozen_at (paused_total s))"

definition duration :: "stream \<Rightarrow> u64" where
  "duration s = saturating_sub_u64 (end_time s) (start_time s)"

definition elapsed :: "stream \<Rightarrow> u64 \<Rightarrow> u64" where
  "elapsed s now =
     (let clock = stream_time s now;
          capped = (if clock > end_time s then end_time s else clock)
      in saturating_sub_u64 capped (start_time s))"

definition cliff_reached :: "stream \<Rightarrow> u64 \<Rightarrow> bool" where
  "cliff_reached s now =
     (case cliff_mode s of
        Schedule \<Rightarrow> stream_time s now \<ge> cliff_time s
      | WallClock \<Rightarrow> now \<ge> cliff_time s)"

definition vested_linear :: "int \<Rightarrow> u64 \<Rightarrow> u64 \<Rightarrow> int result" where
  "vested_linear D consumed total_duration =
     and_then (ok_or (Err Overflow) (checked_mul_i128 D (uint consumed))) (\<lambda>numerator.
     and_then (ok_or (Err Overflow) (checked_div_i128 numerator (uint total_duration))) (\<lambda>raw.
     Inr (if raw > D then D else raw)))"

text \<open>
  \<open>u128::div_ceil\<close>, on values where the sum cannot leave the 128-bit range. The loop
  over \<open>k\<close> counts the tranches whose threshold has been consumed.
\<close>

definition div_ceil :: "int \<Rightarrow> int \<Rightarrow> int" where
  "div_ceil a b = (a + b - 1) div b"

definition released_tranches :: "u64 \<Rightarrow> u64 \<Rightarrow> int" where
  "released_tranches consumed total_duration =
     foldl (\<lambda>tranches k. let threshold = div_ceil (uint total_duration * k) 4
                         in if uint consumed \<ge> threshold then tranches + 1 else tranches)
       0 [1, 2, 3]"

definition vested_step :: "int \<Rightarrow> u64 \<Rightarrow> u64 \<Rightarrow> int" where
  "vested_step D consumed total_duration =
     (let tranches = released_tranches consumed total_duration;
          whole = D sdiv 4;
          rem = D smod 4
      in whole * tranches + (rem * tranches) sdiv 4)"

definition front_grid :: "u64 \<Rightarrow> u64 \<Rightarrow> int" where
  "front_grid consumed total_duration = uint consumed * 1000 div uint total_duration"

definition front_curve :: "int \<Rightarrow> int" where
  "front_curve u = 2 * u - (u * u) sdiv 1000"

definition vested_front_loaded :: "int \<Rightarrow> u64 \<Rightarrow> u64 \<Rightarrow> int" where
  "vested_front_loaded D consumed total_duration =
     (let u = front_grid consumed total_duration;
          c = front_curve u;
          whole = D sdiv 1000;
          rem = D smod 1000
      in whole * c + (rem * c) sdiv 1000)"

definition curve_shape :: "release_curve \<Rightarrow> int \<Rightarrow> u64 \<Rightarrow> u64 \<Rightarrow> int result" where
  "curve_shape k D consumed total_duration =
     (case k of
        Linear \<Rightarrow> vested_linear D consumed total_duration
      | Step \<Rightarrow> Inr (vested_step D consumed total_duration)
      | FrontLoaded \<Rightarrow> Inr (vested_front_loaded D consumed total_duration))"

definition vested :: "stream \<Rightarrow> u64 \<Rightarrow> int result" where
  "vested s now =
     (if \<not> cliff_reached s now then Inr 0
      else
        let total_duration = duration s in
        if total_duration = 0 then Inr (deposited s)
        else
          let consumed = elapsed s now in
          if consumed \<ge> total_duration then Inr (deposited s)
          else curve_shape (curve s) (deposited s) consumed total_duration)"

definition withdrawable :: "stream \<Rightarrow> u64 \<Rightarrow> int result" where
  "withdrawable s now =
     and_then (vested s now) (\<lambda>earned.
     and_then (ok_or (Err Overflow) (checked_sub_i128 earned (withdrawn s))) (\<lambda>available.
     Inr (if available < 0 then 0 else available)))"

definition refundable :: "stream \<Rightarrow> u64 \<Rightarrow> int result" where
  "refundable s now =
     and_then (vested s now) (\<lambda>earned.
     ok_or (Err Overflow) (checked_sub_i128 (deposited s) earned))"

definition liability :: "stream \<Rightarrow> int result" where
  "liability s = ok_or (Err Overflow) (checked_sub_i128 (deposited s) (withdrawn s))"

section \<open>The clock\<close>

lemma uint_duration: "uint (duration s) = max 0 (uint (end_time s) - uint (start_time s))"
  by (simp add: duration_def int_arith_simps)

lemma uint_stream_time:
  "uint (stream_time s now) =
     max 0 (uint (case paused_at s of Some p \<Rightarrow> p | None \<Rightarrow> now) - uint (paused_total s))"
  by (simp add: stream_time_def int_arith_simps)

lemma uint_elapsed:
  "uint (elapsed s now) =
     max 0 (min (uint (stream_time s now)) (uint (end_time s)) - uint (start_time s))"
  by (simp add: elapsed_def Let_def int_arith_simps min_def)

lemma stream_time_mono: "t \<le> t' \<Longrightarrow> stream_time s t \<le> stream_time s t'"
  by (auto simp: uint_stream_time word_le_def split: option.split)

lemma elapsed_mono: "t \<le> t' \<Longrightarrow> elapsed s t \<le> elapsed s t'"
  using stream_time_mono [of t t' s] by (auto simp: word_le_def uint_elapsed)

lemma elapsed_le_duration: "elapsed s now \<le> duration s"
  by (auto simp: word_le_def uint_elapsed uint_duration)

lemma cliff_reached_mono: "t \<le> t' \<Longrightarrow> cliff_reached s t \<Longrightarrow> cliff_reached s t'"
  using stream_time_mono [of t t' s]
  by (auto simp: cliff_reached_def split: cliff_mode.splits)

text \<open>A clock that has reached the end of the schedule has consumed all of it.\<close>

lemma elapsed_matured: "end_time s \<le> stream_time s now \<Longrightarrow> elapsed s now = duration s"
  by (auto simp: word_uint_eq_iff word_le_def uint_elapsed uint_duration min_def)

section \<open>The contract every release curve meets\<close>

text \<open>
  \<open>accrual_domain\<close> is the guard that creation and top-up establish: the deposit is not
  negative and \<open>deposit * duration\<close> fits an \<open>i128\<close>.
\<close>

definition accrual_domain :: "int \<Rightarrow> u64 \<Rightarrow> bool" where
  "accrual_domain D T \<longleftrightarrow> 0 \<le> D \<and> D \<le> i128_max \<and> D * uint T \<le> i128_max"

text \<open>What \<^const>\<open>vested\<close> computes once the gate is open, for an arbitrary curve.\<close>

definition released :: "(int \<Rightarrow> u64 \<Rightarrow> u64 \<Rightarrow> int result) \<Rightarrow> int \<Rightarrow> u64 \<Rightarrow> u64 \<Rightarrow> int result" where
  "released shape D c T = (if T = 0 \<or> c \<ge> T then Inr D else shape D c T)"

locale release_shape =
  fixes shape :: "int \<Rightarrow> u64 \<Rightarrow> u64 \<Rightarrow> int result"
  assumes shape_total:
      "accrual_domain D T \<Longrightarrow> c < T \<Longrightarrow> \<exists>v. shape D c T = Inr v \<and> 0 \<le> v \<and> v \<le> D"
    and shape_mono_time:
      "accrual_domain D T \<Longrightarrow> c \<le> c' \<Longrightarrow> c' < T \<Longrightarrow>
       shape D c T = Inr v \<Longrightarrow> shape D c' T = Inr v' \<Longrightarrow> v \<le> v'"
    and shape_mono_deposit:
      "accrual_domain D T \<Longrightarrow> accrual_domain D' T \<Longrightarrow> D \<le> D' \<Longrightarrow> c < T \<Longrightarrow>
       shape D c T = Inr v \<Longrightarrow> shape D' c T = Inr v' \<Longrightarrow> v \<le> v'"
    and shape_start: "accrual_domain D T \<Longrightarrow> 0 < T \<Longrightarrow> shape D 0 T = Inr 0"
begin

lemma released_total:
  "accrual_domain D T \<Longrightarrow> \<exists>v. released shape D c T = Inr v \<and> 0 \<le> v \<and> v \<le> D"
  using shape_total [of D T c] by (auto simp: released_def accrual_domain_def not_le)

lemma released_mono_time:
  assumes "accrual_domain D T" "c \<le> c'"
    and "released shape D c T = Inr v" "released shape D c' T = Inr v'"
  shows "v \<le> v'"
proof (cases "T = 0 \<or> c' \<ge> T")
  case True
  with assms(4) have "v' = D" by (simp add: released_def)
  moreover obtain u where "released shape D c T = Inr u" "u \<le> D"
    using released_total [OF assms(1)] by blast
  ultimately show ?thesis using assms(3) by simp
next
  case False
  then have "c' < T" "\<not> (T = 0 \<or> c \<ge> T)" using assms(2) by auto
  with assms False show ?thesis
    by (intro shape_mono_time [of D T c c' v v']) (simp_all add: released_def)
qed

lemma released_mono_deposit:
  assumes "accrual_domain D T" "accrual_domain D' T" "D \<le> D'"
    and "released shape D c T = Inr v" "released shape D' c T = Inr v'"
  shows "v \<le> v'"
  using assms shape_mono_deposit [of D T D' c v v'] by (auto simp: released_def split: if_splits)

lemma released_start: "accrual_domain D T \<Longrightarrow> 0 < T \<Longrightarrow> released shape D 0 T = Inr 0"
  using shape_start [of D T] by (auto simp: released_def)

end

subsection \<open>The linear curve\<close>

lemma accrual_domain_mult:
  assumes "accrual_domain D T" "c \<le> T"
  shows "0 \<le> D * uint c" "D * uint c \<le> i128_max"
proof -
  have "D * uint c \<le> D * uint T"
    using assms by (intro mult_left_mono) (auto simp: accrual_domain_def word_le_def)
  with assms show "0 \<le> D * uint c" "D * uint c \<le> i128_max"
    by (auto simp: accrual_domain_def)
qed

lemma vested_linear_eq:
  assumes "accrual_domain D T" "c < T"
  shows "vested_linear D c T = Inr (D * uint c div uint T)"
proof -
  have c: "uint c < uint T" and D: "0 \<le> D" "D \<le> i128_max"
    using assms by (auto simp: word_less_def accrual_domain_def)
  have T: "0 < uint T" using c uint_u64_bounds(1) [of c] by linarith
  note m = accrual_domain_mult [OF assms(1) less_imp_le [OF assms(2)]]
  have le: "D * uint c div uint T \<le> D" using D c T by (intro mult_div_le) auto
  have nn: "0 \<le> D * uint c div uint T" using m(1) T by (simp add: pos_imp_zdiv_nonneg_iff)
  from m le nn D T show ?thesis
    by (simp add: vested_linear_def checked_i128_defs in_i128_nonneg sdiv_nonneg)
qed

interpretation linear: release_shape vested_linear
proof
  fix D D' v v' :: int and T c c' :: u64
  assume dom: "accrual_domain D T"
  show "\<exists>v. vested_linear D c T = Inr v \<and> 0 \<le> v \<and> v \<le> D" if "c < T"
    using dom that
    by (auto simp: vested_linear_eq accrual_domain_def word_less_def
        intro!: mult_div_le mult_div_nonneg uint_less_pos)
  show "v \<le> v'" if "c \<le> c'" "c' < T" "vested_linear D c T = Inr v" "vested_linear D c' T = Inr v'"
  proof -
    have "c < T" using that(1,2) by simp
    with dom that show ?thesis
      by (auto simp: vested_linear_eq accrual_domain_def word_less_def word_le_def
          intro!: mult_div_mono uint_less_pos)
  qed
  show "v \<le> v'" if "accrual_domain D' T" "D \<le> D'" "c < T"
    "vested_linear D c T = Inr v" "vested_linear D' c T = Inr v'"
    using dom that by (auto simp: vested_linear_eq accrual_domain_def word_less_def
        intro!: mult_div_mono uint_less_pos)
  show "vested_linear D 0 T = Inr 0" if "0 < T"
    using dom that by (simp add: vested_linear_eq)
qed

subsection \<open>The step curve\<close>

lemma released_tranches_eq:
  "released_tranches c T =
     of_bool (uint T \<le> 4 * uint c) + of_bool (2 * uint T \<le> 4 * uint c)
       + of_bool (3 * uint T \<le> 4 * uint c)"
proof -
  have "div_ceil x 4 \<le> uint c \<longleftrightarrow> x \<le> 4 * uint c" for x
    unfolding div_ceil_def by linarith
  then show ?thesis by (simp add: released_tranches_def mult.commute)
qed

lemma released_tranches_bounds: "0 \<le> released_tranches c T" "released_tranches c T \<le> 3"
  by (simp_all add: released_tranches_eq of_bool_def)

lemma released_tranches_mono: "c \<le> c' \<Longrightarrow> released_tranches c T \<le> released_tranches c' T"
  by (simp add: released_tranches_eq word_le_def of_bool_def)

lemma vested_step_eq: "0 \<le> D \<Longrightarrow> vested_step D c T = D * released_tranches c T div 4"
  using split_scaled_div [of 4 D "released_tranches c T"] released_tranches_bounds [of c T]
  by (simp add: vested_step_def Let_def sdiv_nonneg smod_nonneg)

interpretation step: release_shape "\<lambda>D c T. Inr (vested_step D c T)"
proof
  fix D D' v v' :: int and T c c' :: u64
  assume dom: "accrual_domain D T"
  then have D: "0 \<le> D" by (simp add: accrual_domain_def)
  note b = released_tranches_bounds [of _ T]
  show "\<exists>v. Inr (vested_step D c T) = Inr v \<and> 0 \<le> v \<and> v \<le> D" if "c < T"
    using D b [of c] mult_div_le [of D "released_tranches c T" 4]
      mult_div_nonneg [of D "released_tranches c T" 4] by (simp add: vested_step_eq)
  show "v \<le> v'" if "c \<le> c'" "c' < T"
    "Inr (vested_step D c T) = Inr v" "Inr (vested_step D c' T) = Inr v'"
    using that D b [of c] released_tranches_mono [of c c' T]
    by (auto simp: vested_step_eq intro!: mult_div_mono)
  show "v \<le> v'" if "accrual_domain D' T" "D \<le> D'" "c < T"
    "Inr (vested_step D c T) = Inr v" "Inr (vested_step D' c T) = Inr v'"
    using that D b [of c] by (auto simp: vested_step_eq intro!: mult_div_mono)
  show "Inr (vested_step D 0 T) = Inr 0" if "0 < T"
    using that D by (simp add: vested_step_eq released_tranches_eq word_less_def)
qed

subsection \<open>The front-loaded curve\<close>

lemma front_grid_bounds:
  assumes "c < T"
  shows "0 \<le> front_grid c T" "front_grid c T \<le> 999"
proof -
  have T: "0 < uint T" "uint c < uint T" using assms by (auto simp: word_less_def intro: uint_less_pos)
  then have "uint c * 1000 div uint T \<le> (uint T - 1 + 999 * uint T) div uint T"
    by (intro zdiv_mono1) auto
  also have "\<dots> = 999 + (uint T - 1) div uint T" using T(1) by (intro div_mult_self1) simp
  also have "\<dots> = 999" using T(1) by (simp add: div_pos_pos_trivial)
  finally show "front_grid c T \<le> 999" by (simp add: front_grid_def)
  show "0 \<le> front_grid c T" using T(1) by (simp add: front_grid_def pos_imp_zdiv_nonneg_iff)
qed

lemma front_grid_mono: "c \<le> c' \<Longrightarrow> 0 < T \<Longrightarrow> front_grid c T \<le> front_grid c' T"
  by (simp add: front_grid_def word_le_def word_less_def zdiv_mono1)

lemma front_curve_eq: "0 \<le> u \<Longrightarrow> front_curve u = 2 * u - u * u div 1000"
  by (simp add: front_curve_def sdiv_nonneg)

lemma front_curve_bounds:
  assumes "0 \<le> u" "u \<le> 1000"
  shows "0 \<le> front_curve u" "front_curve u \<le> 1000"
proof -
  have "u * u \<le> u * 1000" using assms by (simp add: mult_left_mono)
  then have "u * u div 1000 \<le> u * 1000 div 1000" by (rule zdiv_mono1) simp
  with assms show "0 \<le> front_curve u" by (simp add: front_curve_eq)
  have "0 \<le> (u - 1000) * (u - 1000)" by simp
  then have "(2 * u - 1000) * 1000 \<le> u * u" by (simp add: algebra_simps)
  then have "(2 * u - 1000) * 1000 div 1000 \<le> u * u div 1000" by (rule zdiv_mono1) simp
  with assms show "front_curve u \<le> 1000" by (simp add: front_curve_eq)
qed

text \<open>One grid step changes \<open>u\<^sup>2 / 1000\<close> by at most two, so the curve never falls.\<close>

lemma front_curve_mono:
  assumes "0 \<le> u" "u \<le> u'" "u' \<le> 1000"
  shows "front_curve u \<le> front_curve u'"
proof -
  have "(u' - u) * (u' + u) \<le> (u' - u) * 2000" using assms by (intro mult_left_mono) auto
  then have "u' * u' \<le> u * u + (2 * (u' - u)) * 1000" by (simp add: algebra_simps)
  then have "u' * u' div 1000 \<le> (u * u + (2 * (u' - u)) * 1000) div 1000"
    by (rule zdiv_mono1) simp
  also have "\<dots> = u * u div 1000 + 2 * (u' - u)" by simp
  finally show ?thesis using assms by (simp add: front_curve_eq)
qed

lemma vested_front_loaded_eq:
  assumes "0 \<le> D" "c < T"
  shows "vested_front_loaded D c T = D * front_curve (front_grid c T) div 1000"
proof -
  have "0 \<le> front_curve (front_grid c T)"
    using front_grid_bounds [OF assms(2)] by (intro front_curve_bounds) auto
  with assms(1) show ?thesis
    using split_scaled_div [of 1000 D "front_curve (front_grid c T)"]
    by (simp add: vested_front_loaded_def Let_def sdiv_nonneg smod_nonneg)
qed

interpretation front: release_shape "\<lambda>D c T. Inr (vested_front_loaded D c T)"
proof
  fix D D' v v' :: int and T c c' :: u64
  assume dom: "accrual_domain D T"
  then have D: "0 \<le> D" by (simp add: accrual_domain_def)
  have b: "0 \<le> front_curve (front_grid c T)" "front_curve (front_grid c T) \<le> 1000"
    if "c < T" for c
    using front_grid_bounds [OF that] front_curve_bounds [of "front_grid c T"] by simp_all
  show "\<exists>v. Inr (vested_front_loaded D c T) = Inr v \<and> 0 \<le> v \<and> v \<le> D" if "c < T"
    using D b [OF that] mult_div_le [of D "front_curve (front_grid c T)" 1000] that
      mult_div_nonneg [of D "front_curve (front_grid c T)" 1000]
    by (simp add: vested_front_loaded_eq)
  show "v \<le> v'" if "c \<le> c'" "c' < T"
    "Inr (vested_front_loaded D c T) = Inr v" "Inr (vested_front_loaded D c' T) = Inr v'"
  proof -
    have c: "c < T" using that(1,2) by (rule le_less_trans)
    have T: "0 < T" using c by (rule u64_less_pos)
    from c T have "front_curve (front_grid c T) \<le> front_curve (front_grid c' T)"
      using front_grid_bounds [of c T] front_grid_bounds [of c' T] front_grid_mono [of c c' T] that
      by (intro front_curve_mono) auto
    with c that D b show ?thesis by (auto simp: vested_front_loaded_eq intro!: mult_div_mono)
  qed
  show "v \<le> v'" if "accrual_domain D' T" "D \<le> D'" "c < T"
    "Inr (vested_front_loaded D c T) = Inr v" "Inr (vested_front_loaded D' c T) = Inr v'"
    using that D b by (auto simp: vested_front_loaded_eq intro!: mult_div_mono)
  show "Inr (vested_front_loaded D 0 T) = Inr 0" if "0 < T"
    using that D by (simp add: vested_front_loaded_eq front_grid_def front_curve_def)
qed

subsection \<open>The selected curve\<close>

lemma curve_shape_simps [simp]:
  "curve_shape Linear = vested_linear"
  "curve_shape Step = (\<lambda>D c T. Inr (vested_step D c T))"
  "curve_shape FrontLoaded = (\<lambda>D c T. Inr (vested_front_loaded D c T))"
  by (simp_all add: curve_shape_def fun_eq_iff)

interpretation shape: release_shape "curve_shape k" for k
proof (cases k)
  case Linear
  then show "release_shape (curve_shape k)" using linear.release_shape_axioms by simp
next
  case Step
  then show "release_shape (curve_shape k)" using step.release_shape_axioms by simp
next
  case FrontLoaded
  then show "release_shape (curve_shape k)" using front.release_shape_axioms by simp
qed

section \<open>Readings of a stream\<close>

lemma vested_eq:
  "vested s now =
     (if cliff_reached s now
      then released (curve_shape (curve s)) (deposited s) (elapsed s now) (duration s)
      else Inr 0)"
  by (auto simp: vested_def released_def Let_def)

text \<open>\<^const>\<open>vested\<close> only reads the schedule: equal schedules vest equally.\<close>

lemma vested_cong:
  assumes "stream_time s now = stream_time s' now" "cliff_mode s = cliff_mode s'"
    "cliff_time s = cliff_time s'" "start_time s = start_time s'" "end_time s = end_time s'"
    "deposited s = deposited s'" "curve s = curve s'"
  shows "vested s now = vested s' now"
proof -
  have "cliff_reached s now = cliff_reached s' now" "duration s = duration s'"
    and "elapsed s now = elapsed s' now"
    using assms by (simp_all add: cliff_reached_def duration_def elapsed_def Let_def split: cliff_mode.split)
  with assms show ?thesis unfolding vested_eq by simp
qed

text \<open>
  A stream is matured at an instant when its gate is open and its schedule consumed; from
  then on \<^const>\<open>vested\<close> returns the deposit without multiplying. A stream vests without
  error at an instant when the creation-time guard holds for it or it is matured (a
  cancelled stream, whose rewritten schedule may be longer than the original).
\<close>

definition matured :: "stream \<Rightarrow> u64 \<Rightarrow> bool" where
  "matured s now \<longleftrightarrow>
     cliff_reached s now \<and> (duration s = 0 \<or> end_time s \<le> stream_time s now)"

definition vest_ok :: "stream \<Rightarrow> u64 \<Rightarrow> bool" where
  "vest_ok s now \<longleftrightarrow> 0 \<le> deposited s \<and> deposited s \<le> i128_max \<and>
     (deposited s * uint (duration s) \<le> i128_max \<or> matured s now)"

definition vested_amount :: "stream \<Rightarrow> u64 \<Rightarrow> int" where
  "vested_amount s now = (case vested s now of Inr v \<Rightarrow> v | Inl _ \<Rightarrow> 0)"

lemma matured_mono: "t \<le> t' \<Longrightarrow> matured s t \<Longrightarrow> matured s t'"
  using cliff_reached_mono stream_time_mono [of t t' s] by (fastforce simp: matured_def)

lemma vest_ok_mono: "t \<le> t' \<Longrightarrow> vest_ok s t \<Longrightarrow> vest_ok s t'"
  using matured_mono by (auto simp: vest_ok_def)

lemma vested_matured: "matured s now \<Longrightarrow> vested s now = Inr (deposited s)"
  by (auto simp: vested_eq released_def matured_def elapsed_matured)

lemma vested_before_cliff: "\<not> cliff_reached s now \<Longrightarrow> vested s now = Inr 0"
  by (simp add: vested_eq)

text \<open>\<^const>\<open>vested\<close> never fails on such a stream, and stays within the deposit.\<close>

lemma vested_total:
  assumes "vest_ok s now"
  shows "vested s now = Inr (vested_amount s now)"
    and "0 \<le> vested_amount s now" and "vested_amount s now \<le> deposited s"
proof -
  have "\<exists>v. vested s now = Inr v \<and> 0 \<le> v \<and> v \<le> deposited s"
  proof (cases "matured s now")
    case True
    with assms show ?thesis by (simp add: vested_matured vest_ok_def)
  next
    case False
    with assms show ?thesis
      using shape.released_total [of "deposited s" "duration s" "curve s" "elapsed s now"]
      by (auto simp: vested_eq vest_ok_def accrual_domain_def)
  qed
  then show "vested s now = Inr (vested_amount s now)"
    and "0 \<le> vested_amount s now" and "vested_amount s now \<le> deposited s"
    by (auto simp: vested_amount_def)
qed

lemma vested_amount_mono:
  assumes "vest_ok s t" "t \<le> t'"
  shows "vested_amount s t \<le> vested_amount s t'"
proof -
  note ok' = vest_ok_mono [OF assms(2,1)]
  consider (cliff) "\<not> cliff_reached s t" | (mat) "matured s t'"
    | (dom) "cliff_reached s t" "accrual_domain (deposited s) (duration s)"
    using assms matured_mono [OF assms(2)] by (auto simp: vest_ok_def accrual_domain_def)
  then show ?thesis
  proof cases
    case cliff
    then show ?thesis using vested_total(2) [OF ok'] by (simp add: vested_amount_def vested_eq)
  next
    case mat
    then show ?thesis using vested_total(3) [OF assms(1)]
      by (simp add: vested_amount_def [of s t'] vested_matured)
  next
    case dom
    then have "cliff_reached s t'" using cliff_reached_mono [OF assms(2)] by simp
    with dom show ?thesis
      using elapsed_mono [OF assms(2)] vested_total(1) [OF assms(1)] vested_total(1) [OF ok']
      by (auto simp: vested_eq dest: shape.released_mono_time)
  qed
qed

lemma withdrawable_eq:
  assumes "vest_ok s now" "0 \<le> withdrawn s" "withdrawn s \<le> i128_max"
  shows "withdrawable s now = Inr (max 0 (vested_amount s now - withdrawn s))"
proof -
  have "in_i128 (vested_amount s now - withdrawn s)"
    using vested_total(2,3) [OF assms(1)] assms
    by (auto simp: in_i128_def i128_min_def vest_ok_def i128_max_def)
  with vested_total(1) [OF assms(1)] show ?thesis
    by (simp add: withdrawable_def checked_sub_i128_def max_def)
qed

lemma refundable_eq:
  assumes "vest_ok s now"
  shows "refundable s now = Inr (deposited s - vested_amount s now)"
  using vested_total [OF assms] assms
  by (auto simp: refundable_def checked_sub_i128_def in_i128_def i128_min_def vest_ok_def)

end
