(* ===== verification/Ledger_Host.thy ===== *)
theory Ledger_Host
  imports Stream_Types
begin

text \<open>
  What the stream contract sees of its host, the contract's storage, and the events it
  publishes (\<^verbatim>\<open>contracts/stream/src/events.rs\<close>).

  The host and the token contracts are not part of the repository. The host is a record of
  what one invocation observes (\<open>env\<close>); a token is a parameter of the model, a record of
  two functions over a token state of any type, whose every outcome the contract handles is a
  constructor of \<open>try_outcome\<close>. Storage is one field per key family of
  \<^typ>\<open>data_key\<close>: instance storage first, then persistent storage, then the ledger number
  up to which each is kept alive.
\<close>

section \<open>The invocation environment\<close>

record env =
  timestamp :: u64
  sequence :: nat
  max_ttl :: u32
  authorized :: "address \<Rightarrow> bool"
  contract_address :: address

text \<open>\<open>require_auth\<close>: the host traps when the address did not authorize the invocation.\<close>

definition require_auth :: "env \<Rightarrow> address \<Rightarrow> unit result" where
  "require_auth e a = (if authorized e a then Inr () else Inl Trap)"

lemma require_auth_Inr [simp]: "require_auth e a = Inr u \<longleftrightarrow> authorized e a"
  by (simp add: require_auth_def)

text \<open>The helper of \<^verbatim>\<open>types.rs\<close> for the recipient's signature.\<close>

definition require_recipient_auth :: "env \<Rightarrow> stream \<Rightarrow> unit result" where
  "require_recipient_auth e s = require_auth e (recipient s)"

text \<open>
  The shapes of \<open>try_transfer\<close>'s result: success, a return value that does not convert, an
  error of the token's declared type, another contract error, a host trap. \<open>token_balance\<close>
  is \<open>None\<close> when the token's \<open>balance\<close> call traps.
\<close>

datatype try_outcome =
  TryOk | TryConversionError | TryTypedError | TryContractError | TryAbort

record 't token_iface =
  try_transfer :: "'t \<Rightarrow> address \<Rightarrow> address \<Rightarrow> address \<Rightarrow> int \<Rightarrow> try_outcome \<times> 't"
  token_balance :: "'t \<Rightarrow> address \<Rightarrow> address \<Rightarrow> int option"

text \<open>
  \<open>extend_ttl\<close> as the host documents it: an entry whose remaining life is within the
  threshold is extended, and never shortened.
\<close>

definition extended :: "nat \<Rightarrow> u32 \<Rightarrow> u32 \<Rightarrow> nat \<Rightarrow> nat" where
  "extended seq threshold extend_to live_until =
     (let new = seq + unat extend_to
      in if live_until < new \<and> live_until - seq \<le> unat threshold then new else live_until)"

lemma extended_same: "extended seq t t lu = max lu (seq + unat t)"
  by (auto simp: extended_def Let_def)

section \<open>Events\<close>

datatype event =
    StreamCreatedEvent (ev_stream_id: u64) address address address int u64 u64 u64
      bool bool bool release_curve cliff_mode "string option"
      \<comment> \<open>sender, recipient, token, deposited, start, end, cliff, cancellable, pausable,
         transferable, curve, cliff mode, reference\<close>
  | WithdrawnEvent (ev_stream_id: u64) address int int int stream_status address "u64 option" u64
      \<comment> \<open>recipient, amount, withdrawn, deposited, status, sender, paused at, paused total\<close>
  | CancelledEvent (ev_stream_id: u64) address address int int int u64 "u64 option" u64
      \<comment> \<open>sender, recipient, refunded, vested, withdrawn, end, paused at, paused total\<close>
  | PausedEvent (ev_stream_id: u64) address u64 u64 address
      \<comment> \<open>sender, paused at, paused total, recipient\<close>
  | ResumedEvent (ev_stream_id: u64) address u64 u64 address
      \<comment> \<open>sender, paused duration, paused total, recipient\<close>
  | ToppedUpEvent (ev_stream_id: u64) address int int u64 address
      \<comment> \<open>sender, amount, deposited, end, recipient\<close>
  | RecipientTransferredEvent (ev_stream_id: u64) address address address
      \<comment> \<open>old recipient, new recipient, sender\<close>
  | DelegateGrantedEvent (ev_stream_id: u64) address address u32 "u64 option"
      \<comment> \<open>grantor, delegate, ops, expires at\<close>
  | DelegateRevokedEvent (ev_stream_id: u64) address address
      \<comment> \<open>grantor, delegate\<close>
  | TtlExtendedEvent (ev_stream_id: u64) u32
  | HaltOperatorSetEvent address
  | ContractHaltedEvent address u64
  | ContractResumedEvent address u64 u64

section \<open>The contract's world\<close>

record 't world =
  next_stream_id_entry :: "u64 option"
  stream_count_entry :: "u64 option"
  pooled_balance_entries :: "address \<rightharpoonup> int"
  halt_operator_entry :: "address option"
  halted_at_entry :: "u64 option"
  stream_entries :: "u64 \<rightharpoonup> stream_record"
  stream_curve_entries :: "u64 \<rightharpoonup> release_curve"
  stream_metadata_entries :: "u64 \<rightharpoonup> stream_metadata"
  delegate_entries :: "u64 \<times> address \<rightharpoonup> delegate_grant"
  instance_live_until :: nat
  entry_live_until :: "data_key \<Rightarrow> nat"
  events :: "event list"
  token_state :: 't

text \<open>A freshly deployed contract: no instance keys, no entries, no events.\<close>

definition fresh_world :: "'t \<Rightarrow> 't world" where
  "fresh_world ts = \<lparr>
     next_stream_id_entry = None, stream_count_entry = None,
     pooled_balance_entries = Map.empty, halt_operator_entry = None, halted_at_entry = None,
     stream_entries = Map.empty, stream_curve_entries = Map.empty,
     stream_metadata_entries = Map.empty, delegate_entries = Map.empty,
     instance_live_until = 0, entry_live_until = (\<lambda>_. 0), events = [], token_state = ts \<rparr>"

definition publish :: "event \<Rightarrow> 't world \<Rightarrow> 't world" where
  "publish ev w = w\<lparr>events := events w @ [ev]\<rparr>"

section \<open>Emission helpers\<close>

definition emit_stream_created :: "u64 \<Rightarrow> stream \<Rightarrow> 't world \<Rightarrow> 't world" where
  "emit_stream_created stream_id s w =
     publish (StreamCreatedEvent stream_id (sender s) (recipient s) (token s) (deposited s)
       (start_time s) (end_time s) (cliff_time s) (cancellable s) (pausable s) (transferable s)
       (curve s) (cliff_mode s) (reference s)) w"

text \<open>A zero amount emits nothing; the assertion on a negative amount traps.\<close>

definition emit_withdrawn :: "u64 \<Rightarrow> stream \<Rightarrow> int \<Rightarrow> 't world \<Rightarrow> 't world result" where
  "emit_withdrawn stream_id s amount w =
     (if amount = 0 then Inr w
      else if \<not> amount > 0 then Inl Trap
      else Inr (publish (WithdrawnEvent stream_id (recipient s) amount (withdrawn s) (deposited s)
             (status s) (sender s) (paused_at s) (paused_total s)) w))"

definition emit_cancelled :: "u64 \<Rightarrow> stream \<Rightarrow> int \<Rightarrow> 't world \<Rightarrow> 't world" where
  "emit_cancelled stream_id s refund w =
     publish (CancelledEvent stream_id (sender s) (recipient s) refund (deposited s)
       (withdrawn s) (end_time s) (paused_at s) (paused_total s)) w"

definition emit_paused :: "u64 \<Rightarrow> stream \<Rightarrow> u64 \<Rightarrow> 't world \<Rightarrow> 't world" where
  "emit_paused stream_id s at w =
     publish (PausedEvent stream_id (sender s) at (paused_total s) (recipient s)) w"

definition emit_resumed :: "u64 \<Rightarrow> stream \<Rightarrow> u64 \<Rightarrow> 't world \<Rightarrow> 't world" where
  "emit_resumed stream_id s paused_duration w =
     publish (ResumedEvent stream_id (sender s) paused_duration (paused_total s) (recipient s)) w"

definition emit_topped_up :: "u64 \<Rightarrow> stream \<Rightarrow> int \<Rightarrow> 't world \<Rightarrow> 't world result" where
  "emit_topped_up stream_id s amount w =
     (if amount = 0 then Inr w
      else if \<not> amount > 0 then Inl Trap
      else Inr (publish (ToppedUpEvent stream_id (sender s) amount (deposited s) (end_time s)
             (recipient s)) w))"

definition emit_recipient_transferred ::
    "u64 \<Rightarrow> address \<Rightarrow> address \<Rightarrow> address \<Rightarrow> 't world \<Rightarrow> 't world" where
  "emit_recipient_transferred stream_id from_sender old_recipient new_recipient w =
     publish (RecipientTransferredEvent stream_id old_recipient new_recipient from_sender) w"

definition emit_ttl_extended :: "u64 \<Rightarrow> u32 \<Rightarrow> 't world \<Rightarrow> 't world" where
  "emit_ttl_extended stream_id extended_to_ledgers w =
     publish (TtlExtendedEvent stream_id extended_to_ledgers) w"

definition emit_delegate_granted ::
    "u64 \<Rightarrow> address \<Rightarrow> address \<Rightarrow> u32 \<Rightarrow> u64 option \<Rightarrow> 't world \<Rightarrow> 't world" where
  "emit_delegate_granted stream_id grantor delegate granted_ops expires w =
     publish (DelegateGrantedEvent stream_id grantor delegate granted_ops expires) w"

definition emit_delegate_revoked :: "u64 \<Rightarrow> address \<Rightarrow> address \<Rightarrow> 't world \<Rightarrow> 't world" where
  "emit_delegate_revoked stream_id grantor delegate w =
     publish (DelegateRevokedEvent stream_id grantor delegate) w"

definition emit_halt_operator_set :: "address \<Rightarrow> 't world \<Rightarrow> 't world" where
  "emit_halt_operator_set operator w = publish (HaltOperatorSetEvent operator) w"

definition emit_contract_halted :: "address \<Rightarrow> u64 \<Rightarrow> 't world \<Rightarrow> 't world" where
  "emit_contract_halted operator at w = publish (ContractHaltedEvent operator at) w"

definition emit_contract_resumed :: "address \<Rightarrow> u64 \<Rightarrow> u64 \<Rightarrow> 't world \<Rightarrow> 't world" where
  "emit_contract_resumed operator resumed_at halted_for w =
     publish (ContractResumedEvent operator resumed_at halted_for) w"

lemma emit_withdrawn_Inr [simp]:
  "emit_withdrawn stream_id s amount w = Inr w' \<longleftrightarrow>
     amount \<ge> 0 \<and>
     w' = (if amount = 0 then w
           else publish (WithdrawnEvent stream_id (recipient s) amount (withdrawn s) (deposited s)
                  (status s) (sender s) (paused_at s) (paused_total s)) w)"
  by (auto simp: emit_withdrawn_def)

lemma emit_topped_up_Inr [simp]:
  "emit_topped_up stream_id s amount w = Inr w' \<longleftrightarrow>
     amount \<ge> 0 \<and>
     w' = (if amount = 0 then w
           else publish (ToppedUpEvent stream_id (sender s) amount (deposited s) (end_time s)
                  (recipient s)) w)"
  by (auto simp: emit_topped_up_def)

end
