(* ===== verification/Storage.thy ===== *)
theory Storage
  imports Accrual Ledger_Host
begin

text \<open>
  Storage access and TTL management, \<^verbatim>\<open>contracts/stream/src/storage.rs\<close>.

  A stream is spread over up to three persistent entries (record, curve, metadata), and
  the id counters, pool totals and halt live in instance storage. The abstraction
  \<open>lookup_stream\<close> is what those entries mean together: a partial map from ids to streams.
  The locale \<open>stream_store\<close> states what the entry points rely on (a read after a write,
  the frame of a write, a load that only extends rent) and is interpreted on the functions
  below. The \<open>core\<close> of a world is everything but rent and events: rent and event
  operations do not change it, which is how the component proofs discard them.
\<close>

section \<open>Constants\<close>

definition SECONDS_PER_LEDGER :: u64 where
  "SECONDS_PER_LEDGER = 5"

definition TTL_SAFETY_MARGIN_PERCENT :: u64 where
  "TTL_SAFETY_MARGIN_PERCENT = 20"

definition TTL_BUFFER_SECONDS :: u64 where
  "TTL_BUFFER_SECONDS = 30 * 24 * 60 * 60"

definition MIN_STREAM_TTL_LEDGERS :: u32 where
  "MIN_STREAM_TTL_LEDGERS =
     ucast (TTL_BUFFER_SECONDS * (100 + TTL_SAFETY_MARGIN_PERCENT) div (SECONDS_PER_LEDGER * 100))"

section \<open>Rent\<close>

definition seconds_to_ledgers :: "u64 \<Rightarrow> u32" where
  "seconds_to_ledgers seconds =
     (let inflated = saturating_mul_u64 seconds (100 + TTL_SAFETY_MARGIN_PERCENT) div 100;
          ledgers = saturating_add_u64 inflated (SECONDS_PER_LEDGER - 1) div SECONDS_PER_LEDGER
      in if uint ledgers > u32_max then word_of_int u32_max else ucast ledgers)"

definition ttl_target_ledgers :: "env \<Rightarrow> stream \<Rightarrow> u32" where
  "ttl_target_ledgers e s =
     (let now = timestamp e;
          effective_end =
            saturating_add_u64 (saturating_add_u64 (end_time s) (paused_total s))
              (case paused_at s of Some p \<Rightarrow> saturating_sub_u64 now p | None \<Rightarrow> 0);
          remaining = saturating_sub_u64 effective_end now;
          target = seconds_to_ledgers (saturating_add_u64 remaining TTL_BUFFER_SECONDS);
          floored = max target MIN_STREAM_TTL_LEDGERS
      in min floored (max_ttl e))"

definition extend_instance :: "env \<Rightarrow> 't world \<Rightarrow> 't world" where
  "extend_instance e w =
     w\<lparr>instance_live_until :=
         extended (sequence e) (max_ttl e) (max_ttl e) (instance_live_until w)\<rparr>"

definition extend_entry :: "env \<Rightarrow> data_key \<Rightarrow> u32 \<Rightarrow> 't world \<Rightarrow> 't world" where
  "extend_entry e k target w =
     w\<lparr>entry_live_until := (entry_live_until w)
         (k := extended (sequence e) target target (entry_live_until w k))\<rparr>"

definition extend_stream :: "env \<Rightarrow> u64 \<Rightarrow> stream \<Rightarrow> 't world \<Rightarrow> 't world" where
  "extend_stream e stream_id s w =
     (let target = ttl_target_ledgers e s;
          w1 = extend_entry e (StreamKey stream_id) target w;
          w2 = (if curve s \<noteq> Linear
                then extend_entry e (StreamCurveKey stream_id) target w1 else w1)
      in if cliff_mode s \<noteq> DEFAULT_cliff_mode \<or> reference s \<noteq> None
         then extend_entry e (StreamMetadataKey stream_id) target w2 else w2)"

section \<open>Streams\<close>

definition read_stream :: "'t world \<Rightarrow> u64 \<Rightarrow> stream result" where
  "read_stream w stream_id =
     and_then (ok_or (Err StreamNotFound) (stream_entries w stream_id)) (\<lambda>record.
     let c = (case stream_curve_entries w stream_id of None \<Rightarrow> Linear | Some c \<Rightarrow> c);
         s = into_stream record c
     in Inr (case stream_metadata_entries w stream_id of
               Some m \<Rightarrow> s\<lparr>cliff_mode := meta_cliff_mode m, reference := meta_reference m\<rparr>
             | None \<Rightarrow> s))"

definition load_stream :: "env \<Rightarrow> 't world \<Rightarrow> u64 \<Rightarrow> (stream \<times> 't world) result" where
  "load_stream e w stream_id =
     and_then (read_stream w stream_id) (\<lambda>s.
     Inr (s, extend_stream e stream_id s w))"

definition peek_stream :: "'t world \<Rightarrow> u64 \<Rightarrow> stream result" where
  "peek_stream w stream_id = read_stream w stream_id"

definition remove_entry_rent :: "data_key \<Rightarrow> 't world \<Rightarrow> 't world" where
  "remove_entry_rent k w = w\<lparr>entry_live_until := (entry_live_until w)(k := 0)\<rparr>"

text \<open>
  Writing the three entries of a stream. The side-cars are removed where they would only
  restate a default.
\<close>

definition write_stream_entries :: "u64 \<Rightarrow> stream \<Rightarrow> 't world \<Rightarrow> 't world" where
  "write_stream_entries stream_id s w =
     (let w1 = w\<lparr>stream_entries := (stream_entries w)(stream_id \<mapsto> from_stream s)\<rparr>;
          w2 = (if curve s = Linear
                then remove_entry_rent (StreamCurveKey stream_id)
                  (w1\<lparr>stream_curve_entries := (stream_curve_entries w1)(stream_id := None)\<rparr>)
                else w1\<lparr>stream_curve_entries := (stream_curve_entries w1)(stream_id \<mapsto> curve s)\<rparr>)
      in if cliff_mode s \<noteq> DEFAULT_cliff_mode \<or> reference s \<noteq> None
         then w2\<lparr>stream_metadata_entries := (stream_metadata_entries w2)
                (stream_id \<mapsto> \<lparr>meta_cliff_mode = cliff_mode s, meta_reference = reference s\<rparr>)\<rparr>
         else remove_entry_rent (StreamMetadataKey stream_id)
                (w2\<lparr>stream_metadata_entries := (stream_metadata_entries w2)(stream_id := None)\<rparr>))"

definition save_stream :: "env \<Rightarrow> u64 \<Rightarrow> stream \<Rightarrow> 't world \<Rightarrow> 't world result" where
  "save_stream e stream_id s w =
     (let is_new = (stream_entries w stream_id = None);
          w1 = write_stream_entries stream_id s w
      in and_then
           (if is_new
            then
              let current = (case next_stream_id_entry w1 of None \<Rightarrow> 0 | Some n \<Rightarrow> n) in
              and_then (ok_or Trap (checked_add_u64 current 1)) (\<lambda>next_id.
              Inr (extend_instance e
                     (w1\<lparr>next_stream_id_entry := Some next_id, stream_count_entry := Some next_id\<rparr>)))
            else Inr w1) (\<lambda>w2.
         Inr (extend_stream e stream_id s w2)))"

definition next_stream_id :: "env \<Rightarrow> 't world \<Rightarrow> (u64 \<times> 't world) result" where
  "next_stream_id e w =
     (let current = (case next_stream_id_entry w of None \<Rightarrow> 0 | Some n \<Rightarrow> n)
      in if uint current = u64_max then Inl (Err StreamIdExhausted)
         else Inr (current, extend_instance e w))"

definition stream_exists :: "'t world \<Rightarrow> u64 \<Rightarrow> bool" where
  "stream_exists w stream_id = (stream_entries w stream_id \<noteq> None)"

definition stream_count :: "'t world \<Rightarrow> u64" where
  "stream_count w =
     (case stream_count_entry w of
        Some n \<Rightarrow> n
      | None \<Rightarrow> (case next_stream_id_entry w of Some n \<Rightarrow> n | None \<Rightarrow> 0))"

section \<open>Pooled balances\<close>

definition pooled_balance :: "'t world \<Rightarrow> address \<Rightarrow> int" where
  "pooled_balance w tkn = (case pooled_balance_entries w tkn of Some b \<Rightarrow> b | None \<Rightarrow> 0)"

definition set_pooled_balance :: "env \<Rightarrow> address \<Rightarrow> int \<Rightarrow> 't world \<Rightarrow> 't world" where
  "set_pooled_balance e tkn amount w =
     extend_instance e
       (w\<lparr>pooled_balance_entries := (pooled_balance_entries w)(tkn \<mapsto> amount)\<rparr>)"

definition credit_pool :: "env \<Rightarrow> address \<Rightarrow> int \<Rightarrow> 't world \<Rightarrow> 't world result" where
  "credit_pool e tkn amount w =
     and_then (ok_or (Err Overflow) (checked_add_i128 (pooled_balance w tkn) amount)) (\<lambda>next_total.
     Inr (set_pooled_balance e tkn next_total w))"

definition debit_pool :: "env \<Rightarrow> address \<Rightarrow> int \<Rightarrow> 't world \<Rightarrow> 't world result" where
  "debit_pool e tkn amount w =
     and_then (ok_or (Err Overflow) (checked_sub_i128 (pooled_balance w tkn) amount)) (\<lambda>next_total.
     Inr (set_pooled_balance e tkn next_total w))"

section \<open>Delegation grants\<close>

definition save_delegate ::
    "env \<Rightarrow> u64 \<Rightarrow> address \<Rightarrow> delegate_grant \<Rightarrow> 't world \<Rightarrow> 't world result" where
  "save_delegate e stream_id delegate grant w =
     (let w1 = w\<lparr>delegate_entries := (delegate_entries w)((stream_id, delegate) \<mapsto> grant)\<rparr>
      in case peek_stream w1 stream_id of
           Inl _ \<Rightarrow> Inl Trap
         | Inr s \<Rightarrow> Inr (extend_entry e (DelegateKey stream_id delegate) (ttl_target_ledgers e s) w1))"

definition remove_delegate :: "u64 \<Rightarrow> address \<Rightarrow> 't world \<Rightarrow> 't world" where
  "remove_delegate stream_id delegate w =
     (if delegate_entries w (stream_id, delegate) \<noteq> None
      then remove_entry_rent (DelegateKey stream_id delegate)
             (w\<lparr>delegate_entries := (delegate_entries w)((stream_id, delegate) := None)\<rparr>)
      else w)"

definition load_delegate :: "'t world \<Rightarrow> u64 \<Rightarrow> address \<Rightarrow> delegate_grant option" where
  "load_delegate w stream_id delegate = delegate_entries w (stream_id, delegate)"

section \<open>The halt\<close>

definition halt_operator :: "'t world \<Rightarrow> address option" where
  "halt_operator w = halt_operator_entry w"

definition store_halt_operator :: "env \<Rightarrow> address \<Rightarrow> 't world \<Rightarrow> 't world" where
  "store_halt_operator e operator w = extend_instance e (w\<lparr>halt_operator_entry := Some operator\<rparr>)"

definition is_halted :: "'t world \<Rightarrow> bool" where
  "is_halted w = (halted_at_entry w \<noteq> None)"

definition halt_started_at :: "'t world \<Rightarrow> u64 option" where
  "halt_started_at w = halted_at_entry w"

definition set_halt :: "env \<Rightarrow> 't world \<Rightarrow> 't world" where
  "set_halt e w = extend_instance e (w\<lparr>halted_at_entry := Some (timestamp e)\<rparr>)"

definition clear_halt :: "env \<Rightarrow> 't world \<Rightarrow> 't world" where
  "clear_halt e w = extend_instance e (w\<lparr>halted_at_entry := None\<rparr>)"

section \<open>What the entries mean\<close>

definition lookup_stream :: "'t world \<Rightarrow> u64 \<Rightarrow> stream option" where
  "lookup_stream w stream_id = (case read_stream w stream_id of Inr s \<Rightarrow> Some s | Inl _ \<Rightarrow> None)"

lemma read_stream_eq: "read_stream w stream_id = ok_or (Err StreamNotFound) (lookup_stream w stream_id)"
  by (cases "stream_entries w stream_id") (simp_all add: lookup_stream_def read_stream_def Let_def)

lemma lookup_stream_None: "lookup_stream w stream_id = None \<longleftrightarrow> stream_entries w stream_id = None"
  by (cases "stream_entries w stream_id") (simp_all add: lookup_stream_def read_stream_def Let_def)

definition next_id :: "'t world \<Rightarrow> u64" where
  "next_id w = (case next_stream_id_entry w of None \<Rightarrow> 0 | Some n \<Rightarrow> n)"

text \<open>
  The view of a world: what its entries mean, without rent and events. The component
  lemmas describe each operation by what it does to the view.
\<close>

record 't view =
  v_streams :: "u64 \<rightharpoonup> stream"
  v_pool :: "address \<Rightarrow> int"
  v_next :: u64
  v_count :: u64
  v_grants :: "u64 \<times> address \<rightharpoonup> delegate_grant"
  v_operator :: "address option"
  v_halted :: "u64 option"
  v_tokens :: 't

definition view :: "'t world \<Rightarrow> 't view" where
  "view w = \<lparr>
     v_streams = lookup_stream w, v_pool = pooled_balance w, v_next = next_id w,
     v_count = stream_count w, v_grants = delegate_entries w,
     v_operator = halt_operator_entry w, v_halted = halted_at_entry w,
     v_tokens = token_state w \<rparr>"

lemmas view_defs = view_def lookup_stream_def read_stream_def pooled_balance_def next_id_def
  stream_count_def

lemma view_simps [simp]:
  "v_streams (view w) = lookup_stream w"
  "v_pool (view w) = pooled_balance w"
  "v_next (view w) = next_id w"
  "v_count (view w) = stream_count w"
  "v_grants (view w) = delegate_entries w"
  "v_operator (view w) = halt_operator_entry w"
  "v_halted (view w) = halted_at_entry w"
  "v_tokens (view w) = token_state w"
  by (simp_all add: view_def)

lemma view_eqD:
  assumes "view w' = view w"
  shows "lookup_stream w' = lookup_stream w" "pooled_balance w' = pooled_balance w"
    "next_id w' = next_id w" "stream_count w' = stream_count w"
    "delegate_entries w' = delegate_entries w" "halt_operator_entry w' = halt_operator_entry w"
    "halted_at_entry w' = halted_at_entry w" "token_state w' = token_state w"
  using assms view_simps by metis+

text \<open>Rent and events are not part of the view, and rent operations publish nothing.\<close>

lemma view_frame:
  "view (w\<lparr>events := es\<rparr>) = view w"
  "view (w\<lparr>instance_live_until := l\<rparr>) = view w"
  "view (w\<lparr>entry_live_until := lu\<rparr>) = view w"
  by (simp_all add: view_defs fun_eq_iff cong: option.case_cong)

lemma view_rent [simp]:
  "view (publish ev w) = view w"
  "view (extend_instance e w) = view w"
  "view (extend_entry e k target w) = view w"
  "view (extend_stream e stream_id s w) = view w"
  "view (remove_entry_rent k w) = view w"
  by (simp_all add: publish_def extend_instance_def extend_entry_def extend_stream_def
      remove_entry_rent_def Let_def view_frame)

lemma events_rent [simp]:
  "events (publish ev w) = events w @ [ev]"
  "events (extend_instance e w) = events w"
  "events (extend_entry e k target w) = events w"
  "events (extend_stream e stream_id s w) = events w"
  "events (write_stream_entries stream_id s w) = events w"
  "events (set_pooled_balance e tkn amount w) = events w"
  by (simp_all add: publish_def extend_instance_def extend_entry_def extend_stream_def
      write_stream_entries_def remove_entry_rent_def set_pooled_balance_def Let_def)

text \<open>Fields of the world that a rent operation leaves alone, through the view.\<close>

lemma view_fields_rent [simp]:
  "lookup_stream (publish ev w) = lookup_stream w"
  "lookup_stream (extend_instance e w) = lookup_stream w"
  "lookup_stream (extend_entry e k target w) = lookup_stream w"
  "lookup_stream (extend_stream e stream_id s w) = lookup_stream w"
  "pooled_balance (publish ev w) = pooled_balance w"
  "pooled_balance (extend_instance e w) = pooled_balance w"
  "pooled_balance (extend_stream e stream_id s w) = pooled_balance w"
  "next_id (publish ev w) = next_id w"
  "next_id (extend_instance e w) = next_id w"
  "next_id (extend_stream e stream_id s w) = next_id w"
  "token_state (publish ev w) = token_state w"
  "token_state (extend_instance e w) = token_state w"
  "token_state (extend_stream e stream_id s w) = token_state w"
  "halted_at_entry (extend_stream e stream_id s w) = halted_at_entry w"
  "delegate_entries (extend_stream e stream_id s w) = delegate_entries w"
  by (rule view_eqD; simp)+

text \<open>Reassembling a stream from its three entries, and what a write leaves in them.\<close>

definition assemble :: "release_curve option \<Rightarrow> stream_metadata option \<Rightarrow> stream_record \<Rightarrow> stream" where
  "assemble c m r =
     (let s = into_stream r (case c of None \<Rightarrow> Linear | Some k \<Rightarrow> k)
      in case m of
           None \<Rightarrow> s
         | Some x \<Rightarrow> s\<lparr>cliff_mode := meta_cliff_mode x, reference := meta_reference x\<rparr>)"

lemma lookup_stream_assemble:
  "lookup_stream w i =
     map_option (assemble (stream_curve_entries w i) (stream_metadata_entries w i)) (stream_entries w i)"
  by (cases "stream_entries w i")
    (simp_all add: lookup_stream_def read_stream_def Let_def assemble_def cong: option.case_cong)

lemma write_stream_entries_fields:
  "stream_entries (write_stream_entries i s w) = (stream_entries w)(i \<mapsto> from_stream s)"
  "stream_curve_entries (write_stream_entries i s w) =
     (stream_curve_entries w)(i := (if curve s = Linear then None else Some (curve s)))"
  "stream_metadata_entries (write_stream_entries i s w) =
     (stream_metadata_entries w)
       (i := (if cliff_mode s \<noteq> DEFAULT_cliff_mode \<or> reference s \<noteq> None
              then Some \<lparr>meta_cliff_mode = cliff_mode s, meta_reference = reference s\<rparr> else None))"
  "pooled_balance_entries (write_stream_entries i s w) = pooled_balance_entries w"
  "next_stream_id_entry (write_stream_entries i s w) = next_stream_id_entry w"
  "stream_count_entry (write_stream_entries i s w) = stream_count_entry w"
  "delegate_entries (write_stream_entries i s w) = delegate_entries w"
  "halt_operator_entry (write_stream_entries i s w) = halt_operator_entry w"
  "halted_at_entry (write_stream_entries i s w) = halted_at_entry w"
  "token_state (write_stream_entries i s w) = token_state w"
  by (simp_all add: write_stream_entries_def remove_entry_rent_def Let_def)

lemma assemble_from_stream:
  "assemble (if curve s = Linear then None else Some (curve s))
     (if cliff_mode s \<noteq> DEFAULT_cliff_mode \<or> reference s \<noteq> None
      then Some \<lparr>meta_cliff_mode = cliff_mode s, meta_reference = reference s\<rparr> else None)
     (from_stream s) = s"
  by (cases s) (auto simp: assemble_def into_stream_def from_stream_def)

lemma lookup_write_stream_entries:
  "lookup_stream (write_stream_entries i s w) = (lookup_stream w)(i \<mapsto> s)"
proof
  fix j
  show "lookup_stream (write_stream_entries i s w) j = ((lookup_stream w)(i \<mapsto> s)) j"
  proof (cases "j = i")
    case True
    show ?thesis
      unfolding True lookup_stream_assemble write_stream_entries_fields
      by (simp only: fun_upd_same option.map assemble_from_stream)
  next
    case False
    then show ?thesis
      unfolding lookup_stream_assemble write_stream_entries_fields
      by (simp only: fun_upd_other lookup_stream_assemble simp_thms if_False not_False_eq_True)
  qed
qed

lemma view_write_stream_entries:
  "view (write_stream_entries i s w) = (view w)\<lparr>v_streams := (lookup_stream w)(i \<mapsto> s)\<rparr>"
  unfolding view_def pooled_balance_def next_id_def stream_count_def
    lookup_write_stream_entries write_stream_entries_fields by simp


section \<open>Saving and loading\<close>

lemma view_counters_update:
  "view (w\<lparr>next_stream_id_entry := Some n, stream_count_entry := Some m\<rparr>) =
     (view w)\<lparr>v_next := n, v_count := m\<rparr>"
  by (simp add: view_defs fun_eq_iff cong: option.case_cong)

lemma save_stream_existing:
  assumes "lookup_stream w i \<noteq> None"
  shows "\<exists>w'. save_stream e i s w = Inr w'"
proof -
  have "stream_entries w i \<noteq> None" using assms lookup_stream_None by metis
  then show ?thesis by (auto simp: save_stream_def Let_def)
qed

text \<open>Saving over a stream replaces it and nothing else.\<close>

lemma save_stream_view:
  assumes "save_stream e i s w = Inr w'" "lookup_stream w i \<noteq> None"
  shows "view w' = (view w)\<lparr>v_streams := (lookup_stream w)(i \<mapsto> s)\<rparr>" "events w' = events w"
proof -
  have "stream_entries w i \<noteq> None" using assms lookup_stream_None by metis
  then have "w' = extend_stream e i s (write_stream_entries i s w)"
    using assms(1) by (auto simp: save_stream_def Let_def)
  then show "view w' = (view w)\<lparr>v_streams := (lookup_stream w)(i \<mapsto> s)\<rparr>" "events w' = events w"
    by (simp_all add: view_write_stream_entries)
qed

lemma save_stream_fields:
  assumes "save_stream e i s w = Inr w'" "lookup_stream w i \<noteq> None"
  shows "lookup_stream w' = (lookup_stream w)(i \<mapsto> s)" "pooled_balance w' = pooled_balance w"
    "next_id w' = next_id w" "stream_count w' = stream_count w"
    "delegate_entries w' = delegate_entries w" "halt_operator_entry w' = halt_operator_entry w"
    "halted_at_entry w' = halted_at_entry w" "token_state w' = token_state w" "events w' = events w"
  using save_stream_view [OF assms] by (simp_all add: view_def)

text \<open>Saving under a new id advances both counters; the only failure is a counter at its top.\<close>

lemma save_stream_new:
  assumes "save_stream e i s w = Inr w'" "lookup_stream w i = None"
  shows "view w' = (view w)\<lparr>v_streams := (lookup_stream w)(i \<mapsto> s),
           v_next := next_id w + 1, v_count := next_id w + 1\<rparr>"
    and "uint (next_id w) < u64_max" "events w' = events w"
proof -
  have n: "(case next_stream_id_entry (write_stream_entries i s w) of None \<Rightarrow> 0 | Some n \<Rightarrow> n) = next_id w"
    by (simp add: next_id_def write_stream_entries_fields cong: option.case_cong)
  obtain n' where n': "checked_add_u64 (next_id w) 1 = Some n'"
    "w' = extend_stream e i s (extend_instance e ((write_stream_entries i s w)
      \<lparr>next_stream_id_entry := Some n', stream_count_entry := Some n'\<rparr>))"
    using assms by (auto simp: save_stream_def lookup_stream_None Let_def n simp del: checked_add_u64_Some)
  then have "n' = next_id w + 1" and lt: "uint (next_id w) < u64_max"
    by (auto simp: checked_add_u64_def u64_max_def split: if_splits)
  then show "view w' = (view w)\<lparr>v_streams := (lookup_stream w)(i \<mapsto> s),
           v_next := next_id w + 1, v_count := next_id w + 1\<rparr>"
    and "uint (next_id w) < u64_max" "events w' = events w"
    by (simp_all add: n' view_counters_update view_write_stream_entries)
qed

lemma save_stream_new_total:
  assumes "uint (next_id w) < u64_max"
  shows "\<exists>w'. save_stream e i s w = Inr w'"
proof -
  have n: "(case next_stream_id_entry (write_stream_entries i s w) of None \<Rightarrow> 0 | Some n \<Rightarrow> n) = next_id w"
    by (simp add: next_id_def write_stream_entries_fields cong: option.case_cong)
  have "\<exists>n'. checked_add_u64 (next_id w) 1 = Some n'"
    using assms by (simp add: checked_add_u64_def)
  then show ?thesis by (auto simp add: save_stream_def Let_def n)
qed

lemma load_stream_eq:
  "load_stream e w i =
     (case lookup_stream w i of
        None \<Rightarrow> Inl (Err StreamNotFound)
      | Some s \<Rightarrow> Inr (s, extend_stream e i s w))"
  by (cases "lookup_stream w i") (simp_all add: load_stream_def read_stream_eq)

lemma load_stream_Inr [simp]:
  "load_stream e w i = Inr (s, w') \<longleftrightarrow> lookup_stream w i = Some s \<and> w' = extend_stream e i s w"
  by (auto simp: load_stream_eq split: option.split)

lemma peek_stream_Inr [simp]: "peek_stream w i = Inr s \<longleftrightarrow> lookup_stream w i = Some s"
  by (simp add: peek_stream_def read_stream_eq)

lemma peek_stream_Inl: "peek_stream w i = Inl f \<longleftrightarrow> lookup_stream w i = None \<and> f = Err StreamNotFound"
  by (auto simp: peek_stream_def read_stream_eq ok_or_eq_Inl)

text \<open>
  What the entry points rely on in the stream store. A write is read back, touches no other
  stream and never fails over an existing one; a load returns what the store holds and
  leaves it alone. The client's view is \<open>alpha\<close>, the streams a world holds.
\<close>

locale stream_store =
  fixes alpha :: "'w \<Rightarrow> u64 \<Rightarrow> stream option"
    and fetch :: "'w \<Rightarrow> u64 \<Rightarrow> (stream \<times> 'w) result"
    and glance :: "'w \<Rightarrow> u64 \<Rightarrow> stream result"
    and store :: "u64 \<Rightarrow> stream \<Rightarrow> 'w \<Rightarrow> 'w result"
  assumes glance_alpha: "glance w i = ok_or (Err StreamNotFound) (alpha w i)"
    and fetch_glance: "fetch w i = Inr (s, w') \<Longrightarrow> glance w i = Inr s"
    and fetch_total: "alpha w i = Some s \<Longrightarrow> \<exists>w'. fetch w i = Inr (s, w')"
    and fetch_frame: "fetch w i = Inr (s, w') \<Longrightarrow> alpha w' = alpha w"
    and store_total: "alpha w i \<noteq> None \<Longrightarrow> \<exists>w'. store i s w = Inr w'"
    and store_alpha: "store i s w = Inr w' \<Longrightarrow> alpha w' = (alpha w)(i \<mapsto> s)"
begin

lemma read_after_store: "store i s w = Inr w' \<Longrightarrow> glance w' i = Inr s"
  by (simp add: glance_alpha store_alpha)

lemma fetch_after_store:
  assumes "store i s w = Inr w'"
  shows "\<exists>w''. fetch w' i = Inr (s, w'')"
  by (rule fetch_total) (simp add: store_alpha [OF assms])

lemma store_frame: "store i s w = Inr w' \<Longrightarrow> j \<noteq> i \<Longrightarrow> glance w' j = glance w j"
  by (simp add: glance_alpha store_alpha)

lemma store_overwrites:
  "store i s w = Inr w1 \<Longrightarrow> store i s' w1 = Inr w2 \<Longrightarrow> alpha w2 = (alpha w)(i \<mapsto> s')"
  by (simp add: store_alpha)

text \<open>The read-modify-write shape of an entry point never fails in the store.\<close>

lemma read_modify_write:
  assumes "alpha w i = Some s"
  shows "\<exists>w1 w2. fetch w i = Inr (s, w1) \<and> store i (f s) w1 = Inr w2 \<and>
           alpha w2 = (alpha w)(i \<mapsto> f s)"
proof -
  obtain w1 where w1: "fetch w i = Inr (s, w1)" using fetch_total [OF assms] by blast
  then have a: "alpha w1 = alpha w" by (rule fetch_frame)
  with assms obtain w2 where "store i (f s) w1 = Inr w2" using store_total [of w1 i "f s"] by auto
  with w1 a show ?thesis by (auto dest: store_alpha)
qed

end

lemma save_stream_lookup: "save_stream e i s w = Inr w' \<Longrightarrow> lookup_stream w' = (lookup_stream w)(i \<mapsto> s)"
  using save_stream_fields(1) [of e i s w w'] save_stream_new(1) [of e i s w w']
  by (cases "lookup_stream w i") (auto simp: view_def)

interpretation store: stream_store lookup_stream "load_stream e" peek_stream "save_stream e" for e
  by unfold_locales
    (use save_stream_existing in \<open>fastforce simp: peek_stream_def read_stream_eq load_stream_eq
      save_stream_lookup split: option.splits\<close>)+

section \<open>Pools, grants and counters on the view\<close>

lemma view_set_pooled_balance:
  "view (set_pooled_balance e tkn amount w) = (view w)\<lparr>v_pool := (pooled_balance w)(tkn := amount)\<rparr>"
  by (auto simp: set_pooled_balance_def view_defs fun_eq_iff extend_instance_def cong: option.case_cong)

lemma credit_pool_view:
  assumes "credit_pool e tkn amount w = Inr w'"
  shows "view w' = (view w)\<lparr>v_pool := (pooled_balance w)(tkn := pooled_balance w tkn + amount)\<rparr>"
    and "in_i128 (pooled_balance w tkn + amount)" "events w' = events w"
  using assms by (auto simp: credit_pool_def view_set_pooled_balance)

lemma debit_pool_view:
  assumes "debit_pool e tkn amount w = Inr w'"
  shows "view w' = (view w)\<lparr>v_pool := (pooled_balance w)(tkn := pooled_balance w tkn - amount)\<rparr>"
    and "in_i128 (pooled_balance w tkn - amount)" "events w' = events w"
  using assms by (auto simp: debit_pool_def view_set_pooled_balance)

lemma debit_pool_total: "in_i128 (pooled_balance w tkn - amount) \<Longrightarrow> \<exists>w'. debit_pool e tkn amount w = Inr w'"
  by (simp add: debit_pool_def checked_sub_i128_def)

lemma credit_pool_total: "in_i128 (pooled_balance w tkn + amount) \<Longrightarrow> \<exists>w'. credit_pool e tkn amount w = Inr w'"
  by (simp add: credit_pool_def checked_add_i128_def)

lemma next_stream_id_eq:
  "next_stream_id e w =
     (if uint (next_id w) = u64_max then Inl (Err StreamIdExhausted)
      else Inr (next_id w, extend_instance e w))"
  by (simp add: next_stream_id_def next_id_def Let_def)

lemma save_delegate_view:
  assumes "save_delegate e i d g w = Inr w'"
  shows "view w' = (view w)\<lparr>v_grants := (delegate_entries w)((i, d) \<mapsto> g)\<rparr>" "events w' = events w"
  using assms
  by (auto simp: save_delegate_def Let_def extend_entry_def view_defs fun_eq_iff
      split: sum.splits cong: option.case_cong)

lemma save_delegate_total:
  assumes "lookup_stream w i \<noteq> None"
  shows "\<exists>w'. save_delegate e i d g w = Inr w'"
proof -
  have "lookup_stream (w\<lparr>delegate_entries := de\<rparr>) i = lookup_stream w i" for de
    by (simp add: lookup_stream_def read_stream_def cong: option.case_cong)
  with assms show ?thesis
    by (auto simp: save_delegate_def Let_def peek_stream_def read_stream_eq)
qed

lemma remove_delegate_view:
  "view (remove_delegate i d w) = (view w)\<lparr>v_grants := (delegate_entries w)((i, d) := None)\<rparr>"
  "events (remove_delegate i d w) = events w"
  by (auto simp: remove_delegate_def remove_entry_rent_def view_defs fun_eq_iff cong: option.case_cong)

lemma halt_view:
  "view (store_halt_operator e a w) = (view w)\<lparr>v_operator := Some a\<rparr>"
  "view (set_halt e w) = (view w)\<lparr>v_halted := Some (timestamp e)\<rparr>"
  "view (clear_halt e w) = (view w)\<lparr>v_halted := None\<rparr>"
  by (simp_all add: store_halt_operator_def set_halt_def clear_halt_def extend_instance_def
      view_defs fun_eq_iff cong: option.case_cong)

end
