(* ===== verification/Stream_Machine.thy ===== *)
theory Stream_Machine
  imports Accrual
begin

text \<open>
  The abstract life of one stream, independent of storage, tokens and authorization: what
  a well-formed stream is at an instant, and the steps that the entry points of
  \<^verbatim>\<open>contracts/stream/src/lib.rs\<close> may make it take. The steps are an inductive relation;
  the invariants (well-formedness, an entitlement that never falls, withdrawals that never
  fall, immutable terms, sticky terminal states) are proved by rule induction, across any
  sequence of steps and passages of time. The component theories show that each entry
  point refines this relation.
\<close>

section \<open>The steps\<close>

text \<open>Closing an open pause absorbs the paused interval.\<close>

definition settle_pause :: "u64 \<Rightarrow> stream \<Rightarrow> stream" where
  "settle_pause now s =
     (case paused_at s of
        None \<Rightarrow> s
      | Some p \<Rightarrow> s\<lparr>paused_total := paused_total s + (now - p), paused_at := None\<rparr>)"

definition paused_stream :: "u64 \<Rightarrow> stream \<Rightarrow> stream" where
  "paused_stream now s = s\<lparr>paused_at := Some now, status := Paused\<rparr>"

definition resumed_stream :: "u64 \<Rightarrow> stream \<Rightarrow> stream" where
  "resumed_stream now s = (settle_pause now s)\<lparr>status := Active\<rparr>"

definition paid_stream :: "u64 \<Rightarrow> int \<Rightarrow> stream \<Rightarrow> stream" where
  "paid_stream now amount s =
     (let s1 = s\<lparr>withdrawn := withdrawn s + amount\<rparr>
      in if withdrawn s1 \<ge> deposited s1 \<and> status s1 \<noteq> Cancelled
         then (settle_pause now s1)\<lparr>status := Depleted\<rparr> else s1)"

definition cancelled_stream :: "u64 \<Rightarrow> stream \<Rightarrow> stream" where
  "cancelled_stream now s =
     s\<lparr>deposited := vested_amount s now, end_time := max (stream_time s now) (start_time s),
       paused_at := None, status := Cancelled\<rparr>"

definition grown_stream :: "int \<Rightarrow> u64 \<Rightarrow> stream \<Rightarrow> stream" where
  "grown_stream amount new_end s = s\<lparr>deposited := deposited s + amount, end_time := new_end\<rparr>"

inductive stream_step :: "u64 \<Rightarrow> stream \<Rightarrow> stream \<Rightarrow> bool" for now :: u64 where
  step_pause:
    "pausable s \<Longrightarrow> status s = Active \<Longrightarrow> stream_step now s (paused_stream now s)"
| step_resume:
    "status s = Paused \<Longrightarrow> stream_step now s (resumed_stream now s)"
| step_withdraw:
    "0 < amount \<Longrightarrow> amount \<le> vested_amount s now - withdrawn s \<Longrightarrow>
     stream_step now s (paid_stream now amount s)"
| step_cancel:
    "cancellable s \<Longrightarrow> \<not> is_terminal (status s) \<Longrightarrow>
     stream_step now s (cancelled_stream now s)"
| step_top_up:
    "0 < amount \<Longrightarrow> \<not> is_terminal (status s) \<Longrightarrow> stream_time s now < end_time s \<Longrightarrow>
     end_time s \<le> new_end \<Longrightarrow> s' = grown_stream amount new_end s \<Longrightarrow>
     in_i128 (deposited s') \<Longrightarrow> in_i128 (deposited s' * uint (duration s')) \<Longrightarrow>
     uint (duration s') \<le> deposited s' \<Longrightarrow> vested_amount s now \<le> vested_amount s' now \<Longrightarrow>
     stream_step now s s'"
| step_transfer:
    "transferable s \<Longrightarrow> status s \<noteq> Depleted \<Longrightarrow> withdrawn s < deposited s \<Longrightarrow>
     new_recipient \<noteq> sender s \<Longrightarrow> stream_step now s (s\<lparr>recipient := new_recipient\<rparr>)"

section \<open>Well-formed streams\<close>

definition pause_ok :: "u64 \<Rightarrow> stream \<Rightarrow> bool" where
  "pause_ok now s =
     (case paused_at s of
        None \<Rightarrow> status s \<noteq> Paused \<and> paused_total s \<le> now
      | Some p \<Rightarrow> status s = Paused \<and> p \<le> now \<and> paused_total s \<le> p)"

definition live_ok :: "stream \<Rightarrow> bool" where
  "live_ok s \<longleftrightarrow>
     accrual_domain (deposited s) (duration s) \<and> start_time s < end_time s \<and>
     uint (duration s) \<le> deposited s \<and> withdrawn s < deposited s"

definition wf_stream :: "u64 \<Rightarrow> stream \<Rightarrow> bool" where
  "wf_stream now s \<longleftrightarrow>
     vest_ok s now \<and> 0 \<le> withdrawn s \<and> withdrawn s \<le> vested_amount s now \<and>
     pause_ok now s \<and> start_time s \<le> cliff_time s \<and> sender s \<noteq> recipient s \<and>
     (\<not> is_terminal (status s) \<longrightarrow> live_ok s) \<and>
     (status s = Cancelled \<longrightarrow> vested_amount s now = deposited s) \<and>
     (status s = Depleted \<longrightarrow> withdrawn s = deposited s)"

lemma wf_streamD:
  assumes "wf_stream now s"
  shows "vest_ok s now" "0 \<le> withdrawn s" "withdrawn s \<le> vested_amount s now" "pause_ok now s"
    "0 \<le> vested_amount s now" "vested_amount s now \<le> deposited s" "withdrawn s \<le> deposited s"
    "0 \<le> deposited s" "deposited s \<le> i128_max" "withdrawn s \<le> i128_max" "sender s \<noteq> recipient s"
    "vested s now = Inr (vested_amount s now)"
  using assms vested_total [of s now] by (auto simp: wf_stream_def vest_ok_def)

lemma wf_live: "wf_stream now s \<Longrightarrow> \<not> is_terminal (status s) \<Longrightarrow> live_ok s"
  by (simp add: wf_stream_def)

lemma wf_terminal_settled:
  assumes "wf_stream now s" "is_terminal (status s)"
  shows "vested_amount s now = deposited s"
  using assms wf_streamD [OF assms(1)] by (auto simp: wf_stream_def is_terminal_iff)

text \<open>Time alone keeps a stream well formed.\<close>

lemma wf_stream_later:
  assumes "wf_stream now s" "now \<le> later"
  shows "wf_stream later s"
proof -
  note wf = wf_streamD [OF assms(1)]
  have ok: "vest_ok s later" using assms(2) wf(1) by (rule vest_ok_mono)
  have mono: "vested_amount s now \<le> vested_amount s later"
    using wf(1) assms(2) by (rule vested_amount_mono)
  have "pause_ok later s"
    using wf(4) assms(2) by (auto simp: pause_ok_def split: option.splits)
  with assms(1) ok mono vested_total(3) [OF ok] show ?thesis
    by (auto simp: wf_stream_def)
qed

section \<open>What the steps do to the clock and to the vested amount\<close>

lemma stream_time_settle_pause:
  assumes "pause_ok now s"
  shows "stream_time (settle_pause now s) now = stream_time s now"
proof (cases "paused_at s")
  case None
  then show ?thesis by (simp add: settle_pause_def)
next
  case (Some p)
  with assms have p: "p \<le> now" "paused_total s \<le> p" by (simp_all add: pause_ok_def)
  have d: "uint (now - p) = uint now - uint p" using p(1) by (rule uint_diff_u64)
  have "uint (paused_total s) + uint (now - p) \<le> uint now"
    using p(2) by (simp add: d word_le_def)
  then have "uint (paused_total s) + uint (now - p) \<le> u64_max"
    using uint_u64_bounds(2) [of now] by linarith
  then have "uint (paused_total s + (now - p)) = uint (paused_total s) + (uint now - uint p)"
    by (simp add: uint_add_u64 d)
  with Some show ?thesis
    by (simp add: word_uint_eq_iff uint_stream_time settle_pause_def)
qed

lemma settle_pause_fields [simp]:
  "sender (settle_pause now s) = sender s" "recipient (settle_pause now s) = recipient s"
  "token (settle_pause now s) = token s" "deposited (settle_pause now s) = deposited s"
  "withdrawn (settle_pause now s) = withdrawn s" "start_time (settle_pause now s) = start_time s"
  "end_time (settle_pause now s) = end_time s" "cliff_time (settle_pause now s) = cliff_time s"
  "cancellable (settle_pause now s) = cancellable s" "pausable (settle_pause now s) = pausable s"
  "transferable (settle_pause now s) = transferable s" "status (settle_pause now s) = status s"
  "cliff_mode (settle_pause now s) = cliff_mode s" "curve (settle_pause now s) = curve s"
  "reference (settle_pause now s) = reference s" "paused_at (settle_pause now s) = None"
  "duration (settle_pause now s) = duration s"
  by (simp_all add: settle_pause_def duration_def split: option.split)

lemma settle_pause_total_le:
  assumes "pause_ok now s"
  shows "paused_total (settle_pause now s) \<le> now"
proof (cases "paused_at s")
  case None
  with assms show ?thesis by (simp add: settle_pause_def pause_ok_def)
next
  case (Some p)
  with assms have p: "p \<le> now" "paused_total s \<le> p" by (simp_all add: pause_ok_def)
  have "uint (paused_total s) + uint (now - p) \<le> uint now"
    using p by (simp add: uint_diff_u64 word_le_def)
  moreover from this have "uint (paused_total s + (now - p)) = uint (paused_total s) + uint (now - p)"
    using uint_u64_bounds(2) [of now] by (intro uint_add_u64) linarith
  ultimately show ?thesis using Some by (simp add: settle_pause_def word_le_def)
qed

text \<open>
  A change that keeps the schedule and the clock of the instant keeps the vested amount and
  whether the stream vests without error.
\<close>

definition same_schedule :: "u64 \<Rightarrow> stream \<Rightarrow> stream \<Rightarrow> bool" where
  "same_schedule now s s' \<longleftrightarrow>
     stream_time s now = stream_time s' now \<and> cliff_mode s = cliff_mode s' \<and>
     cliff_time s = cliff_time s' \<and> start_time s = start_time s' \<and> end_time s = end_time s' \<and>
     deposited s = deposited s' \<and> curve s = curve s'"

lemma same_schedule_vested:
  assumes "same_schedule now s s'"
  shows "vested s' now = vested s now" "vested_amount s' now = vested_amount s now"
    "vest_ok s' now = vest_ok s now" "duration s' = duration s"
proof -
  show v: "vested s' now = vested s now"
    using assms vested_cong [of s now s'] by (simp add: same_schedule_def)
  then show "vested_amount s' now = vested_amount s now" by (simp add: vested_amount_def)
  show d: "duration s' = duration s" using assms by (simp add: same_schedule_def duration_def)
  have "cliff_reached s' now = cliff_reached s now"
    using assms by (simp add: same_schedule_def cliff_reached_def split: cliff_mode.split)
  with assms d show "vest_ok s' now = vest_ok s now"
    by (simp add: same_schedule_def vest_ok_def matured_def)
qed

lemma same_schedule_steps:
  "pause_ok now s \<Longrightarrow> status s = Active \<Longrightarrow> same_schedule now s (paused_stream now s)"
  "pause_ok now s \<Longrightarrow> same_schedule now s (resumed_stream now s)"
  "pause_ok now s \<Longrightarrow> same_schedule now s (paid_stream now amount s)"
  "same_schedule now s (s\<lparr>recipient := a\<rparr>)"
proof -
  have upd: "stream_time (s\<lparr>status := st\<rparr>) now = stream_time s now"
    "stream_time (s\<lparr>withdrawn := wd\<rparr>) now = stream_time s now"
    "stream_time (s\<lparr>recipient := a\<rparr>) now = stream_time s now" for s :: stream and st wd a
    by (simp_all add: stream_time_def)
  have pk: "pause_ok now (s\<lparr>withdrawn := wd\<rparr>) = pause_ok now s" for s :: stream and wd
    by (simp add: pause_ok_def cong: option.case_cong)
  show "pause_ok now s \<Longrightarrow> status s = Active \<Longrightarrow> same_schedule now s (paused_stream now s)"
    by (auto simp: same_schedule_def paused_stream_def stream_time_def pause_ok_def split: option.splits)
  show "pause_ok now s \<Longrightarrow> same_schedule now s (resumed_stream now s)"
    by (simp add: same_schedule_def resumed_stream_def upd stream_time_settle_pause)
  show "pause_ok now s \<Longrightarrow> same_schedule now s (paid_stream now amount s)"
    using stream_time_settle_pause [of now "s\<lparr>withdrawn := withdrawn s + amount\<rparr>"]
    by (simp add: same_schedule_def paid_stream_def Let_def upd pk)
  show "same_schedule now s (s\<lparr>recipient := a\<rparr>)"
    by (simp add: same_schedule_def upd)
qed


lemma stream_time_unpaused:
  assumes "pause_ok now s"
  shows "stream_time s now \<le> stream_time (s\<lparr>paused_at := None\<rparr>) now"
  using assms by (auto simp: pause_ok_def word_le_def uint_stream_time split: option.splits)

text \<open>
  Cancelling settles the stream: at the same instant the rewritten schedule has vested
  exactly what the original had, and that is all it holds.
\<close>

lemma cancelled_stream_settled:
  assumes "wf_stream now s"
  shows "vest_ok (cancelled_stream now s) now"
    and "vested_amount (cancelled_stream now s) now = vested_amount s now"
proof -
  let ?c = "cancelled_stream now s"
  note wf = wf_streamD [OF assms]
  have bounds: "0 \<le> deposited ?c" "deposited ?c \<le> i128_max"
    and D: "deposited ?c = vested_amount s now"
    using wf(5,6,9) by (simp_all add: cancelled_stream_def)
  have "vest_ok ?c now \<and> vested_amount ?c now = deposited ?c"
  proof (cases "cliff_reached s now")
    case True
    have clock: "stream_time s now \<le> stream_time ?c now"
      using stream_time_unpaused [OF wf(4)] by (simp add: cancelled_stream_def stream_time_def)
    have "cliff_reached ?c now"
      using True clock by (auto simp: cliff_reached_def cancelled_stream_def split: cliff_mode.splits)
    moreover have "duration ?c = 0 \<or> end_time ?c \<le> stream_time ?c now"
    proof (cases "start_time s \<le> stream_time s now")
      case True
      then have "end_time ?c = stream_time s now" by (simp add: cancelled_stream_def max_def)
      with clock show ?thesis by simp
    next
      case False
      then have "end_time ?c = start_time ?c" by (auto simp: cancelled_stream_def max_def)
      then show ?thesis by (simp add: duration_def saturating_sub_u64_def)
    qed
    ultimately have "matured ?c now" by (simp add: matured_def)
    with bounds show ?thesis by (simp add: vest_ok_def vested_amount_def vested_matured)
  next
    case False
    then have zero: "deposited ?c = 0" by (simp add: D vested_amount_def vested_before_cliff)
    then have ok: "vest_ok ?c now" by (simp add: vest_ok_def i128_max_def)
    with zero show ?thesis using vested_total(2,3) [OF ok] by simp
  qed
  then show "vest_ok ?c now" "vested_amount ?c now = vested_amount s now" by (simp_all add: D)
qed

section \<open>Every step keeps the stream well formed\<close>

lemma wf_paused_stream:
  assumes "wf_stream now s" "status s = Active"
  shows "wf_stream now (paused_stream now s)"
proof -
  note wf = wf_streamD [OF assms(1)]
  note same = same_schedule_vested [OF same_schedule_steps(1) [OF wf(4) assms(2)]]
  have "pause_ok now (paused_stream now s)"
    using wf(4) assms(2) by (auto simp: pause_ok_def paused_stream_def split: option.splits)
  moreover have "live_ok (paused_stream now s)"
    using wf_live [OF assms(1)] assms(2) same(4) by (simp add: live_ok_def paused_stream_def)
  ultimately show ?thesis
    using assms(1) same by (simp add: wf_stream_def paused_stream_def)
qed

lemma wf_resumed_stream:
  assumes "wf_stream now s" "status s = Paused"
  shows "wf_stream now (resumed_stream now s)"
proof -
  note wf = wf_streamD [OF assms(1)]
  note same = same_schedule_vested [OF same_schedule_steps(2) [OF wf(4)]]
  have "pause_ok now (resumed_stream now s)"
    using settle_pause_total_le [OF wf(4)] by (simp add: pause_ok_def resumed_stream_def)
  moreover have "live_ok (resumed_stream now s)"
    using wf_live [OF assms(1)] assms(2) same(4) by (simp add: live_ok_def resumed_stream_def)
  ultimately show ?thesis
    using assms(1) same by (simp add: wf_stream_def resumed_stream_def)
qed

lemma wf_paid_stream:
  assumes "wf_stream now s" "0 < amount" "amount \<le> vested_amount s now - withdrawn s"
  shows "wf_stream now (paid_stream now amount s)"
proof -
  let ?p = "paid_stream now amount s"
  note wf = wf_streamD [OF assms(1)]
  note same = same_schedule_vested [OF same_schedule_steps(3) [OF wf(4), of amount]]
  have wd: "withdrawn ?p = withdrawn s + amount" "deposited ?p = deposited s"
    "sender ?p = sender s" "recipient ?p = recipient s"
    "start_time ?p = start_time s" "end_time ?p = end_time s" "cliff_time ?p = cliff_time s"
    by (simp_all add: paid_stream_def Let_def)
  have le: "withdrawn ?p \<le> vested_amount s now" using assms(3) by (simp add: wd)
  have live: "\<not> is_terminal (status s)" if "status ?p \<noteq> Cancelled"
    using that assms(2,3) wf(6) assms(1)
    by (auto simp: paid_stream_def Let_def is_terminal_iff wf_stream_def split: if_splits)
  have pause: "pause_ok now ?p"
  proof (cases "withdrawn s + amount \<ge> deposited s \<and> status s \<noteq> Cancelled")
    case True
    have "pause_ok now (s\<lparr>withdrawn := withdrawn s + amount\<rparr>)"
      using wf(4) by (simp add: pause_ok_def cong: option.case_cong)
    with True show ?thesis
      using settle_pause_total_le [of now "s\<lparr>withdrawn := withdrawn s + amount\<rparr>"]
      by (simp add: paid_stream_def pause_ok_def)
  next
    case False
    then have "?p = s\<lparr>withdrawn := withdrawn s + amount\<rparr>" by (auto simp: paid_stream_def Let_def)
    with wf(4) show ?thesis by (simp add: pause_ok_def cong: option.case_cong)
  qed
  have "live_ok ?p" if "\<not> is_terminal (status ?p)"
    using that live wf_live [OF assms(1)] same(4) wd
    by (auto simp: live_ok_def paid_stream_def Let_def split: if_splits)
  moreover have "deposited s = vested_amount s now" if "status ?p = Cancelled"
    using that assms(1) by (auto simp: paid_stream_def Let_def wf_stream_def split: if_splits)
  moreover have "withdrawn ?p = deposited s" if "status ?p = Depleted"
    using that le wf(6) live wd
    by (auto simp: paid_stream_def Let_def split: if_splits)
  ultimately show ?thesis
    using assms(1,2) wf(2) same le wd pause by (simp add: wf_stream_def)
qed

lemma wf_cancelled_stream:
  assumes "wf_stream now s"
  shows "wf_stream now (cancelled_stream now s)"
proof -
  let ?c = "cancelled_stream now s"
  note wf = wf_streamD [OF assms]
  note set = cancelled_stream_settled [OF assms]
  have "paused_total s \<le> now" using wf(4) by (auto simp: pause_ok_def split: option.splits)
  then have "pause_ok now ?c" by (simp add: pause_ok_def cancelled_stream_def)
  with assms set wf show ?thesis by (simp add: wf_stream_def) (simp add: cancelled_stream_def)
qed

lemma wf_grown_stream:
  assumes wf: "wf_stream now s" and live: "\<not> is_terminal (status s)" and "0 < amount"
    and s': "s' = grown_stream amount new_end s"
    and "end_time s \<le> new_end"
    and dom: "in_i128 (deposited s')" "in_i128 (deposited s' * uint (duration s'))"
    and rate: "uint (duration s') \<le> deposited s'"
    and mono: "vested_amount s now \<le> vested_amount s' now"
  shows "wf_stream now s'"
proof -
  note d = wf_streamD [OF wf]
  have st: "status s' = status s" "withdrawn s' = withdrawn s" "start_time s' = start_time s"
    "sender s' = sender s" "recipient s' = recipient s" "cliff_time s' = cliff_time s"
    "deposited s' = deposited s + amount"
    by (simp_all add: s' grown_stream_def)
  have pos: "0 \<le> deposited s'" "deposited s' * uint (duration s') \<le> i128_max" "deposited s' \<le> i128_max"
    using d(8) assms(3) dom by (simp_all add: st in_i128_def)
  then have ad: "accrual_domain (deposited s') (duration s')" by (simp add: accrual_domain_def)
  have ok: "vest_ok s' now" using pos by (simp add: vest_ok_def)
  have "start_time s < end_time s" "withdrawn s < deposited s"
    using wf_live [OF wf live] by (simp_all add: live_ok_def)
  then have "live_ok s'" using ad rate assms(3,5) by (simp add: live_ok_def s' grown_stream_def)
  moreover have "pause_ok now s'"
    using d(4) by (simp add: pause_ok_def s' grown_stream_def cong: option.case_cong)
  ultimately show ?thesis
    using wf live ok mono st by (auto simp: wf_stream_def is_terminal_iff)
qed

lemma wf_transferred_stream:
  assumes "wf_stream now s" "a \<noteq> sender s"
  shows "wf_stream now (s\<lparr>recipient := a\<rparr>)"
  using assms same_schedule_vested [OF same_schedule_steps(4) [of now s a]]
  by (simp add: wf_stream_def pause_ok_def live_ok_def cong: option.case_cong)

lemma stream_step_wf:
  assumes "stream_step now s s'" "wf_stream now s"
  shows "wf_stream now s'"
  using assms
proof (cases rule: stream_step.cases)
  case step_pause
  with assms(2) show ?thesis by (simp add: wf_paused_stream)
next
  case step_resume
  with assms(2) show ?thesis by (simp add: wf_resumed_stream)
next
  case (step_withdraw amount)
  with assms(2) show ?thesis by (simp add: wf_paid_stream)
next
  case step_cancel
  with assms(2) show ?thesis by (simp add: wf_cancelled_stream)
next
  case (step_top_up amount new_end)
  with assms(2) show ?thesis by (intro wf_grown_stream [of now s amount s' new_end]) auto
next
  case (step_transfer new_recipient)
  with assms(2) show ?thesis by (simp add: wf_transferred_stream)
qed


section \<open>Whole lives\<close>

text \<open>A life interleaves steps, each at its instant, with the passage of time.\<close>

inductive life_step :: "u64 \<times> stream \<Rightarrow> u64 \<times> stream \<Rightarrow> bool" where
  life_act: "stream_step now s s' \<Longrightarrow> life_step (now, s) (now, s')"
| life_tick: "now \<le> later \<Longrightarrow> life_step (now, s) (later, s)"

inductive_cases life_stepE: "life_step (now, s) (later, s')"

definition stream_life :: "u64 \<Rightarrow> stream \<Rightarrow> u64 \<Rightarrow> stream \<Rightarrow> bool" where
  "stream_life now s later s' \<longleftrightarrow> life_step\<^sup>*\<^sup>* (now, s) (later, s')"

text \<open>
  A relation between two moments of a life holds across any life when it is reflexive and
  transitive and holds across each step of a well-formed stream and across time.
\<close>

locale life_relation =
  fixes R :: "u64 \<Rightarrow> stream \<Rightarrow> u64 \<Rightarrow> stream \<Rightarrow> bool"
  assumes R_refl: "R now s now s"
    and R_trans: "R t s t' s' \<Longrightarrow> R t' s' t'' s'' \<Longrightarrow> R t s t'' s''"
    and R_step: "wf_stream now s \<Longrightarrow> stream_step now s s' \<Longrightarrow> R now s now s'"
    and R_tick: "wf_stream now s \<Longrightarrow> now \<le> later \<Longrightarrow> R now s later s"
begin

lemma life_holds:
  assumes "stream_life now s later s'" "wf_stream now s"
  shows "wf_stream later s' \<and> R now s later s'"
  using assms(1) unfolding stream_life_def
proof (induction "(later, s')" arbitrary: later s' rule: rtranclp_induct)
  case base
  with assms(2) R_refl show ?case by blast
next
  case (step b)
  obtain t r where b: "b = (t, r)" by (cases b)
  with step.hyps(3) have wf: "wf_stream t r" and R: "R now s t r" by simp_all
  consider (act) "t = later" "stream_step t r s'" | (tick) "r = s'" "t \<le> later"
    using step.hyps(2) b by (auto elim: life_stepE)
  then show ?case
  proof cases
    case act
    with wf R show ?thesis using stream_step_wf R_step [of t r s'] R_trans by blast
  next
    case tick
    with wf R show ?thesis using wf_stream_later R_tick [of t r later] R_trans by blast
  qed
qed

end

lemma stream_step_vested_mono:
  assumes "wf_stream now s" "stream_step now s s'"
  shows "vested_amount s now \<le> vested_amount s' now"
  using assms(2)
proof (cases rule: stream_step.cases)
  case step_pause
  then show ?thesis
    using same_schedule_vested(2) [OF same_schedule_steps(1)] wf_streamD(4) [OF assms(1)] by simp
next
  case step_resume
  then show ?thesis
    using same_schedule_vested(2) [OF same_schedule_steps(2)] wf_streamD(4) [OF assms(1)] by simp
next
  case (step_withdraw amount)
  then show ?thesis
    using same_schedule_vested(2) [OF same_schedule_steps(3)] wf_streamD(4) [OF assms(1)] by simp
next
  case step_cancel
  then show ?thesis using cancelled_stream_settled [OF assms(1)] by simp
next
  case (step_transfer new_recipient)
  then show ?thesis using same_schedule_vested(2) [OF same_schedule_steps(4)] by simp
qed

text \<open>What neither time nor any step changes.\<close>

definition same_terms :: "stream \<Rightarrow> stream \<Rightarrow> bool" where
  "same_terms s s' \<longleftrightarrow>
     sender s' = sender s \<and> token s' = token s \<and> start_time s' = start_time s \<and>
     cliff_time s' = cliff_time s \<and> cancellable s' = cancellable s \<and>
     pausable s' = pausable s \<and> transferable s' = transferable s \<and>
     cliff_mode s' = cliff_mode s \<and> curve s' = curve s \<and> reference s' = reference s \<and>
     (\<not> transferable s \<longrightarrow> recipient s' = recipient s)"

lemma paid_stream_fields [simp]:
  "sender (paid_stream now a s) = sender s" "recipient (paid_stream now a s) = recipient s"
  "token (paid_stream now a s) = token s" "deposited (paid_stream now a s) = deposited s"
  "withdrawn (paid_stream now a s) = withdrawn s + a"
  "start_time (paid_stream now a s) = start_time s" "end_time (paid_stream now a s) = end_time s"
  "cliff_time (paid_stream now a s) = cliff_time s" "cancellable (paid_stream now a s) = cancellable s"
  "pausable (paid_stream now a s) = pausable s" "transferable (paid_stream now a s) = transferable s"
  "cliff_mode (paid_stream now a s) = cliff_mode s" "curve (paid_stream now a s) = curve s"
  "reference (paid_stream now a s) = reference s"
  by (simp_all add: paid_stream_def Let_def)

lemmas step_stream_defs = paused_stream_def resumed_stream_def cancelled_stream_def grown_stream_def

lemma stream_step_same_terms: "stream_step now s s' \<Longrightarrow> same_terms s s'"
  by (cases rule: stream_step.cases) (auto simp: same_terms_def step_stream_defs)

text \<open>
  Entitlement: what the recipient has earned and what has been paid never fall, and a stream
  that cannot be cancelled never holds less than it did.
\<close>

definition entitlement_kept :: "u64 \<Rightarrow> stream \<Rightarrow> u64 \<Rightarrow> stream \<Rightarrow> bool" where
  "entitlement_kept now s later s' \<longleftrightarrow>
     now \<le> later \<and> same_terms s s' \<and> withdrawn s \<le> withdrawn s' \<and>
     vested_amount s now \<le> vested_amount s' later \<and>
     (\<not> cancellable s \<longrightarrow> deposited s \<le> deposited s')"

lemma stream_step_entitlement:
  assumes "wf_stream now s" "stream_step now s s'"
  shows "entitlement_kept now s now s'"
proof -
  have "withdrawn s \<le> withdrawn s' \<and> (\<not> cancellable s \<longrightarrow> deposited s \<le> deposited s')"
    using assms(2)
    by (cases rule: stream_step.cases)
      (auto simp: step_stream_defs)
  with assms show ?thesis
    by (simp add: entitlement_kept_def stream_step_same_terms stream_step_vested_mono)
qed

interpretation entitlement: life_relation entitlement_kept
proof
  show "entitlement_kept now s now s" for now s
    by (simp add: entitlement_kept_def same_terms_def)
  show "entitlement_kept t s t'' s''" if "entitlement_kept t s t' s'" "entitlement_kept t' s' t'' s''"
    for t s t' s' t'' s''
    using that by (auto simp: entitlement_kept_def same_terms_def)
  show "entitlement_kept now s later s" if "wf_stream now s" "now \<le> later" for now s later
    using that vested_amount_mono [OF wf_streamD(1)]
    by (simp add: entitlement_kept_def same_terms_def)
qed (rule stream_step_entitlement)

text \<open>
  Terminal states are sticky: a depleted stream never changes again, and a cancelled one
  only pays its tail or changes hands.
\<close>

definition terminal_sticky :: "u64 \<Rightarrow> stream \<Rightarrow> u64 \<Rightarrow> stream \<Rightarrow> bool" where
  "terminal_sticky now s later s' \<longleftrightarrow>
     (status s = Depleted \<longrightarrow> s' = s) \<and>
     (status s = Cancelled \<longrightarrow>
        (\<exists>amount a. s' = s\<lparr>withdrawn := amount, recipient := a\<rparr>))"

lemma settled_tail_refl: "\<exists>amount a. s = s\<lparr>withdrawn := amount, recipient := a\<rparr>" for s :: stream
  by (rule exI [of _ "withdrawn s"], rule exI [of _ "recipient s"]) simp

lemma stream_step_terminal:
  assumes "wf_stream now s" "stream_step now s s'"
  shows "terminal_sticky now s now s'"
proof -
  have full: "withdrawn s = vested_amount s now" if "status s = Depleted"
    using that wf_terminal_settled [OF assms(1)] assms(1) by (simp add: wf_stream_def)
  have "status s \<noteq> Depleted" if "is_terminal (status s)"
    using assms(2) that full by (cases rule: stream_step.cases) auto
  moreover have "\<exists>amount a. s' = s\<lparr>withdrawn := amount, recipient := a\<rparr>" if c: "status s = Cancelled"
    using assms(2)
  proof (cases rule: stream_step.cases)
    case (step_withdraw amount)
    with c have "s' = s\<lparr>withdrawn := withdrawn s + amount, recipient := recipient s\<rparr>"
      by (simp add: paid_stream_def)
    then show ?thesis by blast
  next
    case (step_transfer new_recipient)
    then have "s' = s\<lparr>withdrawn := withdrawn s, recipient := new_recipient\<rparr>" by simp
    then show ?thesis by blast
  qed (use c in auto)
  ultimately show ?thesis by (auto simp: terminal_sticky_def)
qed

interpretation sticky: life_relation terminal_sticky
proof
  show "terminal_sticky now s now s" for now s
    using settled_tail_refl [of s] by (simp add: terminal_sticky_def)
  show "terminal_sticky now s later s" if "wf_stream now s" "now \<le> later" for now s later
    using settled_tail_refl [of s] by (simp add: terminal_sticky_def)
  show "terminal_sticky t s t'' s''" if "terminal_sticky t s t' s'" "terminal_sticky t' s' t'' s''"
    for t s t' s' t'' s''
    using that by (auto simp: terminal_sticky_def; blast)
qed (rule stream_step_terminal)

end
