(* ===== verification/Ledger_Machine.thy ===== *)
theory Ledger_Machine
  imports Stream_Machine
begin

text \<open>
  The abstract ledger: all streams of a deployment, the pooled balance accounted for each
  token, and the id counter. A step opens a stream at the next id or lets one stream step,
  and moves the pooled balance of that stream's token by the change of its liability. The
  invariant says that every stream is well formed, that the ids issued are exactly those
  below the counter, and that each pooled balance fits an \<open>i128\<close> and is the sum of the
  liabilities of the streams on that token. The entry points of the contract are shown to refine this
  machine; it knows nothing of storage, tokens, authorization or events.
\<close>

record ledger =
  l_streams :: "u64 \<rightharpoonup> stream"
  l_pool :: "address \<Rightarrow> int"
  l_next :: u64

definition owed_by :: "stream \<Rightarrow> int" where
  "owed_by s = deposited s - withdrawn s"

definition owed_on :: "address \<Rightarrow> stream option \<Rightarrow> int" where
  "owed_on tkn so = (case so of None \<Rightarrow> 0 | Some s \<Rightarrow> if token s = tkn then owed_by s else 0)"

text \<open>The total owed on a token, over the finitely many ids.\<close>

definition owed :: "(u64 \<rightharpoonup> stream) \<Rightarrow> address \<Rightarrow> int" where
  "owed S tkn = (\<Sum>i\<in>UNIV. owed_on tkn (S i))"

text \<open>A stream as creation validates it.\<close>

definition opened :: "stream \<Rightarrow> bool" where
  "opened s \<longleftrightarrow>
     sender s \<noteq> recipient s \<and> 0 < deposited s \<and> start_time s < end_time s \<and>
     start_time s \<le> cliff_time s \<and> cliff_time s \<le> end_time s \<and>
     uint (end_time s - start_time s) \<le> deposited s \<and>
     in_i128 (deposited s * uint (end_time s - start_time s)) \<and>
     withdrawn s = 0 \<and> paused_at s = None \<and> paused_total s = 0 \<and> status s = Active"

inductive ledger_step :: "u64 \<Rightarrow> ledger \<Rightarrow> ledger \<Rightarrow> bool" for now :: u64 where
  ledger_open:
    "opened s \<Longrightarrow> uint (l_next L) < u64_max \<Longrightarrow>
     in_i128 (l_pool L (token s) + deposited s) \<Longrightarrow>
     ledger_step now L (L\<lparr>
       l_streams := (l_streams L)(l_next L \<mapsto> s),
       l_pool := (l_pool L)(token s := l_pool L (token s) + deposited s),
       l_next := l_next L + 1\<rparr>)"
| ledger_act:
    "l_streams L i = Some s \<Longrightarrow> stream_step now s s' \<Longrightarrow>
     in_i128 (l_pool L (token s) + (owed_by s' - owed_by s)) \<Longrightarrow>
     ledger_step now L (L\<lparr>
       l_streams := (l_streams L)(i \<mapsto> s'),
       l_pool := (l_pool L)(token s := l_pool L (token s) + (owed_by s' - owed_by s))\<rparr>)"

definition ledger_inv :: "u64 \<Rightarrow> ledger \<Rightarrow> bool" where
  "ledger_inv now L \<longleftrightarrow>
     (\<forall>i s. l_streams L i = Some s \<longrightarrow> wf_stream now s) \<and>
     (\<forall>i. l_streams L i = None \<longleftrightarrow> l_next L \<le> i) \<and>
     (\<forall>tkn. l_pool L tkn = owed (l_streams L) tkn \<and> l_pool L tkn \<le> i128_max)"

lemma ledger_invD:
  assumes "ledger_inv now L"
  shows "l_streams L i = Some s \<Longrightarrow> wf_stream now s"
    and "l_streams L i = None \<longleftrightarrow> l_next L \<le> i"
    and "l_pool L tkn = owed (l_streams L) tkn" and "l_pool L tkn \<le> i128_max"
  using assms unfolding ledger_inv_def by blast+

section \<open>The sum over streams\<close>

lemma owed_update: "owed (S(i \<mapsto> s)) tkn = owed S tkn - owed_on tkn (S i) + owed_on tkn (Some s)"
proof -
  have "owed T tkn = owed_on tkn (T i) + (\<Sum>j\<in>UNIV - {i}. owed_on tkn (T j))" for T
    unfolding owed_def by (rule sum.remove) simp_all
  from this [of S] this [of "S(i \<mapsto> s)"] show ?thesis by simp
qed

lemma owed_empty [simp]: "owed Map.empty tkn = 0"
  by (simp add: owed_def owed_on_def)

lemma owed_by_nonneg: "wf_stream now s \<Longrightarrow> 0 \<le> owed_by s"
  using wf_streamD(7) [of now s] by (simp add: owed_by_def)

lemma owed_on_nonneg: "(\<And>s. so = Some s \<Longrightarrow> wf_stream now s) \<Longrightarrow> 0 \<le> owed_on tkn so"
  using owed_by_nonneg by (auto simp: owed_on_def split: option.split)

text \<open>Where no stream of a token owes less than nothing, each liability is covered by the pool.\<close>

lemma owed_covers:
  assumes "\<And>j. 0 \<le> owed_on tkn (S j)"
  shows "0 \<le> owed S tkn" "S i = Some s \<Longrightarrow> token s = tkn \<Longrightarrow> owed_by s \<le> owed S tkn"
proof -
  show "0 \<le> owed S tkn" unfolding owed_def using assms by (rule sum_nonneg)
  have "owed_on tkn (S i) \<le> owed S tkn" unfolding owed_def by (rule member_le_sum) (use assms in auto)
  then show "S i = Some s \<Longrightarrow> token s = tkn \<Longrightarrow> owed_by s \<le> owed S tkn" by (simp add: owed_on_def)
qed

section \<open>The invariant\<close>

lemma opened_wf:
  assumes "opened s"
  shows "wf_stream now s"
proof -
  have o: "0 < deposited s" "start_time s < end_time s" "withdrawn s = 0" "status s = Active"
    using assms by (auto simp: opened_def)
  have d: "duration s = end_time s - start_time s"
    using o(2) by (auto simp: duration_def saturating_sub_u64_def)
  have "uint (end_time s - start_time s) = uint (end_time s) - uint (start_time s)"
    using o(2) by (intro uint_diff_u64) simp
  then have pos: "1 \<le> uint (duration s)" using o(2) by (simp add: d word_less_def)
  have m: "deposited s * uint (duration s) \<le> i128_max"
    using assms by (simp add: opened_def d in_i128_def)
  moreover have "deposited s * 1 \<le> deposited s * uint (duration s)"
    using pos o(1) by (intro mult_left_mono) auto
  ultimately have "deposited s \<le> i128_max" by linarith
  with m have dom: "accrual_domain (deposited s) (duration s)"
    using o(1) by (simp add: accrual_domain_def)
  then have ok: "vest_ok s now" by (simp add: vest_ok_def accrual_domain_def)
  have "live_ok s" using assms dom by (simp add: live_ok_def d opened_def)
  moreover have "pause_ok now s" using assms by (simp add: pause_ok_def opened_def)
  ultimately show ?thesis
    using assms ok vested_total(2) [OF ok] by (simp add: wf_stream_def opened_def)
qed

lemma ledger_step_inv:
  assumes "ledger_step now L L'" "ledger_inv now L"
  shows "ledger_inv now L'"
  using assms(1)
proof (cases rule: ledger_step.cases)
  case (ledger_open s)
  note inv = ledger_invD [OF assms(2)]
  let ?S = "(l_streams L)(l_next L \<mapsto> s)"
  have nx: "uint (l_next L + 1) = uint (l_next L) + 1"
    using ledger_open(3) uint_add_u64 [of "l_next L" 1] by simp
  have "?S i = None \<longleftrightarrow> l_next L + 1 \<le> i" for i
    using inv(2) [of i] by (auto simp: word_le_def nx word_uint_eq_iff)
  moreover have "l_pool L' tkn = owed ?S tkn \<and> l_pool L' tkn \<le> i128_max" for tkn
    using inv(2) [of "l_next L"] inv(3,4) ledger_open
    by (simp add: in_i128_def) (simp add: owed_update owed_on_def owed_by_def opened_def)
  moreover have "wf_stream now r" if "?S i = Some r" for i r
    using that inv(1) opened_wf [OF ledger_open(2)] by (auto split: if_splits)
  moreover have "l_streams L' = ?S" "l_next L' = l_next L + 1" using ledger_open(1) by simp_all
  ultimately show ?thesis unfolding ledger_inv_def by metis
next
  case (ledger_act i s s')
  note inv = ledger_invD [OF assms(2)]
  let ?S = "(l_streams L)(i \<mapsto> s')"
  have wf: "wf_stream now s" using ledger_act(2) by (rule inv(1))
  have tok: "token s' = token s"
    using stream_step_same_terms [OF ledger_act(3)] by (simp add: same_terms_def)
  have "?S j = None \<longleftrightarrow> l_next L \<le> j" for j
    using inv(2) [of j] ledger_act(2) inv(2) [of i] by auto
  moreover have "l_pool L' tkn = owed ?S tkn \<and> l_pool L' tkn \<le> i128_max" for tkn
    using inv(3,4) ledger_act(1,2,4) tok by (simp add: in_i128_def) (simp add: owed_update owed_on_def)
  moreover have "wf_stream now r" if "?S j = Some r" for j r
    using that inv(1) stream_step_wf [OF ledger_act(3) wf] by (auto split: if_splits)
  moreover have "l_streams L' = ?S" "l_next L' = l_next L" using ledger_act(1) by simp_all
  ultimately show ?thesis unfolding ledger_inv_def by metis
qed

lemma ledger_steps_inv:
  "(ledger_step now)\<^sup>*\<^sup>* L L' \<Longrightarrow> ledger_inv now L \<Longrightarrow> ledger_inv now L'"
  by (induction rule: rtranclp_induct) (simp_all add: ledger_step_inv)

lemma ledger_inv_later: "ledger_inv now L \<Longrightarrow> now \<le> later \<Longrightarrow> ledger_inv later L"
  unfolding ledger_inv_def using wf_stream_later by blast

section \<open>Every stream of the ledger lives a life\<close>

lemma ledger_step_life:
  assumes "ledger_step now L L'" "ledger_inv now L" "l_streams L i = Some s"
  shows "\<exists>s'. l_streams L' i = Some s' \<and> stream_life now s now s'"
  using assms(1)
proof (cases rule: ledger_step.cases)
  case (ledger_open r)
  have "i \<noteq> l_next L" using assms(2,3) ledger_invD(2) [OF assms(2), of i] by auto
  with ledger_open assms(3) show ?thesis by (simp add: stream_life_def)
next
  case (ledger_act j r r')
  then show ?thesis
    using assms(3) life_act [of now r r'] by (cases "j = i") (auto simp: stream_life_def)
qed

lemma stream_life_trans:
  "stream_life t s t' s' \<Longrightarrow> stream_life t' s' t'' s'' \<Longrightarrow> stream_life t s t'' s''"
  unfolding stream_life_def by (rule rtranclp_trans)

lemma stream_life_tick: "t \<le> t' \<Longrightarrow> stream_life t s t' s"
  by (auto simp: stream_life_def intro: life_tick)

lemma ledger_steps_life:
  assumes "(ledger_step now)\<^sup>*\<^sup>* L L'" "ledger_inv now L" "l_streams L i = Some s"
  shows "\<exists>s'. l_streams L' i = Some s' \<and> stream_life now s now s'"
  using assms(1)
proof (induction rule: rtranclp_induct)
  case base
  with assms(3) show ?case by (simp add: stream_life_def)
next
  case (step M N)
  then obtain r where r: "l_streams M i = Some r" "stream_life now s now r" by blast
  have "ledger_inv now M" using step.hyps(1) assms(2) by (rule ledger_steps_inv)
  with ledger_step_life [OF step.hyps(2)] r show ?case
    by (meson stream_life_trans)
qed

end
