(* ===== verification/Pool.thy ===== *)
theory Pool
  imports Storage Ledger_Machine
begin

text \<open>
  Token movements of \<^verbatim>\<open>contracts/stream/src/lib.rs\<close>: \<open>token_transfer\<close>, \<open>pull_deposit\<close> and
  \<open>verify_pool_balance\<close>, over a token that is a parameter. \<open>ledger_of\<close> abstracts a world to
  the ledger machine; the lemmas give what each building block does to it, to the events
  and to the halt, for the component theories to compose.

  The predicate \<open>honest_token\<close> states what a well-behaved token promises about the balances
  the contract reads. It is a condition on the parameter, not on the code, and it is only used
  where a property speaks of real balances; \<open>book_token\<close> is a token that meets it.
\<close>

section \<open>The code\<close>

definition token_transfer ::
    "'t token_iface \<Rightarrow> address \<Rightarrow> address \<Rightarrow> address \<Rightarrow> int \<Rightarrow> 't world \<Rightarrow> 't world result" where
  "token_transfer tk tkn from_addr to_addr amount w =
     (case try_transfer tk (token_state w) tkn from_addr to_addr amount of
        (outcome, ts) \<Rightarrow>
          (case outcome of
             TryOk \<Rightarrow> Inr (w\<lparr>token_state := ts\<rparr>)
           | TryContractError \<Rightarrow> Inl (Err TokenTransferFailed)
           | TryConversionError \<Rightarrow> Inl (Err TokenTransferFailed)
           | TryTypedError \<Rightarrow> Inl (Err TokenTransferFailed)
           | TryAbort \<Rightarrow> Inl (Err TokenMissing)))"

text \<open>A \<open>balance\<close> call that traps takes the invocation with it.\<close>

definition balance_of :: "'t token_iface \<Rightarrow> address \<Rightarrow> address \<Rightarrow> 't world \<Rightarrow> int result" where
  "balance_of tk tkn holder w = ok_or Trap (token_balance tk (token_state w) tkn holder)"

definition pull_deposit ::
    "'t token_iface \<Rightarrow> env \<Rightarrow> address \<Rightarrow> address \<Rightarrow> int \<Rightarrow> 't world \<Rightarrow> 't world result" where
  "pull_deposit tk e tkn from_addr amount w =
     and_then (balance_of tk tkn (contract_address e) w) (\<lambda>before.
     and_then (token_transfer tk tkn from_addr (contract_address e) amount w) (\<lambda>w1.
     and_then (balance_of tk tkn (contract_address e) w1) (\<lambda>after.
     and_then (ok_or (Err Overflow) (checked_sub_i128 after before)) (\<lambda>received.
     if received \<noteq> amount then Inl (Err TokenAmountMismatch)
     else credit_pool e tkn amount w1))))"

definition verify_pool_balance :: "'t token_iface \<Rightarrow> env \<Rightarrow> address \<Rightarrow> 't world \<Rightarrow> unit result" where
  "verify_pool_balance tk e tkn w =
     (let expected = pooled_balance w tkn in
      and_then (balance_of tk tkn (contract_address e) w) (\<lambda>actual.
      if actual < expected then Inl (Err PoolBalanceDrift) else Inr ()))"

definition require_not_halted :: "'t world \<Rightarrow> unit result" where
  "require_not_halted w = (if is_halted w then Inl (Err ContractHalted) else Inr ())"

lemma require_not_halted_Inr [simp]: "require_not_halted w = Inr u \<longleftrightarrow> \<not> is_halted w"
  by (simp add: require_not_halted_def)

section \<open>The abstract ledger of a world\<close>

definition ledger_of :: "'t world \<Rightarrow> ledger" where
  "ledger_of w = \<lparr>l_streams = lookup_stream w, l_pool = pooled_balance w, l_next = next_id w\<rparr>"

lemma ledger_of_simps [simp]:
  "l_streams (ledger_of w) = lookup_stream w"
  "l_pool (ledger_of w) = pooled_balance w"
  "l_next (ledger_of w) = next_id w"
  by (simp_all add: ledger_of_def)

text \<open>
  The part of a world that a settlement of streams must not touch: grants, halt operator and
  halt; and the counters' agreement.
\<close>

definition control_of :: "'t world \<Rightarrow> (u64 \<times> address \<rightharpoonup> delegate_grant) \<times> address option \<times> u64 option" where
  "control_of w = (delegate_entries w, halt_operator_entry w, halted_at_entry w)"

definition counters_agree :: "'t world \<Rightarrow> bool" where
  "counters_agree w \<longleftrightarrow> stream_count w = next_id w"

lemma view_ledger:
  assumes "view w' = view w"
  shows "ledger_of w' = ledger_of w" "control_of w' = control_of w" "counters_agree w' = counters_agree w"
    "token_state w' = token_state w" "lookup_stream w' = lookup_stream w"
  using view_eqD [OF assms] by (simp_all add: ledger_of_def control_of_def counters_agree_def)

lemma rent_ledger [simp]:
  "ledger_of (publish ev w) = ledger_of w" "control_of (publish ev w) = control_of w"
  "ledger_of (extend_instance e w) = ledger_of w" "control_of (extend_instance e w) = control_of w"
  "ledger_of (extend_stream e i s w) = ledger_of w" "control_of (extend_stream e i s w) = control_of w"
  "ledger_of (extend_entry e k t w) = ledger_of w" "control_of (extend_entry e k t w) = control_of w"
  "counters_agree (publish ev w) = counters_agree w"
  "counters_agree (extend_instance e w) = counters_agree w"
  "counters_agree (extend_stream e i s w) = counters_agree w"
  "is_halted (extend_stream e i s w) = is_halted w"
  by (rule view_ledger; simp)+ (simp add: is_halted_def)

lemma ledger_save_stream:
  assumes "save_stream e i s w = Inr w'" "lookup_stream w i \<noteq> None"
  shows "ledger_of w' = (ledger_of w)\<lparr>l_streams := (lookup_stream w)(i \<mapsto> s)\<rparr>"
    "control_of w' = control_of w" "counters_agree w' = counters_agree w"
    "events w' = events w" "token_state w' = token_state w" "lookup_stream w' = (lookup_stream w)(i \<mapsto> s)"
    "pooled_balance w' = pooled_balance w"
  using save_stream_fields [OF assms]
  by (simp_all add: ledger_of_def control_of_def counters_agree_def)

lemma ledger_credit_pool:
  assumes "credit_pool e tkn amount w = Inr w'"
  shows "ledger_of w' = (ledger_of w)\<lparr>l_pool := (pooled_balance w)(tkn := pooled_balance w tkn + amount)\<rparr>"
    "control_of w' = control_of w" "counters_agree w' = counters_agree w"
    "events w' = events w" "token_state w' = token_state w" "lookup_stream w' = lookup_stream w"
    "pooled_balance w' = (pooled_balance w)(tkn := pooled_balance w tkn + amount)"
    "next_id w' = next_id w"
  using credit_pool_view [OF assms] by (simp_all add: view_def ledger_of_def control_of_def counters_agree_def)

lemma ledger_debit_pool:
  assumes "debit_pool e tkn amount w = Inr w'"
  shows "ledger_of w' = (ledger_of w)\<lparr>l_pool := (pooled_balance w)(tkn := pooled_balance w tkn - amount)\<rparr>"
    "control_of w' = control_of w" "counters_agree w' = counters_agree w"
    "events w' = events w" "token_state w' = token_state w" "lookup_stream w' = lookup_stream w"
    "pooled_balance w' = (pooled_balance w)(tkn := pooled_balance w tkn - amount)"
  using debit_pool_view [OF assms] by (simp_all add: view_def ledger_of_def control_of_def counters_agree_def)

section \<open>What token movements do\<close>

lemma view_token_state: "view (w\<lparr>token_state := ts\<rparr>) = (view w)\<lparr>v_tokens := ts\<rparr>"
  by (simp add: view_defs fun_eq_iff cong: option.case_cong)

lemma token_transfer_Inr:
  "token_transfer tk tkn a b amount w = Inr w' \<longleftrightarrow>
     (\<exists>ts. try_transfer tk (token_state w) tkn a b amount = (TryOk, ts) \<and> w' = w\<lparr>token_state := ts\<rparr>)"
  by (auto simp: token_transfer_def split: prod.splits try_outcome.splits)

lemma token_transfer_fields:
  assumes "token_transfer tk tkn a b amount w = Inr w'"
  shows "ledger_of w' = ledger_of w" "control_of w' = control_of w"
    "counters_agree w' = counters_agree w" "events w' = events w"
    "lookup_stream w' = lookup_stream w" "pooled_balance w' = pooled_balance w"
    "next_id w' = next_id w"
proof -
  obtain ts where w': "w' = w\<lparr>token_state := ts\<rparr>" using assms by (auto simp: token_transfer_Inr)
  then have "view w' = (view w)\<lparr>v_tokens := ts\<rparr>" by (simp add: view_token_state)
  then show "ledger_of w' = ledger_of w" "control_of w' = control_of w"
    "counters_agree w' = counters_agree w" "events w' = events w"
    "lookup_stream w' = lookup_stream w" "pooled_balance w' = pooled_balance w"
    "next_id w' = next_id w"
    using w' by (simp_all add: view_def ledger_of_def control_of_def counters_agree_def)
qed

text \<open>
  Every failure of a transfer is one of the contract's two errors: the token's own
  discriminant never crosses.
\<close>

lemma token_transfer_error:
  "token_transfer tk tkn a b amount w = Inl f \<Longrightarrow> f = Err TokenTransferFailed \<or> f = Err TokenMissing"
  by (auto simp: token_transfer_def split: prod.splits try_outcome.splits)

text \<open>A pull that succeeds moved exactly the amount into the pool, whatever the token does.\<close>

lemma pull_deposit_Inr:
  assumes "pull_deposit tk e tkn a amount w = Inr w'"
  obtains ts before where
    "token_balance tk (token_state w) tkn (contract_address e) = Some before"
    "try_transfer tk (token_state w) tkn a (contract_address e) amount = (TryOk, ts)"
    "token_balance tk ts tkn (contract_address e) = Some (before + amount)"
    "credit_pool e tkn amount (w\<lparr>token_state := ts\<rparr>) = Inr w'"
  using assms by (auto simp: pull_deposit_def balance_of_def token_transfer_Inr)

lemma pull_deposit_fields:
  assumes "pull_deposit tk e tkn a amount w = Inr w'"
  shows "ledger_of w' = (ledger_of w)\<lparr>l_pool := (pooled_balance w)(tkn := pooled_balance w tkn + amount)\<rparr>"
    "control_of w' = control_of w" "counters_agree w' = counters_agree w" "events w' = events w"
    "lookup_stream w' = lookup_stream w"
    "pooled_balance w' = (pooled_balance w)(tkn := pooled_balance w tkn + amount)"
    "next_id w' = next_id w"
proof -
  obtain ts where ts: "token_transfer tk tkn a (contract_address e) amount w = Inr (w\<lparr>token_state := ts\<rparr>)"
    and c: "credit_pool e tkn amount (w\<lparr>token_state := ts\<rparr>) = Inr w'"
    using assms by (auto elim!: pull_deposit_Inr simp: token_transfer_Inr)
  note t = token_transfer_fields [OF ts]
  show "ledger_of w' = (ledger_of w)\<lparr>l_pool := (pooled_balance w)(tkn := pooled_balance w tkn + amount)\<rparr>"
    "control_of w' = control_of w" "counters_agree w' = counters_agree w" "events w' = events w"
    "lookup_stream w' = lookup_stream w"
    "pooled_balance w' = (pooled_balance w)(tkn := pooled_balance w tkn + amount)"
    "next_id w' = next_id w"
    using ledger_credit_pool [OF c] t by simp_all
qed

lemma verify_pool_balance_Inr [simp]:
  "verify_pool_balance tk e tkn w = Inr u \<longleftrightarrow>
     (\<exists>actual. token_balance tk (token_state w) tkn (contract_address e) = Some actual \<and>
        pooled_balance w tkn \<le> actual)"
  by (auto simp: verify_pool_balance_def balance_of_def Let_def)

section \<open>Well-behaved tokens\<close>

text \<open>
  What a property about real balances assumes of the tokens (\<^verbatim>\<open>docs/ABI.md\<close>, token
  assumptions): a successful transfer between two accounts debits the one and credits the
  other by the amount, leaves other accounts and other tokens alone, and \<open>balance\<close> answers.
\<close>

definition honest_token :: "'t token_iface \<Rightarrow> bool" where
  "honest_token tk \<longleftrightarrow>
     (\<forall>ts tkn a. token_balance tk ts tkn a \<noteq> None) \<and>
     (\<forall>ts tkn a b amount ts' tkn' c. try_transfer tk ts tkn a b amount = (TryOk, ts') \<longrightarrow>
        token_balance tk ts' tkn' c =
          (if tkn' = tkn
           then map_option (\<lambda>x. x - (if c = a then amount else 0) + (if c = b then amount else 0))
                  (token_balance tk ts tkn c)
           else token_balance tk ts tkn' c))"

definition held :: "'t token_iface \<Rightarrow> 't \<Rightarrow> address \<Rightarrow> address \<Rightarrow> int" where
  "held tk ts tkn a = (case token_balance tk ts tkn a of Some x \<Rightarrow> x | None \<Rightarrow> 0)"

lemma honest_balance: "honest_token tk \<Longrightarrow> token_balance tk ts tkn a = Some (held tk ts tkn a)"
  unfolding honest_token_def held_def by (metis option.case_eq_if option.collapse)

lemma honest_transfer:
  assumes "honest_token tk" "try_transfer tk ts tkn a b amount = (TryOk, ts')"
  shows "held tk ts' tkn' c =
    (if tkn' = tkn
     then held tk ts tkn c - (if c = a then amount else 0) + (if c = b then amount else 0)
     else held tk ts tkn' c)"
proof -
  note h = honest_balance [OF assms(1)]
  have "token_balance tk ts' tkn' c =
    (if tkn' = tkn
     then map_option (\<lambda>x. x - (if c = a then amount else 0) + (if c = b then amount else 0))
            (token_balance tk ts tkn c)
     else token_balance tk ts tkn' c)"
    using assms unfolding honest_token_def by blast
  then show ?thesis by (cases "tkn' = tkn") (simp_all only: h simp_thms if_True if_False option.map option.inject)
qed

text \<open>A book-keeping token: balances are a function, an overdraft is a contract error.\<close>

definition book_token :: "(address \<Rightarrow> address \<Rightarrow> int) token_iface" where
  "book_token = \<lparr>
     try_transfer = (\<lambda>bal tkn a b amount.
       if amount < 0 \<or> bal tkn a < amount then (TryContractError, bal)
       else
         let debited = bal(tkn := (bal tkn)(a := bal tkn a - amount)) in
         (TryOk, debited(tkn := (debited tkn)(b := debited tkn b + amount)))),
     token_balance = (\<lambda>bal tkn a. Some (bal tkn a)) \<rparr>"

lemma book_token_honest: "honest_token book_token"
  unfolding honest_token_def by (auto simp: book_token_def Let_def split: if_splits)

end
