(* ===== verification/Overdraft.thy ===== *)
theory Overdraft
  imports Ledger_Machine
begin

text \<open>
  Streams under every call the contract accepts. A delegated top-up of a stream whose curve is not
  linear may lower what the stream has vested, even below what it has paid out: such a stream is
  overdrawn. Everything else about it stays in order, which \<open>sound\<close> states: it is well formed once
  its payments are left out of account. A free step is a step of the stream machine on a
  well-formed stream, or any change of a live stream on a step or front-loaded curve that leaves it
  sound. A ledger shift is a ledger step made of free steps.
\<close>

section \<open>Sound streams\<close>

definition unpaid :: "stream \<Rightarrow> stream" where
  "unpaid s = s\<lparr>withdrawn := 0\<rparr>"

lemma unpaid_simps [simp]:
  "withdrawn (unpaid s) = 0" "deposited (unpaid s) = deposited s" "status (unpaid s) = status s"
  "curve (unpaid s) = curve s" "token (unpaid s) = token s" "sender (unpaid s) = sender s"
  "recipient (unpaid s) = recipient s" "start_time (unpaid s) = start_time s"
  "end_time (unpaid s) = end_time s" "cliff_time (unpaid s) = cliff_time s"
  "cancellable (unpaid s) = cancellable s" "pausable (unpaid s) = pausable s"
  "transferable (unpaid s) = transferable s" "paused_at (unpaid s) = paused_at s"
  "paused_total (unpaid s) = paused_total s" "duration (unpaid s) = duration s"
  "stream_time (unpaid s) now = stream_time s now" "cliff_reached (unpaid s) now = cliff_reached s now"
  by (simp_all add: unpaid_def duration_def stream_time_def cliff_reached_def cong: cliff_mode.case_cong)

lemma unpaid_vested [simp]:
  "vested (unpaid s) now = vested s now" "vested_amount (unpaid s) now = vested_amount s now"
  "vest_ok (unpaid s) now = vest_ok s now" "pause_ok now (unpaid s) = pause_ok now s"
proof -
  have "same_schedule now s (unpaid s)" by (simp add: same_schedule_def) (simp add: unpaid_def)
  note v = same_schedule_vested [OF this]
  show "vested (unpaid s) now = vested s now" "vested_amount (unpaid s) now = vested_amount s now"
    "vest_ok (unpaid s) now = vest_ok s now" using v by simp_all
  show "pause_ok now (unpaid s) = pause_ok now s" by (simp add: pause_ok_def cong: option.case_cong)
qed

text \<open>The steps of the stream machine other than a payment do not look at the payments.\<close>

lemma unpaid_steps:
  "unpaid (paused_stream now s) = paused_stream now (unpaid s)"
  "unpaid (resumed_stream now s) = resumed_stream now (unpaid s)"
  "unpaid (cancelled_stream now s) = cancelled_stream now (unpaid s)"
  "unpaid (grown_stream amount new_end s) = grown_stream amount new_end (unpaid s)"
  "unpaid (s\<lparr>recipient := a\<rparr>) = (unpaid s)\<lparr>recipient := a\<rparr>"
  by (simp_all add: step_stream_defs settle_pause_def split: option.split) (simp_all add: unpaid_def)

definition sound :: "u64 \<Rightarrow> stream \<Rightarrow> bool" where
  "sound now s \<longleftrightarrow> wf_stream now s \<or>
     (curve s \<noteq> Linear \<and> status s \<noteq> Depleted \<and> wf_stream now (unpaid s) \<and>
      0 \<le> withdrawn s \<and> withdrawn s \<le> i128_max \<and>
      (\<not> is_terminal (status s) \<longrightarrow> withdrawn s < deposited s))"

lemma wf_sound: "wf_stream now s \<Longrightarrow> sound now s"
  by (simp add: sound_def)

lemma sound_linear: "curve s = Linear \<Longrightarrow> sound now s = wf_stream now s"
  by (simp add: sound_def)

lemma sound_unpaid:
  assumes "sound now s" "\<not> is_terminal (status s)"
  shows "wf_stream now (unpaid s)" "withdrawn s < deposited s"
proof -
  have "wf_stream now (unpaid s) \<and> withdrawn s < deposited s" if wf: "wf_stream now s"
    using wf wf_live [OF wf assms(2)] wf_streamD(2,3,7) [OF wf] assms(2)
    by (auto simp: wf_stream_def live_ok_def is_terminal_iff)
  with assms show "wf_stream now (unpaid s)" "withdrawn s < deposited s" by (auto simp: sound_def)
qed

lemma soundD:
  assumes "sound now s"
  shows "vest_ok s now" "0 \<le> withdrawn s" "withdrawn s \<le> i128_max" "pause_ok now s"
    "0 \<le> vested_amount s now" "vested_amount s now \<le> deposited s" "deposited s \<le> i128_max"
    "vested s now = Inr (vested_amount s now)" "sender s \<noteq> recipient s"
    "is_terminal (status s) \<Longrightarrow> vested_amount s now = deposited s"
    "status s = Depleted \<Longrightarrow> wf_stream now s"
proof -
  consider (wf) "wf_stream now s" | (over) "wf_stream now (unpaid s)" "status s \<noteq> Depleted"
      "0 \<le> withdrawn s" "withdrawn s \<le> i128_max"
    using assms by (auto simp: sound_def)
  then have "vest_ok s now \<and> 0 \<le> withdrawn s \<and> withdrawn s \<le> i128_max \<and> pause_ok now s \<and>
      0 \<le> vested_amount s now \<and> vested_amount s now \<le> deposited s \<and> deposited s \<le> i128_max \<and>
      vested s now = Inr (vested_amount s now) \<and> sender s \<noteq> recipient s \<and>
      (is_terminal (status s) \<longrightarrow> vested_amount s now = deposited s) \<and>
      (status s = Depleted \<longrightarrow> wf_stream now s)"
  proof cases
    case wf
    then show ?thesis using wf_streamD [OF wf] wf_terminal_settled [OF wf] by simp
  next
    case over
    then show ?thesis using wf_streamD [OF over(1)] wf_terminal_settled [OF over(1)] by simp
  qed
  then show "vest_ok s now" "0 \<le> withdrawn s" "withdrawn s \<le> i128_max" "pause_ok now s"
    "0 \<le> vested_amount s now" "vested_amount s now \<le> deposited s" "deposited s \<le> i128_max"
    "vested s now = Inr (vested_amount s now)" "sender s \<noteq> recipient s"
    "is_terminal (status s) \<Longrightarrow> vested_amount s now = deposited s"
    "status s = Depleted \<Longrightarrow> wf_stream now s"
    by blast+
qed

text \<open>The only thing an overdrawn stream lacks is a vested amount that covers its payments.\<close>

lemma sound_covered:
  assumes "sound now s" "withdrawn s \<le> vested_amount s now"
  shows "wf_stream now s"
  using assms by (auto simp: sound_def wf_stream_def live_ok_def)

lemma sound_later:
  assumes "sound now s" "now \<le> later"
  shows "sound later s"
  using assms wf_stream_later [OF _ assms(2)] by (auto simp: sound_def)

text \<open>So every reading of a sound stream answers; an overdrawn stream has nothing to withdraw.\<close>

lemma sound_readings:
  assumes "sound now s"
  shows "withdrawable s now = Inr (max 0 (vested_amount s now - withdrawn s))"
    "refundable s now = Inr (deposited s - vested_amount s now)"
    "liability s = Inr (deposited s - withdrawn s)"
proof -
  note d = soundD [OF assms]
  show "withdrawable s now = Inr (max 0 (vested_amount s now - withdrawn s))"
    by (rule withdrawable_eq [OF d(1-3)])
  show "refundable s now = Inr (deposited s - vested_amount s now)"
    by (rule refundable_eq [OF d(1)])
  show "liability s = Inr (deposited s - withdrawn s)"
    using d(2,3,5,6,7)
    by (simp add: liability_def checked_sub_i128_def in_i128_def i128_min_def i128_max_def)
qed

section \<open>Free steps\<close>

lemma soundI:
  assumes "wf_stream now (unpaid s)" "curve s \<noteq> Linear" "status s \<noteq> Depleted" "0 \<le> withdrawn s"
    "withdrawn s \<le> i128_max" "\<not> is_terminal (status s) \<Longrightarrow> withdrawn s < deposited s"
  shows "sound now s"
  using assms by (simp add: sound_def)

definition free_step :: "u64 \<Rightarrow> stream \<Rightarrow> stream \<Rightarrow> bool" where
  "free_step now s s' \<longleftrightarrow>
     (wf_stream now s \<and> stream_step now s s') \<or>
     (curve s \<noteq> Linear \<and> \<not> is_terminal (status s) \<and> curve s' = curve s \<and> token s' = token s \<and>
      sound now s')"

lemma free_step_sound: "free_step now s s' \<Longrightarrow> sound now s'"
  using stream_step_wf wf_sound by (auto simp: free_step_def)

lemma free_step_token: "free_step now s s' \<Longrightarrow> token s' = token s"
  using stream_step_same_terms by (auto simp: free_step_def same_terms_def)

lemma free_step_linear: "free_step now s s' \<Longrightarrow> curve s = Linear \<Longrightarrow> stream_step now s s'"
  by (simp add: free_step_def)

text \<open>
  A step that does not look at the payments is free on every sound stream: it is a step of the
  machine where the stream is well formed, and leaves an overdrawn stream sound.
\<close>

lemma free_stepI:
  assumes "sound now s" "\<not> is_terminal (status s)"
    and step: "wf_stream now s \<Longrightarrow> stream_step now s s'"
    and wf: "wf_stream now (unpaid s')"
    and fields: "curve s' = curve s" "token s' = token s" "withdrawn s' = withdrawn s" "status s' \<noteq> Depleted"
    and live: "\<not> is_terminal (status s') \<Longrightarrow> deposited s \<le> deposited s'"
  shows "free_step now s s'"
proof (cases "wf_stream now s")
  case True
  with step show ?thesis by (simp add: free_step_def)
next
  case False
  then have lin: "curve s \<noteq> Linear" using assms(1) sound_linear by auto
  have "sound now s'"
    using wf lin fields soundD(2,3) [OF assms(1)] sound_unpaid(2) [OF assms(1,2)] live
    by (intro soundI) auto
  with lin assms(2) fields show ?thesis by (simp add: free_step_def)
qed

lemma free_pause:
  assumes "sound now s" "pausable s" "status s = Active"
  shows "free_step now s (paused_stream now s)"
proof (rule free_stepI [OF assms(1)])
  show "wf_stream now (unpaid (paused_stream now s))"
    using sound_unpaid(1) [OF assms(1)] assms(3) by (simp add: unpaid_steps wf_paused_stream)
qed (use assms in \<open>simp_all add: step_pause\<close>, simp_all add: paused_stream_def)

lemma free_resume:
  assumes "sound now s" "status s = Paused"
  shows "free_step now s (resumed_stream now s)"
proof (rule free_stepI [OF assms(1)])
  show "wf_stream now (unpaid (resumed_stream now s))"
    using sound_unpaid(1) [OF assms(1)] assms(2) by (simp add: unpaid_steps wf_resumed_stream)
qed (use assms in \<open>simp_all add: step_resume\<close>, simp_all add: resumed_stream_def)

lemma free_cancel:
  assumes "sound now s" "cancellable s" "\<not> is_terminal (status s)"
  shows "free_step now s (cancelled_stream now s)"
proof (rule free_stepI [OF assms(1,3)])
  show "wf_stream now (unpaid (cancelled_stream now s))"
    using sound_unpaid(1) [OF assms(1,3)] by (simp add: unpaid_steps wf_cancelled_stream)
qed (use assms in \<open>simp_all add: step_cancel\<close>, simp_all add: cancelled_stream_def)

lemma free_transfer:
  assumes "sound now s" "transferable s" "status s \<noteq> Depleted" "withdrawn s < deposited s" "a \<noteq> sender s"
  shows "free_step now s (s\<lparr>recipient := a\<rparr>)"
proof (cases "is_terminal (status s)")
  case True
  then have "wf_stream now s" using soundD(10) [OF assms(1) True] assms(4) by (intro sound_covered [OF assms(1)]) simp
  then show ?thesis using assms by (simp add: free_step_def step_transfer)
next
  case False
  show ?thesis
  proof (rule free_stepI [OF assms(1) False])
    show "wf_stream now (unpaid (s\<lparr>recipient := a\<rparr>))"
      using sound_unpaid(1) [OF assms(1) False] assms(5) by (simp add: unpaid_steps wf_transferred_stream)
  qed (use assms in \<open>simp_all add: step_transfer\<close>)
qed

lemma free_withdraw:
  assumes "sound now s" "0 < amount" "amount \<le> vested_amount s now - withdrawn s"
  shows "wf_stream now s" "free_step now s (paid_stream now amount s)"
proof -
  show "wf_stream now s" using assms by (intro sound_covered) simp_all
  with assms show "free_step now s (paid_stream now amount s)" by (simp add: free_step_def step_withdraw)
qed

text \<open>
  A top-up that re-establishes the guards of a creation is free if it lowers nothing, and on a step
  or front-loaded curve in any case.
\<close>

lemma free_top_up:
  assumes s: "sound now s" and live: "\<not> is_terminal (status s)" and pos: "0 < amount"
    and clock: "stream_time s now < end_time s" and ge: "end_time s \<le> new_end"
    and dom: "in_i128 (deposited (grown_stream amount new_end s))"
      "in_i128 (deposited (grown_stream amount new_end s) * uint (duration (grown_stream amount new_end s)))"
    and rate: "uint (duration (grown_stream amount new_end s)) \<le> deposited (grown_stream amount new_end s)"
    and mono: "curve s = Linear \<Longrightarrow> vested_amount s now \<le> vested_amount (grown_stream amount new_end s) now"
  shows "free_step now s (grown_stream amount new_end s)"
proof -
  let ?g = "grown_stream amount new_end s"
  have gf: "deposited ?g = deposited s + amount" "withdrawn ?g = withdrawn s" "status ?g = status s"
    "curve ?g = curve s" "token ?g = token s" "start_time ?g = start_time s" "sender ?g = sender s"
    "recipient ?g = recipient s" "cliff_time ?g = cliff_time s" "end_time ?g = new_end"
    by (simp_all add: grown_stream_def)
  show ?thesis
  proof (cases "curve s = Linear")
    case True
    then have "wf_stream now s" "stream_step now s ?g"
      using s mono assms(2-8) by (auto simp: sound_linear intro: step_top_up)
    then show ?thesis by (simp add: free_step_def)
  next
    case False
    note un = sound_unpaid [OF s live]
    note d = wf_streamD [OF un(1)]
    have ad: "accrual_domain (deposited ?g) (duration ?g)"
      using dom d(8) pos by (simp add: accrual_domain_def gf in_i128_def)
    then have "vest_ok ?g now" by (simp add: vest_ok_def accrual_domain_def)
    note vt = vested_total [OF this]
    have "start_time s < end_time s" "0 < deposited s"
      using wf_live [OF un(1)] live by (simp_all add: live_ok_def)
    then have "live_ok (unpaid ?g)" using ad rate ge pos by (simp add: live_ok_def gf)
    moreover have "pause_ok now ?g"
      using d(4) by (simp add: pause_ok_def grown_stream_def cong: option.case_cong)
    ultimately have "wf_stream now (unpaid ?g)"
      using un(1) live vt \<open>vest_ok ?g now\<close> by (auto simp: wf_stream_def gf is_terminal_iff)
    then have "sound now ?g"
      using False un(2) soundD(2,3) [OF s] live pos by (intro soundI) (auto simp: gf)
    with False live show ?thesis by (simp add: free_step_def gf)
  qed
qed

text \<open>So every step of the stream machine is free.\<close>

lemma step_free:
  assumes "sound now s" "stream_step now s s'"
  shows "free_step now s s'"
  using assms(2)
proof (cases rule: stream_step.cases)
  case (step_top_up amount new_end)
  then show ?thesis using free_top_up [OF assms(1), of amount new_end] by simp
qed (use assms(1) in \<open>simp_all add: free_pause free_resume free_withdraw free_cancel free_transfer\<close>)

text \<open>Terminal states are final under free steps as well.\<close>

lemma free_step_terminal: "free_step now s s' \<Longrightarrow> terminal_sticky now s now s'"
  using stream_step_terminal by (auto simp: free_step_def terminal_sticky_def is_terminal_iff)

section \<open>Shifts of the ledger\<close>

inductive ledger_shift :: "u64 \<Rightarrow> ledger \<Rightarrow> ledger \<Rightarrow> bool" for now :: u64 where
  shift_open:
    "opened s \<Longrightarrow> uint (l_next L) < u64_max \<Longrightarrow>
     in_i128 (l_pool L (token s) + deposited s) \<Longrightarrow>
     ledger_shift now L (L\<lparr>
       l_streams := (l_streams L)(l_next L \<mapsto> s),
       l_pool := (l_pool L)(token s := l_pool L (token s) + deposited s),
       l_next := l_next L + 1\<rparr>)"
| shift_act:
    "l_streams L i = Some s \<Longrightarrow> free_step now s s' \<Longrightarrow>
     in_i128 (l_pool L (token s) + (owed_by s' - owed_by s)) \<Longrightarrow>
     ledger_shift now L (L\<lparr>
       l_streams := (l_streams L)(i \<mapsto> s'),
       l_pool := (l_pool L)(token s := l_pool L (token s) + (owed_by s' - owed_by s))\<rparr>)"

text \<open>The accounting invariant: as that of the ledger machine, for sound streams.\<close>

definition sound_ledger :: "u64 \<Rightarrow> ledger \<Rightarrow> bool" where
  "sound_ledger now L \<longleftrightarrow>
     (\<forall>i s. l_streams L i = Some s \<longrightarrow> sound now s) \<and>
     (\<forall>i. l_streams L i = None \<longleftrightarrow> l_next L \<le> i) \<and>
     (\<forall>tkn. l_pool L tkn = owed (l_streams L) tkn \<and> in_i128 (l_pool L tkn))"

lemma sound_ledgerD:
  assumes "sound_ledger now L"
  shows "l_streams L i = Some s \<Longrightarrow> sound now s" "l_streams L i = None \<longleftrightarrow> l_next L \<le> i"
    and "l_pool L tkn = owed (l_streams L) tkn" "in_i128 (l_pool L tkn)"
  using assms unfolding sound_ledger_def by blast+

lemma ledger_shift_sound:
  assumes "ledger_shift now L L'" "sound_ledger now L"
  shows "sound_ledger now L'"
  using assms(1)
proof (cases rule: ledger_shift.cases)
  case (shift_open s)
  note inv = sound_ledgerD [OF assms(2)]
  let ?S = "(l_streams L)(l_next L \<mapsto> s)"
  have nx: "uint (l_next L + 1) = uint (l_next L) + 1"
    using shift_open(3) uint_add_u64 [of "l_next L" 1] by simp
  have "?S i = None \<longleftrightarrow> l_next L + 1 \<le> i" for i
    using inv(2) [of i] by (auto simp: word_le_def nx word_uint_eq_iff)
  moreover have "l_pool L' tkn = owed ?S tkn \<and> in_i128 (l_pool L' tkn)" for tkn
    using inv(2) [of "l_next L"] inv(3,4) shift_open
    by simp (simp add: owed_update owed_on_def owed_by_def opened_def)
  moreover have "sound now r" if "?S i = Some r" for i r
    using that inv(1) wf_sound [OF opened_wf [OF shift_open(2)]] by (auto split: if_splits)
  moreover have "l_streams L' = ?S" "l_next L' = l_next L + 1" using shift_open(1) by simp_all
  ultimately show ?thesis unfolding sound_ledger_def by metis
next
  case (shift_act i s s')
  note inv = sound_ledgerD [OF assms(2)]
  let ?S = "(l_streams L)(i \<mapsto> s')"
  have tok: "token s' = token s" using shift_act(3) by (rule free_step_token)
  have "?S j = None \<longleftrightarrow> l_next L \<le> j" for j
    using inv(2) [of j] shift_act(2) inv(2) [of i] by auto
  moreover have "l_pool L' tkn = owed ?S tkn \<and> in_i128 (l_pool L' tkn)" for tkn
    using shift_act(1,2,4) inv(3,4) tok by (simp add: owed_update owed_on_def)
  moreover have "sound now r" if "?S j = Some r" for j r
    using that inv(1) free_step_sound [OF shift_act(3)] by (auto split: if_splits)
  moreover have "l_streams L' = ?S" "l_next L' = l_next L" using shift_act(1) by simp_all
  ultimately show ?thesis unfolding sound_ledger_def by metis
qed

lemma ledger_shifts_sound:
  "(ledger_shift now)\<^sup>*\<^sup>* L L' \<Longrightarrow> sound_ledger now L \<Longrightarrow> sound_ledger now L'"
  by (induction rule: rtranclp_induct) (auto intro: ledger_shift_sound)

text \<open>Every run of the ledger machine is made of shifts.\<close>

lemma ledger_step_shift:
  assumes "sound_ledger now L" "ledger_step now L L'"
  shows "ledger_shift now L L'"
  using assms(2)
proof (cases rule: ledger_step.cases)
  case (ledger_open s)
  then show ?thesis using shift_open [of s L now] by simp
next
  case (ledger_act i s s')
  have "sound now s" using assms(1) ledger_act(2) by (rule sound_ledgerD(1))
  then show ?thesis using ledger_act shift_act [of L i s now s'] step_free by simp
qed

lemma ledger_steps_shift:
  assumes "(ledger_step now)\<^sup>*\<^sup>* L L'" "sound_ledger now L"
  shows "(ledger_shift now)\<^sup>*\<^sup>* L L'"
  using assms(1)
proof (induction rule: rtranclp_induct)
  case (step M N)
  have "sound_ledger now M" using step.IH assms(2) by (rule ledger_shifts_sound)
  then have "ledger_shift now M N" using step.hyps(2) by (rule ledger_step_shift)
  with step.IH show ?case by simp
qed simp

text \<open>
  What a stream is worth to its parties across shifts and time: its curve stays, a terminal stream
  is final, and a stream that vests linearly lives a life of the stream machine.
\<close>

definition outlives :: "u64 \<Rightarrow> stream \<Rightarrow> u64 \<Rightarrow> stream \<Rightarrow> bool" where
  "outlives now s later s' \<longleftrightarrow>
     curve s' = curve s \<and> terminal_sticky now s later s' \<and>
     (curve s = Linear \<longrightarrow> stream_life now s later s')"

lemma outlives_refl: "outlives now s now s"
  by (simp add: outlives_def sticky.R_refl stream_life_def)

lemma outlives_trans: "outlives t s t' s' \<Longrightarrow> outlives t' s' t'' s'' \<Longrightarrow> outlives t s t'' s''"
  unfolding outlives_def using sticky.R_trans stream_life_trans by metis

lemma outlives_tick:
  assumes "now \<le> later"
  shows "outlives now s later s"
  using sticky.R_refl [of now s] stream_life_tick [OF assms, of s]
  by (simp add: outlives_def terminal_sticky_def)

lemma free_step_outlives:
  assumes "free_step now s s'"
  shows "outlives now s now s'"
proof -
  have "curve s' = curve s" using assms stream_step_same_terms by (auto simp: free_step_def same_terms_def)
  then show ?thesis
    using free_step_terminal [OF assms] free_step_linear [OF assms] life_act
    by (auto simp: outlives_def stream_life_def)
qed

lemma ledger_shifts_outlive:
  assumes "(ledger_shift now)\<^sup>*\<^sup>* L L'" "sound_ledger now L" "l_streams L i = Some s"
  shows "\<exists>s'. l_streams L' i = Some s' \<and> outlives now s now s'"
  using assms(1)
proof (induction rule: rtranclp_induct)
  case base
  then show ?case using assms(3) outlives_refl by blast
next
  case (step M N)
  then obtain r where r: "l_streams M i = Some r" "outlives now s now r" by blast
  have M: "sound_ledger now M" using step.hyps(1) assms(2) by (rule ledger_shifts_sound)
  have "\<exists>s'. l_streams N i = Some s' \<and> outlives now r now s'"
    using step.hyps(2)
  proof (cases rule: ledger_shift.cases)
    case (shift_open q)
    then show ?thesis using r(1) sound_ledgerD(2) [OF M, of "l_next M"] outlives_refl by auto
  next
    case (shift_act j q q')
    then show ?thesis using r(1) free_step_outlives outlives_refl by auto
  qed
  with r(2) show ?case by (blast intro: outlives_trans)
qed

end
