(* ===== verification/Operation.thy ===== *)
theory Operation
  imports Pool Overdraft
begin

text \<open>
  What a world satisfies, and what every entry point promises, as two locales. A \<open>settlement\<close> is an
  operation whose successful runs, on any sound world, are runs of the ledger machine and touch no
  grant, no operator and no halt; a \<open>halting_settlement\<close> is one that also refuses while the contract
  is halted. The lemmas proved here once (soundness and control are kept, a call that succeeds
  finds and leaves the contract live) hold for every entry point by interpretation.
\<close>

section \<open>The invariant of a world\<close>

definition world_inv :: "u64 \<Rightarrow> 't world \<Rightarrow> bool" where
  "world_inv now w \<longleftrightarrow> ledger_inv now (ledger_of w) \<and> counters_agree w"

lemma world_invD:
  assumes "world_inv now w"
  shows "lookup_stream w i = Some s \<Longrightarrow> wf_stream now s"
    and "lookup_stream w i = None \<longleftrightarrow> next_id w \<le> i"
    and "pooled_balance w tkn = owed (lookup_stream w) tkn"
    and "pooled_balance w tkn \<le> i128_max" and "counters_agree w"
    and "ledger_inv now (ledger_of w)"
  using assms ledger_invD [of now "ledger_of w"] by (auto simp: world_inv_def)

lemma world_inv_fresh: "world_inv now (fresh_world ts)"
proof -
  have l: "lookup_stream (fresh_world ts) = Map.empty" "pooled_balance (fresh_world ts) = (\<lambda>_. 0)"
    "next_id (fresh_world ts) = 0" "stream_count (fresh_world ts) = 0"
    by (simp_all add: fresh_world_def view_defs fun_eq_iff)
  then show ?thesis
    by (simp add: world_inv_def ledger_inv_def counters_agree_def i128_max_def word_le_def)
qed

lemma world_inv_later: "world_inv now w \<Longrightarrow> now \<le> later \<Longrightarrow> world_inv later w"
  unfolding world_inv_def using ledger_inv_later by blast

text \<open>
  What holds of a world under every call the contract accepts: its streams are sound, though they
  may be overdrawn, and its counters and pools are exact. Almost everything an operation does can
  be read off this alone.
\<close>

definition sound_world :: "u64 \<Rightarrow> 't world \<Rightarrow> bool" where
  "sound_world now w \<longleftrightarrow> sound_ledger now (ledger_of w) \<and> counters_agree w"

lemma sound_worldD:
  assumes "sound_world now w"
  shows "lookup_stream w i = Some s \<Longrightarrow> sound now s" "lookup_stream w i = None \<longleftrightarrow> next_id w \<le> i"
    and "pooled_balance w tkn = owed (lookup_stream w) tkn" "in_i128 (pooled_balance w tkn)"
    and "counters_agree w" "sound_ledger now (ledger_of w)"
  using assms sound_ledgerD [of now "ledger_of w"] by (auto simp: sound_world_def)

lemma sound_world_later: "sound_world now w \<Longrightarrow> now \<le> later \<Longrightarrow> sound_world later w"
  using sound_later unfolding sound_world_def sound_ledger_def by blast

lemma sound_fresh_id: "sound_world now w \<Longrightarrow> lookup_stream w (next_id w) = None"
  by (simp add: sound_worldD(2))

text \<open>A payment out of a pool that is not overdrawn stays in range.\<close>

lemma debit_range:
  assumes "sound_world now w" "0 \<le> pooled_balance w tkn" "0 \<le> x" "x \<le> i128_max"
  shows "in_i128 (pooled_balance w tkn - x)"
  using sound_worldD(4) [OF assms(1), of tkn] assms(2-4) by (auto simp: in_i128_def i128_min_def i128_max_def)

lemma pool_nonneg:
  assumes "world_inv now w"
  shows "0 \<le> owed_on tkn (lookup_stream w j)" "0 \<le> pooled_balance w tkn"
proof -
  show nn: "0 \<le> owed_on tkn (lookup_stream w j)" for j
    by (rule owed_on_nonneg) (rule world_invD(1) [OF assms])
  show "0 \<le> pooled_balance w tkn" unfolding world_invD(3) [OF assms] using nn by (rule owed_covers)
qed

lemma world_sound:
  assumes "world_inv now w"
  shows "sound_world now w"
proof -
  note inv = world_invD [OF assms]
  have "in_i128 (pooled_balance w tkn)" for tkn
    using pool_nonneg(2) [OF assms] inv(4) by (simp add: in_i128_nonneg)
  with inv(1-3,5) wf_sound show ?thesis
    unfolding sound_world_def sound_ledger_def ledger_of_simps by blast
qed

section \<open>Settlements\<close>

definition settles :: "u64 \<Rightarrow> 't world \<Rightarrow> 't world \<Rightarrow> bool" where
  "settles now w w' \<longleftrightarrow>
     (ledger_step now)\<^sup>*\<^sup>* (ledger_of w) (ledger_of w') \<and>
     control_of w' = control_of w \<and> (counters_agree w \<longrightarrow> counters_agree w')"

lemma settles_refl: "ledger_of w' = ledger_of w \<Longrightarrow> control_of w' = control_of w \<Longrightarrow>
    counters_agree w' = counters_agree w \<Longrightarrow> settles now w w'"
  by (simp add: settles_def)

lemma settles_trans: "settles now w1 w2 \<Longrightarrow> settles now w2 w3 \<Longrightarrow> settles now w1 w3"
  by (auto simp: settles_def)

lemma settles_inv: "settles now w w' \<Longrightarrow> world_inv now w \<Longrightarrow> world_inv now w'"
  using ledger_steps_inv by (auto simp: settles_def world_inv_def)

lemma settles_sound: "settles now w w' \<Longrightarrow> sound_world now w \<Longrightarrow> sound_world now w'"
  using ledger_shifts_sound [OF ledger_steps_shift] by (auto simp: settles_def sound_world_def)

text \<open>One stream replaced, its pool moved by the change of its liability: one ledger step.\<close>

lemma settles_act:
  assumes "lookup_stream w i = Some s" "stream_step now s s'"
    and "lookup_stream w' = (lookup_stream w)(i \<mapsto> s')"
    and "pooled_balance w' =
           (pooled_balance w)(token s := pooled_balance w (token s) + (owed_by s' - owed_by s))"
    and "in_i128 (pooled_balance w (token s) + (owed_by s' - owed_by s))"
    and "next_id w' = next_id w" "control_of w' = control_of w" "counters_agree w' = counters_agree w"
  shows "settles now w w'"
proof -
  have "ledger_of w' = (ledger_of w)\<lparr>l_streams := (lookup_stream w)(i \<mapsto> s'),
      l_pool := (pooled_balance w)(token s := pooled_balance w (token s) + (owed_by s' - owed_by s))\<rparr>"
    using assms(3,4,6) by (simp add: ledger_of_def)
  then have "ledger_step now (ledger_of w) (ledger_of w')"
    using ledger_step.ledger_act [of "ledger_of w" i s now s'] assms(1,2,5) by simp
  with assms(7,8) show ?thesis by (auto simp: settles_def)
qed

locale settlement =
  fixes run :: "env \<Rightarrow> 't world \<Rightarrow> ('r \<times> 't world) result"
  assumes refines:
    "sound_world (timestamp e) w \<Longrightarrow> run e w = Inr (r, w') \<Longrightarrow> settles (timestamp e) w w'"
begin

lemma keeps_sound:
  "sound_world (timestamp e) w \<Longrightarrow> run e w = Inr (r, w') \<Longrightarrow> sound_world (timestamp e) w'"
  using refines settles_sound by blast

lemma keeps_control:
  "sound_world (timestamp e) w \<Longrightarrow> run e w = Inr (r, w') \<Longrightarrow> control_of w' = control_of w"
  using refines by (auto simp: settles_def)

end

locale halting_settlement = settlement +
  assumes refuses: "is_halted w \<Longrightarrow> run e w = Inl (Err ContractHalted)"
begin

lemma success_not_halted: "run e w = Inr x \<Longrightarrow> \<not> is_halted w"
  using refuses by fastforce

lemma stays_live:
  assumes "sound_world (timestamp e) w" "run e w = Inr (r, w')"
  shows "\<not> is_halted w'"
proof -
  have "halted_at_entry w' = halted_at_entry w"
    using keeps_control [OF assms] by (simp add: control_of_def)
  with success_not_halted [OF assms(2)] show ?thesis by (simp add: is_halted_def)
qed

end

end
