(* ===== verification/Creation.thy ===== *)
theory Creation
  imports Operation
begin

text \<open>
  The creation entry points of \<^verbatim>\<open>contracts/stream/src/lib.rs\<close>: \<open>create_stream\<close>,
  \<open>create_stream_with_cliff_mode\<close>, \<open>create_stream_with_curve\<close>, the private
  \<open>create_stream_inner\<close> and \<open>create_stream_unchecked\<close>, and \<open>batch_create\<close>. The lemmas
  show what a successful creation leaves behind, that it opens exactly one stream of the
  ledger machine at the next id, and which inputs it refuses.
\<close>

section \<open>The code\<close>

definition MAX_BATCH_SIZE :: nat where
  "MAX_BATCH_SIZE = 16"

definition create_stream_inner ::
    "'t token_iface \<Rightarrow> env \<Rightarrow> address \<Rightarrow> address \<Rightarrow> address \<Rightarrow> int \<Rightarrow> u64 \<Rightarrow> u64 \<Rightarrow> u64 \<Rightarrow> cliff_mode \<Rightarrow>
     bool \<Rightarrow> bool \<Rightarrow> bool \<Rightarrow> string option \<Rightarrow> release_curve \<Rightarrow> 't world \<Rightarrow> (u64 \<times> 't world) result" where
  "create_stream_inner tk e from_sender to_recipient tkn deposit start end_at cliff mode
     can_cancel can_pause can_transfer ref crv w =
     (if from_sender = to_recipient then Inl (Err SelfStream)
      else if deposit \<le> 0 then Inl (Err InvalidDeposit)
      else if end_at \<le> start then Inl (Err InvalidTimeRange)
      else if cliff < start \<or> cliff > end_at then Inl (Err InvalidCliff)
      else if (case ref of Some r \<Rightarrow> length r > unat MAX_REFERENCE_LENGTH | None \<Rightarrow> False)
      then Inl (Err InvalidReferenceLength)
      else
        let total_duration = end_at - start in
        if deposit < uint total_duration then Inl (Err DepositRateTooLow)
        else
          and_then (ok_or (Err Overflow) (checked_mul_i128 deposit (uint total_duration))) (\<lambda>_.
          and_then (next_stream_id e w) (\<lambda>(stream_id, w1).
          let s = \<lparr>
                sender = from_sender, recipient = to_recipient, token = tkn,
                deposited = deposit, withdrawn = 0,
                start_time = start, end_time = end_at, cliff_time = cliff,
                cancellable = can_cancel, pausable = can_pause, transferable = can_transfer,
                paused_at = None, paused_total = 0, status = Active,
                cliff_mode = mode, curve = crv, reference = ref \<rparr>
          in
          and_then (pull_deposit tk e tkn from_sender deposit w1) (\<lambda>w2.
          and_then (save_stream e stream_id s w2) (\<lambda>w3.
          Inr (stream_id, emit_stream_created stream_id s (extend_instance e w3)))))))"

definition create_stream_with_cliff_mode ::
    "'t token_iface \<Rightarrow> env \<Rightarrow> address \<Rightarrow> address \<Rightarrow> address \<Rightarrow> int \<Rightarrow> u64 \<Rightarrow> u64 \<Rightarrow> u64 \<Rightarrow> cliff_mode \<Rightarrow>
     bool \<Rightarrow> bool \<Rightarrow> bool \<Rightarrow> string option \<Rightarrow> 't world \<Rightarrow> (u64 \<times> 't world) result" where
  "create_stream_with_cliff_mode tk e from_sender to_recipient tkn deposit start end_at cliff mode
     can_cancel can_pause can_transfer ref w =
     and_then (require_not_halted w) (\<lambda>_.
     and_then (require_auth e from_sender) (\<lambda>_.
     create_stream_inner tk e from_sender to_recipient tkn deposit start end_at cliff mode
       can_cancel can_pause can_transfer ref Linear w))"

definition create_stream ::
    "'t token_iface \<Rightarrow> env \<Rightarrow> address \<Rightarrow> address \<Rightarrow> address \<Rightarrow> int \<Rightarrow> u64 \<Rightarrow> u64 \<Rightarrow> u64 \<Rightarrow>
     bool \<Rightarrow> bool \<Rightarrow> bool \<Rightarrow> string option \<Rightarrow> 't world \<Rightarrow> (u64 \<times> 't world) result" where
  "create_stream tk e from_sender to_recipient tkn deposit start end_at cliff
     can_cancel can_pause can_transfer ref w =
     create_stream_with_cliff_mode tk e from_sender to_recipient tkn deposit start end_at cliff
       DEFAULT_cliff_mode can_cancel can_pause can_transfer ref w"

definition create_stream_unchecked ::
    "'t token_iface \<Rightarrow> env \<Rightarrow> address \<Rightarrow> address \<Rightarrow> address \<Rightarrow> int \<Rightarrow> u64 \<Rightarrow> u64 \<Rightarrow> u64 \<Rightarrow> cliff_mode \<Rightarrow>
     bool \<Rightarrow> bool \<Rightarrow> bool \<Rightarrow> string option \<Rightarrow> 't world \<Rightarrow> (u64 \<times> 't world) result" where
  "create_stream_unchecked tk e from_sender to_recipient tkn deposit start end_at cliff mode
     can_cancel can_pause can_transfer ref w =
     create_stream_inner tk e from_sender to_recipient tkn deposit start end_at cliff mode
       can_cancel can_pause can_transfer ref Linear w"

definition create_stream_with_curve ::
    "'t token_iface \<Rightarrow> env \<Rightarrow> address \<Rightarrow> address \<Rightarrow> address \<Rightarrow> int \<Rightarrow> u64 \<Rightarrow> u64 \<Rightarrow> u64 \<Rightarrow>
     bool \<Rightarrow> bool \<Rightarrow> bool \<Rightarrow> release_curve \<Rightarrow> 't world \<Rightarrow> (u64 \<times> 't world) result" where
  "create_stream_with_curve tk e from_sender to_recipient tkn deposit start end_at cliff
     can_cancel can_pause can_transfer crv w =
     and_then (require_not_halted w) (\<lambda>_.
     and_then (require_auth e from_sender) (\<lambda>_.
     create_stream_inner tk e from_sender to_recipient tkn deposit start end_at cliff
       DEFAULT_cliff_mode can_cancel can_pause can_transfer None crv w))"

text \<open>
  \<open>batch_create\<close>: the first loop validates every request before any token is called, the
  second creates the streams in order.
\<close>

fun validate_requests :: "address \<Rightarrow> batch_create_request list \<Rightarrow> unit result" where
  "validate_requests from_sender [] = Inr ()"
| "validate_requests from_sender (request # requests) =
     (if req_recipient request = from_sender then Inl (Err SelfStream)
      else if req_deposit request \<le> 0 then Inl (Err InvalidDeposit)
      else if req_end_time request \<le> req_start_time request then Inl (Err InvalidTimeRange)
      else if req_cliff_time request < req_start_time request
        \<or> req_cliff_time request > req_end_time request then Inl (Err InvalidCliff)
      else if req_deposit request < uint (req_end_time request - req_start_time request)
      then Inl (Err DepositRateTooLow)
      else validate_requests from_sender requests)"

definition create_request ::
    "'t token_iface \<Rightarrow> env \<Rightarrow> address \<Rightarrow> batch_create_request \<Rightarrow> 't world \<Rightarrow> (u64 \<times> 't world) result" where
  "create_request tk e from_sender request w =
     create_stream_unchecked tk e from_sender (req_recipient request) (req_token request)
       (req_deposit request) (req_start_time request) (req_end_time request)
       (req_cliff_time request) DEFAULT_cliff_mode (req_cancellable request)
       (req_pausable request) (req_transferable request) None w"

fun create_all ::
    "'t token_iface \<Rightarrow> env \<Rightarrow> address \<Rightarrow> batch_create_request list \<Rightarrow> 't world \<Rightarrow>
     (u64 list \<times> 't world) result" where
  "create_all tk e from_sender [] w = Inr ([], w)"
| "create_all tk e from_sender (request # requests) w =
     and_then (create_request tk e from_sender request w) (\<lambda>(stream_id, w1).
     and_then (create_all tk e from_sender requests w1) (\<lambda>(ids, w2).
     Inr (stream_id # ids, w2)))"

definition batch_create ::
    "'t token_iface \<Rightarrow> env \<Rightarrow> address \<Rightarrow> batch_create_request list \<Rightarrow> 't world \<Rightarrow>
     (u64 list \<times> 't world) result" where
  "batch_create tk e from_sender requests w =
     and_then (require_not_halted w) (\<lambda>_.
     if requests = [] then Inl (Err EmptyBatch)
     else if length requests > MAX_BATCH_SIZE then Inl (Err BatchTooLarge)
     else
       and_then (require_auth e from_sender) (\<lambda>_.
       and_then (validate_requests from_sender requests) (\<lambda>_.
       create_all tk e from_sender requests w)))"

section \<open>One stream opened\<close>

text \<open>The stream a creation writes, and the conditions under which it is written.\<close>

definition opened_stream ::
    "address \<Rightarrow> address \<Rightarrow> address \<Rightarrow> int \<Rightarrow> u64 \<Rightarrow> u64 \<Rightarrow> u64 \<Rightarrow> cliff_mode \<Rightarrow>
     bool \<Rightarrow> bool \<Rightarrow> bool \<Rightarrow> string option \<Rightarrow> release_curve \<Rightarrow> stream" where
  "opened_stream a b tkn deposit start end_at cliff mode cc cp ct ref crv = \<lparr>
     sender = a, recipient = b, token = tkn, deposited = deposit, withdrawn = 0,
     start_time = start, end_time = end_at, cliff_time = cliff,
     cancellable = cc, pausable = cp, transferable = ct,
     paused_at = None, paused_total = 0, status = Active,
     cliff_mode = mode, curve = crv, reference = ref \<rparr>"

lemma create_stream_inner_Inr:
  assumes "create_stream_inner tk e a b tkn deposit start end_at cliff mode cc cp ct ref crv w = Inr (i, w')"
  obtains w1 w2 where
    "i = next_id w" "uint (next_id w) < u64_max"
    "opened (opened_stream a b tkn deposit start end_at cliff mode cc cp ct ref crv)"
    "(case ref of Some r \<Rightarrow> length r \<le> 64 | None \<Rightarrow> True)"
    "pull_deposit tk e tkn a deposit (extend_instance e w) = Inr w1"
    "save_stream e i (opened_stream a b tkn deposit start end_at cliff mode cc cp ct ref crv) w1 = Inr w2"
    "w' = emit_stream_created i (opened_stream a b tkn deposit start end_at cliff mode cc cp ct ref crv)
       (extend_instance e w2)"
proof -
  let ?s = "opened_stream a b tkn deposit start end_at cliff mode cc cp ct ref crv"
  have g: "a \<noteq> b" "0 < deposit" "start < end_at" "start \<le> cliff" "cliff \<le> end_at"
    "uint (end_at - start) \<le> deposit" "in_i128 (deposit * uint (end_at - start))"
    "(case ref of Some r \<Rightarrow> length r \<le> 64 | None \<Rightarrow> True)"
    and run: "and_then (next_stream_id e w) (\<lambda>(stream_id, w1).
       and_then (pull_deposit tk e tkn a deposit w1) (\<lambda>w2.
       and_then (save_stream e stream_id ?s w2) (\<lambda>w3.
       Inr (stream_id, emit_stream_created stream_id ?s (extend_instance e w3))))) = Inr (i, w')"
    using assms unfolding create_stream_inner_def Let_def opened_stream_def
    by (auto simp: MAX_REFERENCE_LENGTH_def not_le not_less split: option.splits)
  have "opened ?s" using g by (simp add: opened_def opened_stream_def)
  moreover have n: "uint (next_id w) \<noteq> u64_max" and "i = next_id w"
    using run by (auto simp: next_stream_id_eq split: if_splits)
  moreover have "uint (next_id w) < u64_max"
    using n uint_u64_bounds(2) [of "next_id w"] by (rule le_neq_trans [rotated])
  ultimately show thesis
    using that g(8) run by (auto simp: next_stream_id_eq split: if_splits)
qed


lemma opened_stream_fields [simp]:
  "token (opened_stream a b tkn deposit start end_at cliff mode cc cp ct ref crv) = tkn"
  "deposited (opened_stream a b tkn deposit start end_at cliff mode cc cp ct ref crv) = deposit"
  by (simp_all add: opened_stream_def)

lemma create_stream_inner_fresh:
  assumes new_id: "lookup_stream w (next_id w) = None"
    and run: "create_stream_inner tk e a b tkn deposit start end_at cliff mode cc cp ct ref crv w = Inr (i, w')"
  defines "s \<equiv> opened_stream a b tkn deposit start end_at cliff mode cc cp ct ref crv"
  shows "i = next_id w" "opened s"
    "lookup_stream w' = (lookup_stream w)(i \<mapsto> s)"
    "pooled_balance w' = (pooled_balance w)(tkn := pooled_balance w tkn + deposit)"
    "next_id w' = i + 1" "stream_count w' = i + 1" "control_of w' = control_of w"
    "events w' = events w @ [StreamCreatedEvent i a b tkn deposit start end_at cliff cc cp ct crv mode ref]"
    "settles now w w'"
proof -
  obtain w1 w2 where i: "i = next_id w" "uint (next_id w) < u64_max" and op: "opened s"
    and pull: "pull_deposit tk e tkn a deposit (extend_instance e w) = Inr w1"
    and save: "save_stream e i s w1 = Inr w2"
    and w': "w' = emit_stream_created i s (extend_instance e w2)"
    using create_stream_inner_Inr [OF run] unfolding s_def by metis
  note p = pull_deposit_fields [OF pull]
  have new: "lookup_stream w1 i = None"
    using p(5) new_id i(1) by simp
  note sv = save_stream_new [OF save new]
  have eqs: "lookup_stream w2 = (lookup_stream w)(i \<mapsto> s)" "next_id w2 = i + 1" "stream_count w2 = i + 1"
    "pooled_balance w2 = (pooled_balance w)(tkn := pooled_balance w tkn + deposit)"
    "events w2 = events w"
    using sv p i(1) by (simp_all add: view_def)
  have ctl: "control_of w2 = control_of w"
    using sv(1) p(2) by (simp add: view_def control_of_def extend_instance_def)
  have ev: "view w' = view w2" by (simp add: w' emit_stream_created_def)
  show "i = next_id w" "opened s" by (fact i op)+
  show l: "lookup_stream w' = (lookup_stream w)(i \<mapsto> s)"
    and n: "next_id w' = i + 1" and c: "stream_count w' = i + 1"
    and pb: "pooled_balance w' = (pooled_balance w)(tkn := pooled_balance w tkn + deposit)"
    and ct: "control_of w' = control_of w"
    using eqs ctl view_eqD [OF ev] view_ledger(2) [OF ev] by simp_all
  show "events w' = events w @ [StreamCreatedEvent i a b tkn deposit start end_at cliff cc cp ct crv mode ref]"
    using eqs(5) by (simp add: w' emit_stream_created_def s_def opened_stream_def)
  have rng: "in_i128 (pooled_balance w tkn + deposit)"
  proof -
    obtain ts where "credit_pool e tkn deposit ((extend_instance e w)\<lparr>token_state := ts\<rparr>) = Inr w1"
      using pull by (auto elim: pull_deposit_Inr)
    moreover have "pooled_balance ((extend_instance e w)\<lparr>token_state := ts\<rparr>) = pooled_balance w" for ts
      using view_token_state [of ts "extend_instance e w"] by (simp add: view_def)
    ultimately show ?thesis using credit_pool_view(2) by metis
  qed
  have "ledger_of w' = (ledger_of w)\<lparr>l_streams := (lookup_stream w)(next_id w \<mapsto> s),
      l_pool := (pooled_balance w)(token s := pooled_balance w (token s) + deposited s),
      l_next := next_id w + 1\<rparr>"
    using l n pb i(1) by (simp add: ledger_of_def s_def)
  then have "ledger_step now (ledger_of w) (ledger_of w')"
    using ledger_step.ledger_open [of s "ledger_of w" now] op i(2) rng by (simp add: s_def)
  with ct n c show "settles now w w'" by (auto simp: settles_def counters_agree_def)
qed

lemmas create_stream_inner_effect = create_stream_inner_fresh [OF sound_fresh_id]

lemma create_stream_inner_token:
  assumes inv: "sound_world now w"
    and run: "create_stream_inner tk e a b tkn deposit start end_at cliff mode cc cp ct ref crv w = Inr (i, w')"
  shows "try_transfer tk (token_state w) tkn a (contract_address e) deposit = (TryOk, token_state w')"
  using run
proof (rule create_stream_inner_Inr)
  let ?s = "opened_stream a b tkn deposit start end_at cliff mode cc cp ct ref crv"
  fix w1 w2
  assume i: "i = next_id w" and pull: "pull_deposit tk e tkn a deposit (extend_instance e w) = Inr w1"
    and save: "save_stream e i ?s w1 = Inr w2"
    and w': "w' = emit_stream_created i ?s (extend_instance e w2)"
  have "lookup_stream w1 i = None"
    using pull_deposit_fields(5) [OF pull] sound_worldD(2) [OF inv, of i] i by simp
  then have "token_state w' = token_state w1"
    using save_stream_new(1) [OF save] by (simp add: w' emit_stream_created_def view_def)
  moreover obtain ts where "try_transfer tk (token_state w) tkn a (contract_address e) deposit = (TryOk, ts)"
    "credit_pool e tkn deposit ((extend_instance e w)\<lparr>token_state := ts\<rparr>) = Inr w1"
    using pull by (auto elim: pull_deposit_Inr)
  ultimately show ?thesis using ledger_credit_pool(5) by fastforce
qed

text \<open>What every creation keeps, the loop over the requests keeps.\<close>

lemma create_all_chain:
  assumes "create_all tk e a requests w = Inr (ids, w')" "sound_world now w"
    and rel: "\<And>v. R v v" "\<And>x y z. R x y \<Longrightarrow> R y z \<Longrightarrow> R x z"
    and create: "\<And>v b tkn n st en cl m cc cp ct ref crv i v'. sound_world now v \<Longrightarrow>
      create_stream_inner tk e a b tkn n st en cl m cc cp ct ref crv v = Inr (i, v') \<Longrightarrow> R v v'"
  shows "R w w'"
  using assms(1,2)
proof (induction requests arbitrary: w ids)
  case Nil
  then show ?case by (simp add: rel(1))
next
  case (Cons request requests)
  then obtain i w1 js where run: "create_request tk e a request w = Inr (i, w1)"
    "create_all tk e a requests w1 = Inr (js, w')"
    by auto
  note one = run(1) [unfolded create_request_def create_stream_unchecked_def]
  have "sound_world now w1" using create_stream_inner_effect(9) [OF Cons.prems(2) one] Cons.prems(2) by (rule settles_sound)
  with create [OF Cons.prems(2) one] Cons.IH [OF run(2)] show ?case by (blast intro: rel(2))
qed

lemma create_all_settles:
  assumes "sound_world now w" "create_all tk e a requests w = Inr (ids, w')"
  shows "settles now w w'"
  using assms(2,1)
  by (rule create_all_chain) (auto intro: settles_refl settles_trans create_stream_inner_effect(9))

text \<open>What a batched creation leaves behind.\<close>

definition stream_of_request :: "address \<Rightarrow> batch_create_request \<Rightarrow> stream" where
  "stream_of_request a r = opened_stream a (req_recipient r) (req_token r) (req_deposit r) (req_start_time r)
     (req_end_time r) (req_cliff_time r) DEFAULT_cliff_mode (req_cancellable r) (req_pausable r)
     (req_transferable r) None Linear"

lemma create_request_effect:
  assumes "sound_world now w" "create_request tk e a r w = Inr (i, w')"
  shows "i = next_id w" "lookup_stream w' = (lookup_stream w)(i \<mapsto> stream_of_request a r)" "next_id w' = i + 1"
    "pooled_balance w' tkn = pooled_balance w tkn + (if req_token r = tkn then req_deposit r else 0)"
    "sound_world now w'" "lookup_stream w i = None"
proof -
  have run: "create_stream_inner tk e a (req_recipient r) (req_token r) (req_deposit r) (req_start_time r)
     (req_end_time r) (req_cliff_time r) DEFAULT_cliff_mode (req_cancellable r) (req_pausable r)
     (req_transferable r) None Linear w = Inr (i, w')"
    using assms(2) by (simp add: create_request_def create_stream_unchecked_def)
  note eff = create_stream_inner_effect [OF assms(1) run]
  show "i = next_id w" "lookup_stream w' = (lookup_stream w)(i \<mapsto> stream_of_request a r)" "next_id w' = i + 1"
    using eff(1,3,5) by (simp_all add: stream_of_request_def)
  show "pooled_balance w' tkn = pooled_balance w tkn + (if req_token r = tkn then req_deposit r else 0)"
    using eff(4) by simp
  show "sound_world now w'" using eff(9) assms(1) by (rule settles_sound)
  show "lookup_stream w i = None" using sound_worldD(2) [OF assms(1), of i] eff(1) by simp
qed

lemma create_all_effect:
  assumes "sound_world now w" "create_all tk e a rs w = Inr (ids, w')"
  shows "ids = map (\<lambda>k. next_id w + of_nat k) [0..<length rs] \<and>
    next_id w' = next_id w + of_nat (length rs) \<and>
    pooled_balance w' tkn = pooled_balance w tkn + (\<Sum>r\<leftarrow>rs. if req_token r = tkn then req_deposit r else 0) \<and>
    (\<forall>j s. lookup_stream w j = Some s \<longrightarrow> lookup_stream w' j = Some s) \<and>
    (\<forall>k<length rs. lookup_stream w' (ids ! k) = Some (stream_of_request a (rs ! k)))"
  using assms
proof (induction rs arbitrary: w ids)
  case (Cons r rs)
  obtain i w1 js where one: "create_request tk e a r w = Inr (i, w1)"
    and rest: "create_all tk e a rs w1 = Inr (js, w')" and ids: "ids = i # js"
    using Cons.prems(2) by auto
  note eff = create_request_effect [OF Cons.prems(1) one]
  note IH = Cons.IH [OF eff(5) rest]
  have kth: "lookup_stream w' (js ! k) = Some (stream_of_request a (rs ! k))" if "k < length rs" for k
    using IH that by blast
  have old: "lookup_stream w' j = Some s" if "lookup_stream w1 j = Some s" for j s using IH that by blast
  have "js = map (\<lambda>k. next_id w + of_nat k) [1..<length (r # rs)]"
    using IH eff(1,3) by (simp add: map_Suc_upt [symmetric] o_def add_ac del: upt_Suc)
  then have "ids = map (\<lambda>k. next_id w + of_nat k) [0..<length (r # rs)]"
    using eff(1) ids by (simp add: upt_rec [of 0] del: upt_Suc)
  moreover have "lookup_stream w' (ids ! k) = Some (stream_of_request a ((r # rs) ! k))" if "k < length (r # rs)" for k
    using that kth old [of i] eff(2) by (cases k) (simp_all add: ids)
  moreover have "lookup_stream w' j = Some s" if "lookup_stream w j = Some s" for j s
    using that old eff(2,6) by (cases "j = i") simp_all
  moreover have "next_id w' = next_id w + of_nat (length (r # rs))" using IH eff(1,3) by (simp add: add_ac)
  moreover have "pooled_balance w' tkn = pooled_balance w tkn +
      (\<Sum>r\<leftarrow>r # rs. if req_token r = tkn then req_deposit r else 0)" using IH eff(4) by simp
  ultimately show ?case by blast
qed simp

section \<open>The entry points keep the contract\<close>

lemma create_gate [simp]:
  "create_stream_with_cliff_mode tk e a b tkn deposit start end_at cliff mode cc cp ct ref w = Inr (i, w') \<longleftrightarrow>
     \<not> is_halted w \<and> authorized e a \<and>
     create_stream_inner tk e a b tkn deposit start end_at cliff mode cc cp ct ref Linear w = Inr (i, w')"
  "create_stream_with_curve tk e a b tkn deposit start end_at cliff cc cp ct crv w = Inr (i, w') \<longleftrightarrow>
     \<not> is_halted w \<and> authorized e a \<and>
     create_stream_inner tk e a b tkn deposit start end_at cliff DEFAULT_cliff_mode cc cp ct None crv w = Inr (i, w')"
  "batch_create tk e a requests w = Inr (ids, w') \<longleftrightarrow>
     \<not> is_halted w \<and> requests \<noteq> [] \<and> length requests \<le> 16 \<and> authorized e a \<and>
     validate_requests a requests = Inr () \<and> create_all tk e a requests w = Inr (ids, w')"
  by (auto simp: create_stream_with_cliff_mode_def create_stream_with_curve_def batch_create_def
      MAX_BATCH_SIZE_def)

interpretation create: halting_settlement
  "\<lambda>e. create_stream_with_cliff_mode tk e a b tkn deposit start end_at cliff mode cc cp ct ref"
  for tk a b tkn deposit start end_at cliff mode cc cp ct ref
  by unfold_locales (auto dest: create_stream_inner_effect(9) simp: create_stream_with_cliff_mode_def
      require_not_halted_def)

interpretation create_curve: halting_settlement
  "\<lambda>e. create_stream_with_curve tk e a b tkn deposit start end_at cliff cc cp ct crv"
  for tk a b tkn deposit start end_at cliff cc cp ct crv
  by unfold_locales (auto dest: create_stream_inner_effect(9) simp: create_stream_with_curve_def
      require_not_halted_def)

interpretation create_batch: halting_settlement "\<lambda>e. batch_create tk e a requests" for tk a requests
  by unfold_locales (auto dest: create_all_settles simp: batch_create_def require_not_halted_def)

end
