(* ===== verification/Settlement.thy ===== *)
theory Settlement
  imports Operation Creation
begin

text \<open>
  The entry points of \<^verbatim>\<open>contracts/stream/src/lib.rs\<close> that move funds of existing streams:
  \<open>top_up\<close>, \<open>withdraw\<close>, \<open>cancel\<close>, \<open>reclaim_dust\<close>, and the bodies they share with
  their delegated and batched forms (\<open>apply_withdrawal\<close>, \<open>quote_cancel\<close>,
  \<open>settle_cancel\<close>, \<open>top_up_duration_delta\<close>).
\<close>

section \<open>The code\<close>

subsection \<open>Top-up\<close>

definition top_up_duration_delta :: "stream \<Rightarrow> int \<Rightarrow> int \<Rightarrow> int result" where
  "top_up_duration_delta s amount current_duration =
     (case curve s of
        Linear \<Rightarrow>
          and_then (ok_or (Err Overflow) (checked_mul_i128 amount current_duration)) (\<lambda>scaled.
          and_then (ok_or (Err Overflow) (checked_div_i128 scaled (deposited s))) (\<lambda>delta.
          if delta < 0 \<or> delta > u64_max then Inl (Err Overflow)
          else if delta = 0 then Inl (Err TopUpTooSmall)
          else Inr delta))
      | Step \<Rightarrow> Inr 0
      | FrontLoaded \<Rightarrow> Inr 0)"

definition top_up :: "'t token_iface \<Rightarrow> env \<Rightarrow> u64 \<Rightarrow> int \<Rightarrow> 't world \<Rightarrow> (unit \<times> 't world) result" where
  "top_up tk e stream_id amount w =
     and_then (require_not_halted w) (\<lambda>_.
     and_then (load_stream e w stream_id) (\<lambda>(s, w1).
     and_then (require_auth e (sender s)) (\<lambda>_.
     if is_terminal (status s) then Inl (Err StreamTerminated)
     else if amount \<le> 0 then Inl (Err InvalidAmount)
     else
       let now = timestamp e in
       if stream_time s now \<ge> end_time s then Inl (Err StreamMatured)
       else
         let current_duration = uint (duration s) in
         and_then (top_up_duration_delta s amount current_duration) (\<lambda>delta.
         and_then (ok_or (Err Overflow) (checked_add_i128 (deposited s) amount)) (\<lambda>new_deposited.
         and_then (ok_or (Err Overflow) (checked_add_u64 (end_time s) (word_of_int delta))) (\<lambda>new_end.
         and_then (ok_or (Err Overflow) (checked_sub_u64 new_end (start_time s))) (\<lambda>new_duration.
         and_then (ok_or (Err Overflow) (checked_mul_i128 new_deposited (uint new_duration))) (\<lambda>_.
         if new_deposited < uint new_duration then Inl (Err DepositRateTooLow)
         else
           and_then (vested s now) (\<lambda>old_vested.
           let s' = s\<lparr>deposited := new_deposited, end_time := new_end\<rparr> in
           and_then (vested s' now) (\<lambda>new_vested.
           if new_vested < old_vested then Inl (Err VestedDecreased)
           else
             and_then (pull_deposit tk e (token s') (sender s') amount w1) (\<lambda>w2.
             and_then (verify_pool_balance tk e (token s') w2) (\<lambda>_.
             and_then (save_stream e stream_id s' w2) (\<lambda>w3.
             and_then (emit_topped_up stream_id s' amount w3) (\<lambda>w4.
             Inr ((), w4)))))))))))))))"

subsection \<open>Withdrawal\<close>

text \<open>The accounting half of \<open>apply_withdrawal\<close>, before anything is stored.\<close>

definition book_withdrawal :: "env \<Rightarrow> stream \<Rightarrow> int \<Rightarrow> stream result" where
  "book_withdrawal e s payout =
     and_then (ok_or (Err Overflow) (checked_add_i128 (withdrawn s) payout)) (\<lambda>new_withdrawn.
     let s1 = s\<lparr>withdrawn := new_withdrawn\<rparr> in
     if withdrawn s1 \<ge> deposited s1 \<and> status s1 \<noteq> Cancelled
     then
       let s2 = s1\<lparr>status := Depleted\<rparr> in
       (case paused_at s2 of
          None \<Rightarrow> Inr s2
        | Some p \<Rightarrow>
            let now = timestamp e in
            and_then (ok_or (Err Overflow)
              (checked_add_u64 (paused_total s2) (saturating_sub_u64 now p))) (\<lambda>new_total.
            Inr (s2\<lparr>paused_total := new_total, paused_at := None\<rparr>)))
     else Inr s1)"

definition apply_withdrawal ::
    "'t token_iface \<Rightarrow> env \<Rightarrow> u64 \<Rightarrow> stream \<Rightarrow> int \<Rightarrow> 't world \<Rightarrow> (stream \<times> 't world) result" where
  "apply_withdrawal tk e stream_id s payout w =
     and_then (book_withdrawal e s payout) (\<lambda>s'.
     and_then (debit_pool e (token s') payout w) (\<lambda>w1.
     and_then (save_stream e stream_id s' w1) (\<lambda>w2.
     and_then (token_transfer tk (token s') (contract_address e) (recipient s') payout w2) (\<lambda>w3.
     and_then (emit_withdrawn stream_id s' payout w3) (\<lambda>w4.
     Inr (s', w4))))))"

definition withdraw ::
    "'t token_iface \<Rightarrow> env \<Rightarrow> u64 \<Rightarrow> int option \<Rightarrow> 't world \<Rightarrow> (int \<times> 't world) result" where
  "withdraw tk e stream_id amount w =
     and_then (require_not_halted w) (\<lambda>_.
     and_then (load_stream e w stream_id) (\<lambda>(s, w1).
     and_then (require_auth e (recipient s)) (\<lambda>_.
     let now = timestamp e in
     and_then (withdrawable s now) (\<lambda>available.
     if available = 0 then
       (if is_terminal (status s) then Inl (Err StreamTerminated) else Inl (Err NothingToWithdraw))
     else
       and_then
         (case amount of
            None \<Rightarrow> Inr available
          | Some requested \<Rightarrow>
              if requested \<le> 0 then Inl (Err InvalidAmount)
              else if requested > available then Inl (Err InsufficientWithdrawable)
              else Inr requested) (\<lambda>payout.
       and_then (apply_withdrawal tk e stream_id s payout w1) (\<lambda>(s', w2).
       and_then (verify_pool_balance tk e (token s') w2) (\<lambda>_.
       Inr (payout, w2))))))))"

subsection \<open>Cancellation\<close>

definition quote_cancel :: "stream \<Rightarrow> u64 \<Rightarrow> (int \<times> int) result" where
  "quote_cancel s now =
     (if \<not> cancellable s then Inl (Err NotCancellable)
      else if is_terminal (status s) then Inl (Err StreamTerminated)
      else
        and_then (vested s now) (\<lambda>vested_now.
        and_then (refundable s now) (\<lambda>refund.
        Inr (vested_now, refund))))"

definition settle_cancel ::
    "'t token_iface \<Rightarrow> env \<Rightarrow> u64 \<Rightarrow> stream \<Rightarrow> u64 \<Rightarrow> int \<Rightarrow> int \<Rightarrow> 't world \<Rightarrow> 't world result" where
  "settle_cancel tk e stream_id s now vested_now refund w =
     (let settle_at = max (stream_time s now) (start_time s);
          s' = s\<lparr>deposited := vested_now, end_time := settle_at, paused_at := None,
                 status := Cancelled\<rparr>
      in
        and_then (save_stream e stream_id s' w) (\<lambda>w1.
        and_then
          (if refund > 0
           then and_then (debit_pool e (token s') refund w1) (\<lambda>w2.
                token_transfer tk (token s') (contract_address e) (sender s') refund w2)
           else Inr w1) (\<lambda>w3.
        and_then (verify_pool_balance tk e (token s') w3) (\<lambda>_.
        Inr (emit_cancelled stream_id s' refund w3)))))"

definition cancel :: "'t token_iface \<Rightarrow> env \<Rightarrow> u64 \<Rightarrow> 't world \<Rightarrow> (unit \<times> 't world) result" where
  "cancel tk e stream_id w =
     and_then (require_not_halted w) (\<lambda>_.
     and_then (load_stream e w stream_id) (\<lambda>(s, w1).
     and_then (require_auth e (sender s)) (\<lambda>_.
     let now = timestamp e in
     and_then (quote_cancel s now) (\<lambda>(vested_now, refund).
     and_then (settle_cancel tk e stream_id s now vested_now refund w1) (\<lambda>w2.
     Inr ((), w2))))))"

subsection \<open>Dust\<close>

definition reclaim_dust :: "'t token_iface \<Rightarrow> env \<Rightarrow> u64 \<Rightarrow> 't world \<Rightarrow> (int \<times> 't world) result" where
  "reclaim_dust tk e stream_id w =
     and_then (load_stream e w stream_id) (\<lambda>(s, w1).
     and_then (require_auth e (sender s)) (\<lambda>_.
     if \<not> is_terminal (status s) then Inr (0, w1)
     else
       let now = timestamp e in
       and_then (liability s) (\<lambda>owing.
       and_then (withdrawable s now) (\<lambda>recipient_claim.
       and_then (ok_or (Err Overflow) (checked_sub_i128 owing recipient_claim)) (\<lambda>amount.
       if amount > 0 then
         and_then (ok_or (Err Overflow) (checked_sub_i128 (deposited s) amount)) (\<lambda>new_deposited.
         let s' = s\<lparr>deposited := new_deposited\<rparr> in
         and_then (save_stream e stream_id s' w1) (\<lambda>w2.
         and_then (token_transfer tk (token s') (contract_address e) (sender s') amount w2) (\<lambda>w3.
         Inr (amount, w3))))
       else Inr (amount, w1))))))"

section \<open>Withdrawals\<close>

text \<open>On a well-formed stream the booking cannot fail and is the abstract payment.\<close>

lemma book_withdrawal_eq:
  assumes "wf_stream now s" "timestamp e = now" "0 < payout" "payout \<le> vested_amount s now - withdrawn s"
  shows "book_withdrawal e s payout = Inr (paid_stream now payout s)"
proof -
  note wf = wf_streamD [OF assms(1)]
  have r: "in_i128 (withdrawn s + payout)" using assms(3,4) wf(2,6,9) by (simp add: in_i128_nonneg)
  show ?thesis
  proof (cases "withdrawn s + payout \<ge> deposited s \<and> status s \<noteq> Cancelled")
    case False
    then consider "withdrawn s + payout < deposited s" | "status s = Cancelled" by linarith
    then show ?thesis
      by cases (simp_all add: r book_withdrawal_def paid_stream_def checked_add_i128_def Let_def)
  next
    case True
    show ?thesis
    proof (cases "paused_at s")
      case None
      with True r show ?thesis
        by (simp add: book_withdrawal_def paid_stream_def settle_pause_def checked_add_i128_def Let_def)
    next
      case (Some p)
      have p: "p \<le> now" "paused_total s \<le> p" using wf(4) Some by (simp_all add: pause_ok_def)
      then have sub: "saturating_sub_u64 now p = now - p" by (auto simp: saturating_sub_u64_def)
      have "uint (paused_total s) + uint (now - p) \<le> uint now"
        using p by (simp add: uint_diff_u64 word_le_def)
      then have "uint (paused_total s) + uint (now - p) \<le> u64_max"
        using uint_u64_bounds(2) by (rule order_trans)
      then have "checked_add_u64 (paused_total s) (now - p) = Some (paused_total s + (now - p))"
        by (simp add: checked_add_u64_def)
      with True r Some sub assms(2) show ?thesis
        by (simp add: book_withdrawal_def paid_stream_def settle_pause_def checked_add_i128_def Let_def
            del: checked_add_u64_Some)
    qed
  qed
qed


definition withdrawn_event :: "u64 \<Rightarrow> stream \<Rightarrow> int \<Rightarrow> event" where
  "withdrawn_event i s amount = WithdrawnEvent i (recipient s) amount (withdrawn s) (deposited s)
     (status s) (sender s) (paused_at s) (paused_total s)"

lemma apply_withdrawal_effect:
  assumes so: "sound (timestamp e) s" and s: "lookup_stream w i = Some s"
    and pay: "0 < payout" "payout \<le> vested_amount s (timestamp e) - withdrawn s"
    and run: "apply_withdrawal tk e i s payout w = Inr (s', w')"
  shows "s' = paid_stream (timestamp e) payout s"
    "lookup_stream w' = (lookup_stream w)(i \<mapsto> s')"
    "pooled_balance w' = (pooled_balance w)(token s := pooled_balance w (token s) - payout)"
    "events w' = events w @ [withdrawn_event i s' payout]"
    "\<exists>ts. try_transfer tk (token_state w) (token s) (contract_address e) (recipient s) payout = (TryOk, ts)
        \<and> token_state w' = ts"
    "settles (timestamp e) w w'"
    "next_id w' = next_id w" "control_of w' = control_of w" "counters_agree w' = counters_agree w"
    "in_i128 (pooled_balance w (token s) - payout)" "owed_by s' - owed_by s = - payout"
proof -
  let ?p = "paid_stream (timestamp e) payout s"
  note book = book_withdrawal_eq [OF free_withdraw(1) [OF so pay] refl pay]
  obtain w1 w2 w3 where s': "s' = ?p"
    and d: "debit_pool e (token s) payout w = Inr w1"
    and v: "save_stream e i ?p w1 = Inr w2"
    and t: "token_transfer tk (token s) (contract_address e) (recipient s) payout w2 = Inr w3"
    and w': "w' = publish (withdrawn_event i ?p payout) w3"
    using run pay(1) by (auto simp: apply_withdrawal_def book withdrawn_event_def)
  note dd = ledger_debit_pool [OF d]
  have "lookup_stream w1 i \<noteq> None" using dd(6) s by simp
  note vv = ledger_save_stream [OF v this]
  note tt = token_transfer_fields [OF t]
  obtain ts where ts: "try_transfer tk (token_state w2) (token s) (contract_address e) (recipient s) payout
      = (TryOk, ts)" "w3 = w2\<lparr>token_state := ts\<rparr>"
    using t by (auto simp: token_transfer_Inr)
  show rng: "in_i128 (pooled_balance w (token s) - payout)"
    using debit_pool_view(2) [OF d] by simp
  show "s' = ?p" by (rule s')
  show l: "lookup_stream w' = (lookup_stream w)(i \<mapsto> s')"
    and p: "pooled_balance w' = (pooled_balance w)(token s := pooled_balance w (token s) - payout)"
    and "events w' = events w @ [withdrawn_event i s' payout]"
    using dd vv tt by (simp_all add: w' s')
  show "\<exists>ts. try_transfer tk (token_state w) (token s) (contract_address e) (recipient s) payout = (TryOk, ts)
        \<and> token_state w' = ts"
    using ts dd(5) vv(5) by (simp add: w')
  show o: "owed_by s' - owed_by s = - payout" by (simp add: owed_by_def s')
  show n: "next_id w' = next_id w"
    using debit_pool_view(1) [OF d] save_stream_fields(3) [OF v] tt dd(6) s by (simp add: w' view_def)
  show c: "control_of w' = control_of w" "counters_agree w' = counters_agree w"
    using dd vv tt by (simp_all add: w')
  show "settles (timestamp e) w w'"
  proof (rule settles_act [OF s])
    show "stream_step (timestamp e) s s'" unfolding s' using pay by (rule step_withdraw)
  qed (use o l p n c rng in simp_all)
qed

text \<open>And it can only fail in the token.\<close>

lemma apply_withdrawal_total:
  fixes w :: "'t world"
  assumes inv: "sound_world (timestamp e) w" and nn: "0 \<le> pooled_balance w (token s)" and s: "lookup_stream w i = Some s"
    and pay: "0 < payout" "payout \<le> vested_amount s (timestamp e) - withdrawn s"
  obtains w2 where "token_state w2 = token_state w"
    "apply_withdrawal tk e i s payout w =
       and_then (token_transfer tk (token s) (contract_address e) (recipient s) payout w2) (\<lambda>w3.
       Inr (paid_stream (timestamp e) payout s,
            publish (withdrawn_event i (paid_stream (timestamp e) payout s) payout) w3))"
proof -
  let ?p = "paid_stream (timestamp e) payout s"
  have so: "sound (timestamp e) s" using inv s by (rule sound_worldD(1))
  have wf: "wf_stream (timestamp e) s" using so pay by (rule free_withdraw(1))
  note book = book_withdrawal_eq [OF wf refl pay]
  have "in_i128 (pooled_balance w (token s) - payout)"
    using pay soundD(2,6,7) [OF so] by (intro debit_range [OF inv nn]) simp_all
  then obtain w1 where d: "debit_pool e (token s) payout w = Inr w1"
    using debit_pool_total by blast
  have ex: "lookup_stream w1 i \<noteq> None" using ledger_debit_pool(6) [OF d] s by simp
  then obtain w2 where v: "save_stream e i ?p w1 = Inr w2" using save_stream_existing by blast
  have "token_state w2 = token_state w"
    using ledger_save_stream(5) [OF v ex] ledger_debit_pool(5) [OF d] by simp
  moreover have "emit_withdrawn i ?p payout w3 = Inr (publish (withdrawn_event i ?p payout) w3)"
    for w3 :: "'t world" using pay(1) by (simp add: emit_withdrawn_def withdrawn_event_def)
  ultimately show thesis
    using that [of w2] by (simp add: apply_withdrawal_def book d v del: emit_withdrawn_Inr)
qed

text \<open>The requested amount of a withdrawal, checked against what is available.\<close>

lemma withdraw_Inr:
  assumes inv: "sound_world (timestamp e) w" and run: "withdraw tk e i amount w = Inr (payout, w')"
  obtains s where
    "lookup_stream w i = Some s" "\<not> is_halted w" "authorized e (recipient s)"
    "0 < payout" "payout \<le> vested_amount s (timestamp e) - withdrawn s"
    "amount = None \<Longrightarrow> payout = vested_amount s (timestamp e) - withdrawn s"
    "amount \<noteq> None \<Longrightarrow> amount = Some payout"
    "apply_withdrawal tk e i s payout (extend_stream e i s w) =
       Inr (paid_stream (timestamp e) payout s, w')"
    "\<exists>actual. token_balance tk (token_state w') (token s) (contract_address e) = Some actual \<and>
       pooled_balance w' (token s) \<le> actual"
proof -
  obtain s where s: "lookup_stream w i = Some s"
    using run by (auto simp: withdraw_def)
  have so: "sound (timestamp e) s" using inv s by (rule sound_worldD(1))
  note avail = sound_readings(1) [OF so]
  obtain s' where *: "\<not> is_halted w" "authorized e (recipient s)"
    "0 < vested_amount s (timestamp e) - withdrawn s"
    "case amount of None \<Rightarrow> payout = vested_amount s (timestamp e) - withdrawn s
       | Some requested \<Rightarrow> 0 < requested \<and> requested \<le> vested_amount s (timestamp e) - withdrawn s
           \<and> payout = requested"
    "apply_withdrawal tk e i s payout (extend_stream e i s w) = Inr (s', w')"
    "verify_pool_balance tk e (token s') w' = Inr ()"
    using run s avail by (auto simp: withdraw_def Let_def not_le not_less max_def split: option.splits if_splits)
  have pay: "0 < payout" "payout \<le> vested_amount s (timestamp e) - withdrawn s"
    using *(3,4) by (auto split: option.splits)
  have "s' = paid_stream (timestamp e) payout s"
    using apply_withdrawal_effect(1) [OF so _ pay *(5)] s by simp
  with * s pay show thesis by (intro that) (auto split: option.splits)
qed


lemma extend_stream_inv [simp]:
  "world_inv now (extend_stream e i s w) = world_inv now w"
  "sound_world now (extend_stream e i s w) = sound_world now w"
  by (simp_all add: world_inv_def sound_world_def)

lemma settles_extend_stream: "settles now (extend_stream e i s w) w' = settles now w w'"
  by (simp add: settles_def)

interpretation withdraw: halting_settlement "\<lambda>e. withdraw tk e i amount" for tk i amount
proof
  show "settles (timestamp e) w w'"
    if "sound_world (timestamp e) w" "withdraw tk e i amount w = Inr (r, w')" for e w r w'
    using that
  proof (rule withdraw_Inr)
    fix s
    assume "lookup_stream w i = Some s" "0 < r" "r \<le> vested_amount s (timestamp e) - withdrawn s"
      "apply_withdrawal tk e i s r (extend_stream e i s w) = Inr (paid_stream (timestamp e) r s, w')"
    then show ?thesis
      using apply_withdrawal_effect(6) [of e s "extend_stream e i s w" i r] sound_worldD(1) [OF that(1)]
      by (simp add: settles_extend_stream)
  qed
qed (simp add: withdraw_def require_not_halted_def)

section \<open>Cancellations\<close>

lemma quote_cancel_ok:
  assumes "vest_ok s now"
  shows "quote_cancel s now =
    (if \<not> cancellable s then Inl (Err NotCancellable)
     else if is_terminal (status s) then Inl (Err StreamTerminated)
     else Inr (vested_amount s now, deposited s - vested_amount s now))"
  by (simp add: quote_cancel_def vested_total(1) [OF assms] refundable_eq [OF assms])

definition cancelled_event :: "u64 \<Rightarrow> stream \<Rightarrow> int \<Rightarrow> event" where
  "cancelled_event i s refund = CancelledEvent i (sender s) (recipient s) refund (deposited s)
     (withdrawn s) (end_time s) (paused_at s) (paused_total s)"

text \<open>The refund leg of a cancellation: the pool is debited and the token called, or neither.\<close>

lemma refund_effect:
  assumes out: "(if refund > 0
           then and_then (debit_pool e tkn refund w1) (\<lambda>w2.
                token_transfer tk tkn (contract_address e) payee refund w2)
           else Inr w1) = Inr w3" and nn: "0 \<le> refund"
  shows "lookup_stream w3 = lookup_stream w1" "control_of w3 = control_of w1"
    "counters_agree w3 = counters_agree w1" "events w3 = events w1" "next_id w3 = next_id w1"
    "pooled_balance w3 = (pooled_balance w1)(tkn := pooled_balance w1 tkn - refund)"
    "refund = 0 \<and> token_state w3 = token_state w1 \<or>
       try_transfer tk (token_state w1) tkn (contract_address e) payee refund = (TryOk, token_state w3)"
proof -
  consider w2 where "refund > 0" "debit_pool e tkn refund w1 = Inr w2"
      "token_transfer tk tkn (contract_address e) payee refund w2 = Inr w3"
    | "refund = 0" "w3 = w1"
    using out nn by (cases "refund > 0") auto
  then have "lookup_stream w3 = lookup_stream w1 \<and> control_of w3 = control_of w1 \<and>
      counters_agree w3 = counters_agree w1 \<and> events w3 = events w1 \<and> next_id w3 = next_id w1 \<and>
      pooled_balance w3 = (pooled_balance w1)(tkn := pooled_balance w1 tkn - refund) \<and>
      (refund = 0 \<and> token_state w3 = token_state w1 \<or>
       try_transfer tk (token_state w1) tkn (contract_address e) payee refund = (TryOk, token_state w3))"
  proof cases
    case 1
    then show ?thesis
      using ledger_debit_pool [OF 1(2)] token_transfer_fields [OF 1(3)]
      by (auto simp: ledger_of_def token_transfer_Inr)
  next
    case 2
    then show ?thesis by simp
  qed
  then show "lookup_stream w3 = lookup_stream w1" "control_of w3 = control_of w1"
    "counters_agree w3 = counters_agree w1" "events w3 = events w1" "next_id w3 = next_id w1"
    "pooled_balance w3 = (pooled_balance w1)(tkn := pooled_balance w1 tkn - refund)"
    "refund = 0 \<and> token_state w3 = token_state w1 \<or>
       try_transfer tk (token_state w1) tkn (contract_address e) payee refund = (TryOk, token_state w3)"
    by blast+
qed

text \<open>
  A settlement needs no more of the stream than that its readings answer: the cancelled stream is
  saved, the pool is debited by the refund and keeps its range, and the sender is paid it.
\<close>

lemma settle_cancel_outcome:
  assumes ok: "vest_ok s (timestamp e)" and s: "lookup_stream w i = Some s"
    and q: "quote_cancel s (timestamp e) = Inr (vn, refund)"
    and run: "settle_cancel tk e i s (timestamp e) vn refund w = Inr w'"
  shows "vn = vested_amount s (timestamp e)" "refund = deposited s - vn" "0 \<le> refund"
    "cancellable s" "\<not> is_terminal (status s)"
    "lookup_stream w' = (lookup_stream w)(i \<mapsto> cancelled_stream (timestamp e) s)"
    "pooled_balance w' = (pooled_balance w)(token s := pooled_balance w (token s) - refund)"
    "events w' = events w @ [cancelled_event i (cancelled_stream (timestamp e) s) refund]"
    "next_id w' = next_id w" "control_of w' = control_of w" "counters_agree w' = counters_agree w"
    "refund = 0 \<and> token_state w' = token_state w \<or>
       try_transfer tk (token_state w) (token s) (contract_address e) (sender s) refund = (TryOk, token_state w')"
    "in_i128 (pooled_balance w (token s)) \<Longrightarrow> in_i128 (pooled_balance w (token s) - refund)"
    "owed_by (cancelled_stream (timestamp e) s) - owed_by s = - refund"
proof -
  let ?c = "cancelled_stream (timestamp e) s"
  show "cancellable s" "\<not> is_terminal (status s)"
    and v: "vn = vested_amount s (timestamp e)" and r: "refund = deposited s - vn"
    using q by (auto simp: quote_cancel_ok [OF ok] split: if_splits)
  show nn: "0 \<le> refund" using vested_total(3) [OF ok] v r by simp
  have c: "s\<lparr>deposited := vn, end_time := max (stream_time s (timestamp e)) (start_time s),
      paused_at := None, status := Cancelled\<rparr> = ?c"
    by (simp add: cancelled_stream_def v)
  have tok: "token ?c = token s" "sender ?c = sender s" by (simp_all add: cancelled_stream_def)
  obtain w1 w3 where sv: "save_stream e i ?c w = Inr w1"
    and out: "(if refund > 0
           then and_then (debit_pool e (token s) refund w1) (\<lambda>w2.
                token_transfer tk (token s) (contract_address e) (sender s) refund w2)
           else Inr w1) = Inr w3"
    and w': "w' = publish (cancelled_event i ?c refund) w3"
    using run unfolding settle_cancel_def Let_def c tok
    by (auto simp: emit_cancelled_def cancelled_event_def simp del: verify_pool_balance_Inr)
  have "lookup_stream w i \<noteq> None" using s by simp
  note vv = ledger_save_stream [OF sv this]
  have n1: "next_id w1 = next_id w" using vv(1) by (simp add: ledger_of_def)
  note o = refund_effect [OF out nn]
  show "lookup_stream w' = (lookup_stream w)(i \<mapsto> ?c)"
    "pooled_balance w' = (pooled_balance w)(token s := pooled_balance w (token s) - refund)"
    "events w' = events w @ [cancelled_event i ?c refund]"
    "next_id w' = next_id w" "control_of w' = control_of w" "counters_agree w' = counters_agree w"
    using o vv n1 by (simp_all add: w')
  have "token_state w' = token_state w3" by (simp add: w')
  then show "refund = 0 \<and> token_state w' = token_state w \<or>
       try_transfer tk (token_state w) (token s) (contract_address e) (sender s) refund = (TryOk, token_state w')"
    using o vv(5) by simp
  show "owed_by ?c - owed_by s = - refund" by (simp add: owed_by_def cancelled_stream_def r v)
  show "in_i128 (pooled_balance w (token s) - refund)" if "in_i128 (pooled_balance w (token s))"
  proof (cases "refund > 0")
    case True
    then obtain w2 where "debit_pool e (token s) refund w1 = Inr w2" using out by auto
    then show ?thesis using debit_pool_view(2) vv(7) by metis
  next
    case False
    with that nn show ?thesis by simp
  qed
qed

lemma settle_cancel_effect:
  assumes inv: "sound_world (timestamp e) w" and s: "lookup_stream w i = Some s"
    and q: "quote_cancel s (timestamp e) = Inr (vn, refund)"
    and run: "settle_cancel tk e i s (timestamp e) vn refund w = Inr w'"
  shows "vn = vested_amount s (timestamp e)" "refund = deposited s - vn" "0 \<le> refund"
    "lookup_stream w' = (lookup_stream w)(i \<mapsto> cancelled_stream (timestamp e) s)"
    "pooled_balance w' = (pooled_balance w)(token s := pooled_balance w (token s) - refund)"
    "events w' = events w @ [cancelled_event i (cancelled_stream (timestamp e) s) refund]"
    "settles (timestamp e) w w'"
    "refund = 0 \<and> token_state w' = token_state w \<or>
       try_transfer tk (token_state w) (token s) (contract_address e) (sender s) refund = (TryOk, token_state w')"
proof -
  have ok: "vest_ok s (timestamp e)" using sound_worldD(1) [OF inv s] by (rule soundD)
  note out = settle_cancel_outcome [OF ok s q run]
  show "settles (timestamp e) w w'"
  proof (rule settles_act [OF s step_cancel])
    show "in_i128 (pooled_balance w (token s) +
        (owed_by (cancelled_stream (timestamp e) s) - owed_by s))"
      using out(13,14) sound_worldD(4) [OF inv, of "token s"] by simp
  qed (use out(4-7,9-11,14) in simp_all)
qed (use settle_cancel_outcome [OF soundD(1) [OF sound_worldD(1) [OF inv s]] s q run] in simp_all)

lemma cancel_Inr:
  assumes "cancel tk e i w = Inr (u, w')" and inv: "sound_world (timestamp e) w"
  obtains s where
    "lookup_stream w i = Some s" "\<not> is_halted w" "authorized e (sender s)"
    "quote_cancel s (timestamp e) =
       Inr (vested_amount s (timestamp e), deposited s - vested_amount s (timestamp e))"
    "settle_cancel tk e i s (timestamp e) (vested_amount s (timestamp e))
       (deposited s - vested_amount s (timestamp e)) (extend_stream e i s w) = Inr w'"
proof -
  obtain s vn r where s: "lookup_stream w i = Some s" "\<not> is_halted w" "authorized e (sender s)"
    "quote_cancel s (timestamp e) = Inr (vn, r)"
    "settle_cancel tk e i s (timestamp e) vn r (extend_stream e i s w) = Inr w'"
    using assms(1) by (auto simp: cancel_def Let_def)
  have "vest_ok s (timestamp e)" using sound_worldD(1) [OF inv s(1)] by (rule soundD)
  with s(4) have "vn = vested_amount s (timestamp e)" "r = deposited s - vested_amount s (timestamp e)"
    by (auto simp: quote_cancel_ok split: if_splits)
  with s that show thesis by simp
qed

interpretation cancel: halting_settlement "\<lambda>e. cancel tk e i" for tk i
proof
  show "settles (timestamp e) w w'"
    if "sound_world (timestamp e) w" "cancel tk e i w = Inr (r, w')" for e w r w'
    using that(2,1)
  proof (rule cancel_Inr)
    fix s
    assume s: "lookup_stream w i = Some s"
      and q: "quote_cancel s (timestamp e) =
       Inr (vested_amount s (timestamp e), deposited s - vested_amount s (timestamp e))"
      and run: "settle_cancel tk e i s (timestamp e) (vested_amount s (timestamp e))
       (deposited s - vested_amount s (timestamp e)) (extend_stream e i s w) = Inr w'"
    show ?thesis
      using settle_cancel_effect(7) [OF _ _ q run] s that(1) by (simp add: settles_extend_stream)
  qed
qed (simp add: cancel_def require_not_halted_def)

section \<open>Dust\<close>

text \<open>
  Everything still owed on a terminal stream is the recipient's: there is no dust. On a stream that
  paid out more than it holds the figure is even negative, and \<open>reclaim_dust\<close> returns it as it is.
  In any case it changes only rent.
\<close>

definition dust_of :: "stream \<Rightarrow> int" where
  "dust_of s = (if is_terminal (status s) then min 0 (deposited s - withdrawn s) else 0)"

lemma dust_of_wf: "wf_stream now s \<Longrightarrow> dust_of s = 0"
  using wf_streamD(7) by (auto simp: dust_of_def)

lemma reclaim_dust_eq:
  assumes inv: "sound_world (timestamp e) w" and s: "lookup_stream w i = Some s"
    and auth: "authorized e (sender s)"
  shows "reclaim_dust tk e i w = Inr (dust_of s, extend_stream e i s w)"
proof -
  have so: "sound (timestamp e) s" using inv s by (rule sound_worldD(1))
  show ?thesis
  proof (cases "is_terminal (status s)")
    case True
    have "in_i128 (min 0 (deposited s - withdrawn s))"
      using soundD(2,3,5,6) [OF so] by (auto simp: min_def in_i128_def i128_min_def i128_max_def)
    moreover have "deposited s - withdrawn s - max 0 (deposited s - withdrawn s) = min 0 (deposited s - withdrawn s)"
      by simp
    ultimately show ?thesis
      using True auth sound_readings [OF so] soundD(10) [OF so True]
      by (simp add: reclaim_dust_def load_stream_eq s require_auth_def Let_def checked_sub_i128_def dust_of_def)
  next
    case False
    then show ?thesis using auth by (simp add: reclaim_dust_def load_stream_eq s require_auth_def dust_of_def)
  qed
qed

interpretation dust: settlement "\<lambda>e. reclaim_dust tk e i" for tk i
proof
  show "settles (timestamp e) w w'"
    if inv: "sound_world (timestamp e) w" and run: "reclaim_dust tk e i w = Inr (r, w')" for e w r w'
  proof -
    obtain s where s: "lookup_stream w i = Some s" "authorized e (sender s)"
      using run by (auto simp: reclaim_dust_def)
    then have "w' = extend_stream e i s w" using reclaim_dust_eq [OF inv s] run by simp
    then show ?thesis by (simp add: settles_refl)
  qed
qed

section \<open>Top-ups\<close>

text \<open>
  A top-up at the linear rule, or one that keeps the schedule of another curve, never lowers
  what has vested: \<open>D * T' \<le> (D + a) * T\<close> because the extension rounds down.
\<close>

definition keeps_pace :: "int \<Rightarrow> u64 \<Rightarrow> stream \<Rightarrow> bool" where
  "keeps_pace amount new_end s \<longleftrightarrow>
     (if curve s = Linear
      then uint new_end = uint (end_time s) + amount * uint (duration s) div deposited s
      else new_end = end_time s)"

lemma elapsed_grown:
  assumes "stream_time s now < end_time s" "end_time s \<le> new_end"
  shows "elapsed (grown_stream amount new_end s) now = elapsed s now"
proof -
  have "stream_time (grown_stream amount new_end s) now = stream_time s now"
    by (simp add: stream_time_def grown_stream_def)
  moreover have "start_time (grown_stream amount new_end s) = start_time s"
    "end_time (grown_stream amount new_end s) = new_end"
    by (simp_all add: grown_stream_def)
  ultimately show ?thesis
    using assms by (simp add: word_uint_eq_iff uint_elapsed word_less_def word_le_def)
qed

lemma elapsed_less:
  assumes "stream_time s now < end_time s" "start_time s < end_time s"
  shows "elapsed s now < duration s"
  using assms by (auto simp: word_less_def uint_elapsed uint_duration)

lemma released_during: "c < T \<Longrightarrow> released sh D c T = sh D c T"
  by (auto simp: released_def)

text \<open>Stretching the schedule by the share of the deposit added keeps the linear curve from falling.\<close>

lemma stretched_mono:
  fixes D A T c :: int
  assumes "0 < D" "0 < A" "0 < T" "0 \<le> c"
  shows "D * c div T \<le> (D + A) * c div (T + A * T div D)"
proof -
  let ?T' = "T + A * T div D"
  have TT: "T \<le> ?T'" using assms by (simp add: pos_imp_zdiv_nonneg_iff)
  have "D * (A * T div D) \<le> A * T"
    using assms(1) by (simp add: minus_mod_eq_mult_div [symmetric])
  then have "D * ?T' \<le> (D + A) * T" by (simp add: algebra_simps)
  then have "(D * ?T') * c \<le> ((D + A) * T) * c" using assms(4) by (rule mult_right_mono)
  then show ?thesis using assms(3) TT by (intro div_le_div_cross) (auto simp: ac_simps)
qed

lemma grown_vested_mono:
  assumes so: "sound now s" and live: "\<not> is_terminal (status s)" and a: "0 < amount"
    and clock: "stream_time s now < end_time s" and ge: "end_time s \<le> new_end"
    and pace: "keeps_pace amount new_end s"
    and dom: "accrual_domain (deposited (grown_stream amount new_end s))
                (duration (grown_stream amount new_end s))"
  shows "vested_amount s now \<le> vested_amount (grown_stream amount new_end s) now"
proof -
  let ?g = "grown_stream amount new_end s"
  have ok: "vest_ok ?g now" using dom by (simp add: vest_ok_def accrual_domain_def)
  have lo: "accrual_domain (deposited s) (duration s)" "start_time s < end_time s" "0 < deposited s"
    using wf_live [OF sound_unpaid(1) [OF so live]] live by (simp_all add: live_ok_def)
  have f: "curve ?g = curve s" "deposited ?g = deposited s + amount" "end_time ?g = new_end"
    "start_time ?g = start_time s" "cliff_reached ?g now = cliff_reached s now"
    by (simp_all add: grown_stream_def cliff_reached_def stream_time_def cong: cliff_mode.case_cong)
  note el = elapsed_grown [OF clock ge, of amount]
  have lt: "elapsed s now < duration s" using clock lo(2) by (rule elapsed_less)
  show ?thesis
  proof (cases "cliff_reached s now")
    case False
    then have "vested_amount s now = 0" by (simp add: vested_amount_def vested_before_cliff)
    with vested_total(2) [OF ok] show ?thesis by simp
  next
    case True
    have vs: "vested s now = released (curve_shape (curve s)) (deposited s) (elapsed s now) (duration s)"
      and vg: "vested ?g now =
        released (curve_shape (curve s)) (deposited s + amount) (elapsed s now) (duration ?g)"
      using True f el by (simp_all add: vested_eq)
    show ?thesis
    proof (cases "curve s = Linear")
      case False
      then have "duration ?g = duration s" using pace f by (simp add: keeps_pace_def duration_def)
      then show ?thesis
        using shape.released_mono_deposit [OF lo(1), of "deposited s + amount" "curve s" "elapsed s now"]
          dom f(2) a soundD(8) [OF so] vested_total(1) [OF ok] vs vg by auto
    next
      case True
      let ?T = "uint (duration s)" and ?T' = "uint (duration ?g)" and ?c = "uint (elapsed s now)"
      have T': "?T' = ?T + amount * ?T div deposited s"
        using True pace ge lo(2) by (auto simp: keeps_pace_def uint_duration f word_le_def word_less_def)
      have Tpos: "0 < ?T" using lt by (auto simp: word_less_def intro: uint_less_pos)
      then have "?T \<le> ?T'" using T' a lo(3) by (simp add: pos_imp_zdiv_nonneg_iff)
      then have lt': "elapsed s now < duration ?g" using lt by (simp add: word_less_def)
      have "deposited s * ?c div ?T \<le> (deposited s + amount) * ?c div ?T'"
        unfolding T' by (rule stretched_mono [OF lo(3) a Tpos]) simp
      moreover have "vested s now = Inr (deposited s * ?c div ?T)"
        using vs True lt lo(1) by (simp add: released_during vested_linear_eq)
      moreover have "vested ?g now = Inr ((deposited s + amount) * ?c div ?T')"
        using vg True lt' dom f(2) by (simp add: released_during vested_linear_eq)
      ultimately show ?thesis by (simp add: vested_amount_def)
    qed
  qed
qed


text \<open>
  The figures a top-up computes: the extension, the grown stream, and the creation guards
  it re-establishes. \<open>delegate_top_up\<close> computes the same ones with the linear extension on
  every curve.
\<close>

lemma grown_figures:
  assumes delta: "0 \<le> delta" "delta \<le> u64_max"
    and e: "checked_add_u64 (end_time s) (word_of_int delta) = Some new_end"
    and d: "checked_sub_u64 new_end (start_time s) = Some new_duration"
    and m: "checked_mul_i128 (deposited s + amount) (uint new_duration) \<noteq> None"
    and r: "uint new_duration \<le> deposited s + amount"
    and i: "in_i128 (deposited s + amount)"
  shows "uint new_end = uint (end_time s) + delta" "end_time s \<le> new_end"
    "duration (grown_stream amount new_end s) = new_duration"
    "in_i128 (deposited (grown_stream amount new_end s) * uint (duration (grown_stream amount new_end s)))"
    "uint (duration (grown_stream amount new_end s)) \<le> deposited (grown_stream amount new_end s)"
    "accrual_domain (deposited (grown_stream amount new_end s)) (duration (grown_stream amount new_end s))"
proof -
  show ne: "uint new_end = uint (end_time s) + delta"
    using e delta by (simp add: uint_u64_of_int)
  then show "end_time s \<le> new_end" using delta(1) by (simp add: word_le_def)
  have "uint new_duration = uint new_end - uint (start_time s)" using d by simp
  moreover from this have "0 \<le> uint new_end - uint (start_time s)" by (metis uint_u64_bounds(1))
  ultimately show dur: "duration (grown_stream amount new_end s) = new_duration"
    by (simp add: word_uint_eq_iff uint_duration grown_stream_def)
  have D: "deposited (grown_stream amount new_end s) = deposited s + amount"
    by (simp add: grown_stream_def)
  have mm: "in_i128 ((deposited s + amount) * uint new_duration)"
    using m by (auto simp: checked_mul_i128_def split: if_splits)
  then show "in_i128 (deposited (grown_stream amount new_end s) * uint (duration (grown_stream amount new_end s)))"
    by (simp add: D dur)
  show "uint (duration (grown_stream amount new_end s)) \<le> deposited (grown_stream amount new_end s)"
    using r by (simp add: D dur)
  have "0 \<le> deposited s + amount" using r uint_u64_bounds(1) [of new_duration] by linarith
  with mm i show "accrual_domain (deposited (grown_stream amount new_end s)) (duration (grown_stream amount new_end s))"
    by (simp add: accrual_domain_def D dur in_i128_def)
qed

lemma top_up_duration_delta_Inr:
  assumes "top_up_duration_delta s amount (uint (duration s)) = Inr delta" "0 < amount" "0 < deposited s"
  shows "0 \<le> delta" "delta \<le> u64_max"
    "delta = (if curve s = Linear then amount * uint (duration s) div deposited s else 0)"
    "curve s = Linear \<Longrightarrow> 0 < delta"
proof -
  have "0 \<le> amount * uint (duration s)" using assms(2) by simp
  then show "0 \<le> delta" "delta \<le> u64_max"
    "delta = (if curve s = Linear then amount * uint (duration s) div deposited s else 0)"
    "curve s = Linear \<Longrightarrow> 0 < delta"
    using assms
    by (auto simp: top_up_duration_delta_def sdiv_nonneg u64_max_def split: release_curve.splits)
qed

lemma top_up_Inr:
  assumes run: "top_up tk e i amount w = Inr (u, w')" and inv: "sound_world (timestamp e) w"
  obtains s new_end w2 w3 where
    "lookup_stream w i = Some s" "\<not> is_halted w" "authorized e (sender s)"
    "0 < amount" "\<not> is_terminal (status s)" "stream_time s (timestamp e) < end_time s"
    "keeps_pace amount new_end s" "end_time s \<le> new_end"
    "stream_step (timestamp e) s (grown_stream amount new_end s)"
    "vested_amount s (timestamp e) \<le> vested_amount (grown_stream amount new_end s) (timestamp e)"
    "pull_deposit tk e (token s) (sender s) amount (extend_stream e i s w) = Inr w2"
    "verify_pool_balance tk e (token s) w2 = Inr ()"
    "save_stream e i (grown_stream amount new_end s) w2 = Inr w3"
    "w' = publish (ToppedUpEvent i (sender s) amount (deposited s + amount) new_end (recipient s)) w3"
proof -
  obtain s where s: "lookup_stream w i = Some s" using run by (auto simp: top_up_def)
  have so: "sound (timestamp e) s" using inv s by (rule sound_worldD(1))
  obtain delta new_end new_duration w2 w3 nv where
    g: "\<not> is_halted w" "authorized e (sender s)" "\<not> is_terminal (status s)" "0 < amount"
    "stream_time s (timestamp e) < end_time s"
    and delta: "top_up_duration_delta s amount (uint (duration s)) = Inr delta"
    and fig: "in_i128 (deposited s + amount)"
      "checked_add_u64 (end_time s) (word_of_int delta) = Some new_end"
      "checked_sub_u64 new_end (start_time s) = Some new_duration"
      "checked_mul_i128 (deposited s + amount) (uint new_duration) \<noteq> None"
      "uint new_duration \<le> deposited s + amount"
    and nv: "vested (grown_stream amount new_end s) (timestamp e) = Inr nv" "vested_amount s (timestamp e) \<le> nv"
    and rest: "pull_deposit tk e (token s) (sender s) amount (extend_stream e i s w) = Inr w2"
      "verify_pool_balance tk e (token s) w2 = Inr ()"
      "save_stream e i (grown_stream amount new_end s) w2 = Inr w3"
      "w' = publish (ToppedUpEvent i (sender s) amount (deposited s + amount) new_end (recipient s)) w3"
    using run s soundD(8) [OF so]
    by (auto simp: top_up_def Let_def not_le not_less grown_stream_def
        simp del: checked_add_u64_Some checked_sub_u64_Some verify_pool_balance_Inr)
  have D: "0 < deposited s" using sound_unpaid(2) [OF so g(3)] soundD(2) [OF so] by simp
  note dl = top_up_duration_delta_Inr [OF delta g(4) D]
  note fg = grown_figures [OF dl(1,2) fig(2-5) fig(1)]
  have "keeps_pace amount new_end s"
    using fg(1) dl(3) by (simp add: keeps_pace_def word_uint_eq_iff)
  moreover have "vested_amount s (timestamp e) \<le> vested_amount (grown_stream amount new_end s) (timestamp e)"
    using nv by (simp add: vested_amount_def)
  moreover have "stream_step (timestamp e) s (grown_stream amount new_end s)"
    using g fg(2) fig(1) fg(4,5) nv
    by (intro step_top_up [of amount]) (auto simp: vested_amount_def grown_stream_def)
  ultimately show thesis using that s g fg(2) rest by blast
qed

lemma pull_deposit_range:
  assumes "pull_deposit tk e tkn a amount w = Inr w'"
  shows "in_i128 (pooled_balance w tkn + amount)"
proof -
  obtain ts where "credit_pool e tkn amount (w\<lparr>token_state := ts\<rparr>) = Inr w'"
    using assms by (auto elim: pull_deposit_Inr)
  moreover have "pooled_balance (w\<lparr>token_state := ts\<rparr>) = pooled_balance w"
    using view_token_state [of ts w] by (simp add: view_def)
  ultimately show ?thesis using credit_pool_view(2) by metis
qed

lemma top_up_effect:
  assumes pull: "pull_deposit tk e (token s) (sender s) amount (extend_stream e i s w) = Inr w2"
    and save: "save_stream e i (grown_stream amount new_end s) w2 = Inr w3"
    and s: "lookup_stream w i = Some s"
    and step: "stream_step (timestamp e) s (grown_stream amount new_end s)"
  shows "lookup_stream w3 = (lookup_stream w)(i \<mapsto> grown_stream amount new_end s)"
    "pooled_balance w3 = (pooled_balance w)(token s := pooled_balance w (token s) + amount)"
    "events w3 = events w" "settles (timestamp e) w w3"
proof -
  note p = pull_deposit_fields [OF pull]
  have ex: "lookup_stream w2 i \<noteq> None" using p(5) s by simp
  note v = ledger_save_stream [OF save ex]
  show l: "lookup_stream w3 = (lookup_stream w)(i \<mapsto> grown_stream amount new_end s)"
    and b: "pooled_balance w3 = (pooled_balance w)(token s := pooled_balance w (token s) + amount)"
    and "events w3 = events w"
    using p v by simp_all
  have o: "owed_by (grown_stream amount new_end s) - owed_by s = amount"
    by (simp add: owed_by_def grown_stream_def)
  have "next_id w3 = next_id w" using save_stream_fields(3) [OF save ex] p(7) by simp
  then show "settles (timestamp e) w w3"
    using pull_deposit_range [OF pull] l b o p v
    by (intro settles_act [OF s step]) simp_all
qed

lemma settles_publish: "settles now w (publish ev w') = settles now w w'"
  by (simp add: settles_def)

interpretation top_up: halting_settlement "\<lambda>e. top_up tk e i amount" for tk i amount
proof
  show "settles (timestamp e) w w'"
    if "sound_world (timestamp e) w" "top_up tk e i amount w = Inr (r, w')" for e w r w'
    using that(2,1)
  proof (rule top_up_Inr)
    fix s new_end w2 w3
    assume "lookup_stream w i = Some s" "stream_step (timestamp e) s (grown_stream amount new_end s)"
      "pull_deposit tk e (token s) (sender s) amount (extend_stream e i s w) = Inr w2"
      "save_stream e i (grown_stream amount new_end s) w2 = Inr w3"
      "w' = publish (ToppedUpEvent i (sender s) amount (deposited s + amount) new_end (recipient s)) w3"
    then show ?thesis using top_up_effect(4) by (auto simp: settles_publish)
  qed
qed (simp add: top_up_def require_not_halted_def)

text \<open>
  \<open>VestedDecreased\<close> is unreachable from \<open>top_up\<close>: the check it guards never fires.
\<close>

lemma top_up_never_decreases:
  assumes inv: "sound_world (timestamp e) w"
  shows "top_up tk e i amount w \<noteq> Inl (Err VestedDecreased)"
proof
  assume run: "top_up tk e i amount w = Inl (Err VestedDecreased)"
  obtain s where s: "lookup_stream w i = Some s"
    using run by (auto simp: top_up_def require_not_halted_def load_stream_eq split: option.splits if_splits)
  have so: "sound (timestamp e) s" using inv s by (rule sound_worldD(1))
  have pd: "pull_deposit tk e t a n v \<noteq> Inl (Err VestedDecreased)" for t a n v
    using token_transfer_error [of tk t a "contract_address e" n v "Err VestedDecreased"]
    by (auto simp: pull_deposit_def balance_of_def and_then_eq_Inl ok_or_eq_Inl credit_pool_def)
  have others: "verify_pool_balance tk e t v \<noteq> Inl (Err VestedDecreased)"
    "save_stream e j r v \<noteq> Inl (Err VestedDecreased)"
    "emit_topped_up j r n v \<noteq> Inl (Err VestedDecreased)"
    "top_up_duration_delta s n d \<noteq> Inl (Err VestedDecreased)" for t j r n v d
    by (auto simp: verify_pool_balance_def balance_of_def Let_def and_then_eq_Inl ok_or_eq_Inl
        save_stream_def emit_topped_up_def top_up_duration_delta_def split: release_curve.splits)
  obtain delta new_end new_duration nv where
    g: "\<not> is_terminal (status s)" "0 < amount" "stream_time s (timestamp e) < end_time s"
    and delta: "top_up_duration_delta s amount (uint (duration s)) = Inr delta"
    and fig: "in_i128 (deposited s + amount)"
      "checked_add_u64 (end_time s) (word_of_int delta) = Some new_end"
      "checked_sub_u64 new_end (start_time s) = Some new_duration"
      "checked_mul_i128 (deposited s + amount) (uint new_duration) \<noteq> None"
      "uint new_duration \<le> deposited s + amount"
    and nv: "vested (grown_stream amount new_end s) (timestamp e) = Inl (Err VestedDecreased) \<or>
       vested (grown_stream amount new_end s) (timestamp e) = Inr nv \<and> nv < vested_amount s (timestamp e)"
    using run s soundD(8) [OF so] pd others
    by (auto simp: top_up_def Let_def not_le not_less grown_stream_def and_then_eq_Inl ok_or_eq_Inl
        require_not_halted_def require_auth_def load_stream_eq split: if_splits
        simp del: checked_add_u64_Some checked_sub_u64_Some verify_pool_balance_Inr)
  have D: "0 < deposited s" using sound_unpaid(2) [OF so g(1)] soundD(2) [OF so] by simp
  note dl = top_up_duration_delta_Inr [OF delta g(2) D]
  note fg = grown_figures [OF dl(1,2) fig(2-5) fig(1)]
  have "keeps_pace amount new_end s"
    using fg(1) dl(3) by (simp add: keeps_pace_def word_uint_eq_iff)
  then have "vested_amount s (timestamp e) \<le> vested_amount (grown_stream amount new_end s) (timestamp e)"
    using grown_vested_mono [OF so g(1,2,3) fg(2) _ fg(6)] by simp
  moreover have "vest_ok (grown_stream amount new_end s) (timestamp e)"
    using fg(6) by (simp add: vest_ok_def accrual_domain_def)
  ultimately show False using nv vested_total(1) by fastforce
qed

end
