(* ===== verification/Control.thy ===== *)
theory Control
  imports Settlement
begin

text \<open>
  The entry points of \<^verbatim>\<open>contracts/stream/src/lib.rs\<close> by which the sender controls a stream
  without moving funds: \<open>pause\<close>, \<open>resume\<close> and \<open>transfer_recipient\<close>. The lemmas show
  that each refines the stream machine, and that the \<open>VestedDecreased\<close> re-check the code
  makes before committing never fires.
\<close>

section \<open>The code\<close>

definition pause :: "env \<Rightarrow> u64 \<Rightarrow> 't world \<Rightarrow> (unit \<times> 't world) result" where
  "pause e stream_id w =
     and_then (require_not_halted w) (\<lambda>_.
     and_then (load_stream e w stream_id) (\<lambda>(s, w1).
     and_then (require_auth e (sender s)) (\<lambda>_.
     if \<not> pausable s then Inl (Err NotPausable)
     else if is_terminal (status s) then Inl (Err StreamTerminated)
     else if status s = Paused then Inl (Err StreamAlreadyPaused)
     else
       let now = timestamp e in
       and_then (vested s now) (\<lambda>old_vested.
       let s' = s\<lparr>paused_at := Some now, status := Paused\<rparr> in
       and_then (vested s' now) (\<lambda>new_vested.
       if new_vested < old_vested then Inl (Err VestedDecreased)
       else
         and_then (save_stream e stream_id s' w1) (\<lambda>w2.
         Inr ((), emit_paused stream_id s' now w2)))))))"

definition resume :: "env \<Rightarrow> u64 \<Rightarrow> 't world \<Rightarrow> (unit \<times> 't world) result" where
  "resume e stream_id w =
     and_then (require_not_halted w) (\<lambda>_.
     and_then (load_stream e w stream_id) (\<lambda>(s, w1).
     and_then (require_auth e (sender s)) (\<lambda>_.
     if is_terminal (status s) then Inl (Err StreamTerminated)
     else
       and_then (ok_or (Err StreamNotPaused) (paused_at s)) (\<lambda>p.
       if status s \<noteq> Paused then Inl (Err StreamNotPaused)
       else
         let now = timestamp e in
         and_then (vested s now) (\<lambda>old_vested.
         let paused_duration = saturating_sub_u64 now p in
         and_then (ok_or (Err Overflow) (checked_add_u64 (paused_total s) paused_duration)) (\<lambda>new_total.
         let s' = s\<lparr>paused_total := new_total, paused_at := None, status := Active\<rparr> in
         and_then (vested s' now) (\<lambda>new_vested.
         if new_vested < old_vested then Inl (Err VestedDecreased)
         else
           and_then (save_stream e stream_id s' w1) (\<lambda>w2.
           Inr ((), emit_resumed stream_id s' paused_duration w2)))))))))"

definition transfer_recipient :: "env \<Rightarrow> u64 \<Rightarrow> address \<Rightarrow> 't world \<Rightarrow> (unit \<times> 't world) result" where
  "transfer_recipient e stream_id new_recipient w =
     and_then (require_not_halted w) (\<lambda>_.
     and_then (load_stream e w stream_id) (\<lambda>(s, w1).
     and_then (require_auth e (sender s)) (\<lambda>_.
     if \<not> transferable s then Inl (Err NotTransferable)
     else if status s = Depleted \<or> withdrawn s \<ge> deposited s then Inl (Err StreamTerminated)
     else if new_recipient = sender s then Inl (Err SelfStream)
     else
       let old_recipient = recipient s in
       if old_recipient = new_recipient then Inl (Err RepeatedTransfer)
       else
         let now = timestamp e in
         and_then (vested s now) (\<lambda>old_vested.
         let s' = s\<lparr>recipient := new_recipient\<rparr> in
         and_then (vested s' now) (\<lambda>new_vested.
         if new_vested < old_vested then Inl (Err VestedDecreased)
         else
           and_then (save_stream e stream_id s' w1) (\<lambda>w2.
           Inr ((), emit_recipient_transferred stream_id (sender s') old_recipient new_recipient w2)))))))"

section \<open>A step that moves no funds\<close>

lemma settles_step:
  assumes s: "lookup_stream w i = Some s" and inv: "sound_world now w" and step: "stream_step now s s'"
    and o: "owed_by s' = owed_by s"
    and save: "save_stream e i s' (extend_stream e i s w) = Inr w'"
  shows "settles now w w'" "lookup_stream w' = (lookup_stream w)(i \<mapsto> s')"
    "pooled_balance w' = pooled_balance w" "events w' = events w" "token_state w' = token_state w"
proof -
  have ex: "lookup_stream (extend_stream e i s w) i \<noteq> None" using s by simp
  note v = ledger_save_stream [OF save ex]
  show "lookup_stream w' = (lookup_stream w)(i \<mapsto> s')" "pooled_balance w' = pooled_balance w"
    "events w' = events w" "token_state w' = token_state w"
    using v by simp_all
  have "in_i128 (pooled_balance w (token s) + (owed_by s' - owed_by s))"
    using sound_worldD(4) [OF inv] o by simp
  then show "settles now w w'"
    using v o save_stream_fields(3) [OF save ex] by (intro settles_act [OF s step]) simp_all
qed

text \<open>The saved stream has vested what the loaded one had, so the re-check passes.\<close>

lemma paused_stream_vested:
  assumes "sound now s" "status s = Active"
  shows "vested (paused_stream now s) now = Inr (vested_amount s now)"
  using same_schedule_vested(1) [OF same_schedule_steps(1) [OF soundD(4) [OF assms(1)] assms(2)]]
    soundD(8) [OF assms(1)] by simp

lemma resumed_stream_vested:
  assumes "sound now s"
  shows "vested (resumed_stream now s) now = Inr (vested_amount s now)"
  using same_schedule_vested(1) [OF same_schedule_steps(2) [OF soundD(4) [OF assms]]] soundD(8) [OF assms] by simp

lemma transferred_stream_vested:
  assumes "sound now s"
  shows "vested (s\<lparr>recipient := a\<rparr>) now = Inr (vested_amount s now)"
  using same_schedule_vested(1) [OF same_schedule_steps(4)] soundD(8) [OF assms] by simp

lemma status_active: "\<not> is_terminal st \<Longrightarrow> st \<noteq> Paused \<Longrightarrow> st = Active"
  by (cases st) simp_all

lemma sound_paused_at:
  assumes "sound now s"
  shows "paused_at s = None \<longleftrightarrow> status s \<noteq> Paused"
  using soundD(4) [OF assms] by (auto simp: pause_ok_def split: option.splits)

text \<open>The paused interval is absorbed without overflow.\<close>

lemma absorb_pause:
  assumes "pause_ok now s" "paused_at s = Some p"
  shows "checked_add_u64 (paused_total s) (saturating_sub_u64 now p) = Some (paused_total s + (now - p))"
    "saturating_sub_u64 now p = now - p"
    "resumed_stream now s = s\<lparr>paused_total := paused_total s + (now - p), paused_at := None, status := Active\<rparr>"
proof -
  have p: "p \<le> now" "paused_total s \<le> p"
    using assms by (simp_all add: pause_ok_def)
  show sub: "saturating_sub_u64 now p = now - p" using p(1) by (auto simp: saturating_sub_u64_def)
  have "uint (paused_total s) + uint (now - p) \<le> uint now"
    using p by (simp add: uint_diff_u64 word_le_def)
  then have "uint (paused_total s) + uint (now - p) \<le> u64_max" using uint_u64_bounds(2) by (rule order_trans)
  then show "checked_add_u64 (paused_total s) (saturating_sub_u64 now p) = Some (paused_total s + (now - p))"
    by (simp add: sub checked_add_u64_def)
  show "resumed_stream now s = s\<lparr>paused_total := paused_total s + (now - p), paused_at := None, status := Active\<rparr>"
    using assms(2) by (simp add: resumed_stream_def settle_pause_def)
qed

section \<open>What the entry points do, on every branch\<close>

lemma pause_eq:
  assumes inv: "sound_world (timestamp e) w" and s: "lookup_stream w i = Some s"
    and live: "\<not> is_halted w" and auth: "authorized e (sender s)"
  shows "pause e i w =
    (if \<not> pausable s then Inl (Err NotPausable)
     else if is_terminal (status s) then Inl (Err StreamTerminated)
     else if status s = Paused then Inl (Err StreamAlreadyPaused)
     else and_then (save_stream e i (paused_stream (timestamp e) s) (extend_stream e i s w)) (\<lambda>w2.
          Inr ((), publish (PausedEvent i (sender s) (timestamp e) (paused_total s) (recipient s)) w2)))"
proof -
  have so: "sound (timestamp e) s" using inv s by (rule sound_worldD(1))
  have "vested (s\<lparr>paused_at := Some (timestamp e), status := Paused\<rparr>) (timestamp e) =
      Inr (vested_amount s (timestamp e))" if "\<not> is_terminal (status s)" "status s \<noteq> Paused"
    using paused_stream_vested [OF so status_active [OF that]] by (simp add: paused_stream_def)
  then show ?thesis
    using live auth
    by (simp add: pause_def require_not_halted_def require_auth_def load_stream_eq s Let_def
        soundD(8) [OF so] paused_stream_def emit_paused_def)
qed

lemma resume_eq:
  assumes inv: "sound_world (timestamp e) w" and s: "lookup_stream w i = Some s"
    and live: "\<not> is_halted w" and auth: "authorized e (sender s)"
  shows "resume e i w =
    (if is_terminal (status s) then Inl (Err StreamTerminated)
     else case paused_at s of
            None \<Rightarrow> Inl (Err StreamNotPaused)
          | Some p \<Rightarrow>
              and_then (save_stream e i (resumed_stream (timestamp e) s) (extend_stream e i s w)) (\<lambda>w2.
              Inr ((), publish (ResumedEvent i (sender s) (timestamp e - p)
                (paused_total s + (timestamp e - p)) (recipient s)) w2)))"
proof -
  have so: "sound (timestamp e) s" using inv s by (rule sound_worldD(1))
  show ?thesis
  proof (cases "paused_at s")
    case None
    then show ?thesis
      using live auth by (simp add: resume_def require_not_halted_def require_auth_def load_stream_eq s)
  next
    case (Some p)
    then have "status s = Paused" using sound_paused_at [OF so] by simp
    then show ?thesis
      using live auth Some resumed_stream_vested [OF so] absorb_pause [OF soundD(4) [OF so] Some]
      by (simp add: resume_def require_not_halted_def require_auth_def load_stream_eq s Let_def
          soundD(8) [OF so] emit_resumed_def del: checked_add_u64_Some)
  qed
qed

lemma sound_full:
  assumes "sound now s"
  shows "status s = Depleted \<or> withdrawn s \<ge> deposited s \<longleftrightarrow> deposited s \<le> withdrawn s"
  using soundD(11) [OF assms] by (auto simp: wf_stream_def)

lemma transfer_recipient_eq:
  assumes inv: "sound_world (timestamp e) w" and s: "lookup_stream w i = Some s"
    and live: "\<not> is_halted w" and auth: "authorized e (sender s)"
  shows "transfer_recipient e i a w =
    (if \<not> transferable s then Inl (Err NotTransferable)
     else if deposited s \<le> withdrawn s then Inl (Err StreamTerminated)
     else if a = sender s then Inl (Err SelfStream)
     else if a = recipient s then Inl (Err RepeatedTransfer)
     else and_then (save_stream e i (s\<lparr>recipient := a\<rparr>) (extend_stream e i s w)) (\<lambda>w2.
          Inr ((), publish (RecipientTransferredEvent i (recipient s) a (sender s)) w2)))"
proof -
  have so: "sound (timestamp e) s" using inv s by (rule sound_worldD(1))
  note full = sound_full [OF so]
  show ?thesis
    using live auth
    by (auto simp: transfer_recipient_def require_not_halted_def require_auth_def load_stream_eq s
        Let_def soundD(8) [OF so] transferred_stream_vested [OF so] emit_recipient_transferred_def full)
qed

lemma control_gate:
  "pause e i w = Inr (u, w') \<Longrightarrow> \<exists>s. lookup_stream w i = Some s \<and> \<not> is_halted w \<and> authorized e (sender s)"
  "resume e i w = Inr (u, w') \<Longrightarrow> \<exists>s. lookup_stream w i = Some s \<and> \<not> is_halted w \<and> authorized e (sender s)"
  "transfer_recipient e i a w = Inr (u, w') \<Longrightarrow>
     \<exists>s. lookup_stream w i = Some s \<and> \<not> is_halted w \<and> authorized e (sender s)"
  by (auto simp: pause_def resume_def transfer_recipient_def)

lemma owed_steps [simp]:
  "owed_by (paused_stream now s) = owed_by s"
  "owed_by (resumed_stream now s) = owed_by s"
  "owed_by (s\<lparr>recipient := a\<rparr>) = owed_by s"
  by (simp_all add: owed_by_def paused_stream_def resumed_stream_def)

lemma pause_Inr:
  assumes "pause e i w = Inr (u, w')" and inv: "sound_world (timestamp e) w"
  obtains s where "lookup_stream w i = Some s" "\<not> is_halted w" "authorized e (sender s)"
    "pausable s" "status s = Active" "settles (timestamp e) w w'"
    "lookup_stream w' = (lookup_stream w)(i \<mapsto> paused_stream (timestamp e) s)"
    "events w' = events w @ [PausedEvent i (sender s) (timestamp e) (paused_total s) (recipient s)]"
    "token_state w' = token_state w"
proof -
  obtain s where g: "lookup_stream w i = Some s" "\<not> is_halted w" "authorized e (sender s)"
    using control_gate(1) [OF assms(1)] by blast
  obtain w2 where *: "pausable s" "\<not> is_terminal (status s)" "status s \<noteq> Paused"
    "save_stream e i (paused_stream (timestamp e) s) (extend_stream e i s w) = Inr w2"
    "w' = publish (PausedEvent i (sender s) (timestamp e) (paused_total s) (recipient s)) w2"
    using assms(1) pause_eq [OF inv g] by (auto split: if_splits)
  have a: "status s = Active" using *(2,3) by (rule status_active)
  note st = settles_step [OF g(1) inv step_pause [OF *(1) a] owed_steps(1) *(4)]
  show thesis by (rule that [OF g *(1) a]) (use st *(5) in \<open>simp_all add: settles_publish\<close>)
qed

lemma resume_Inr:
  assumes "resume e i w = Inr (u, w')" and inv: "sound_world (timestamp e) w"
  obtains s p where "lookup_stream w i = Some s" "\<not> is_halted w" "authorized e (sender s)"
    "status s = Paused" "paused_at s = Some p" "settles (timestamp e) w w'"
    "lookup_stream w' = (lookup_stream w)(i \<mapsto> resumed_stream (timestamp e) s)"
    "events w' = events w @ [ResumedEvent i (sender s) (timestamp e - p)
       (paused_total s + (timestamp e - p)) (recipient s)]"
    "token_state w' = token_state w"
proof -
  obtain s where g: "lookup_stream w i = Some s" "\<not> is_halted w" "authorized e (sender s)"
    using control_gate(2) [OF assms(1)] by blast
  have so: "sound (timestamp e) s" using inv g(1) by (rule sound_worldD(1))
  obtain p w2 where *: "paused_at s = Some p"
    "save_stream e i (resumed_stream (timestamp e) s) (extend_stream e i s w) = Inr w2"
    "w' = publish (ResumedEvent i (sender s) (timestamp e - p) (paused_total s + (timestamp e - p))
       (recipient s)) w2"
    using assms(1) resume_eq [OF inv g] by (auto split: if_splits option.splits)
  have a: "status s = Paused" using *(1) sound_paused_at [OF so] by simp
  note st = settles_step [OF g(1) inv step_resume [OF a] owed_steps(2) *(2)]
  show thesis by (rule that [OF g a *(1)]) (use st *(3) in \<open>simp_all add: settles_publish\<close>)
qed

lemma transfer_recipient_Inr:
  assumes "transfer_recipient e i a w = Inr (u, w')" and inv: "sound_world (timestamp e) w"
  obtains s where "lookup_stream w i = Some s" "\<not> is_halted w" "authorized e (sender s)"
    "transferable s" "withdrawn s < deposited s" "a \<noteq> sender s" "a \<noteq> recipient s"
    "settles (timestamp e) w w'"
    "lookup_stream w' = (lookup_stream w)(i \<mapsto> s\<lparr>recipient := a\<rparr>)"
    "events w' = events w @ [RecipientTransferredEvent i (recipient s) a (sender s)]"
    "token_state w' = token_state w"
proof -
  obtain s where g: "lookup_stream w i = Some s" "\<not> is_halted w" "authorized e (sender s)"
    using control_gate(3) [OF assms(1)] by blast
  have so: "sound (timestamp e) s" using inv g(1) by (rule sound_worldD(1))
  obtain w2 where *: "transferable s" "withdrawn s < deposited s" "a \<noteq> sender s" "a \<noteq> recipient s"
    "save_stream e i (s\<lparr>recipient := a\<rparr>) (extend_stream e i s w) = Inr w2"
    "w' = publish (RecipientTransferredEvent i (recipient s) a (sender s)) w2"
    using assms(1) transfer_recipient_eq [OF inv g] by (auto simp: not_le split: if_splits)
  have "status s \<noteq> Depleted" using sound_full [OF so] *(2) by auto
  note st = settles_step [OF g(1) inv step_transfer [OF *(1) this *(2,3)] owed_steps(3) *(5)]
  show thesis by (rule that [OF g *(1-4)]) (use st *(6) in \<open>simp_all add: settles_publish\<close>)
qed

lemma control_settles:
  "pause e i w = Inr (u, w') \<Longrightarrow> sound_world (timestamp e) w \<Longrightarrow> settles (timestamp e) w w'"
  "resume e i w = Inr (u, w') \<Longrightarrow> sound_world (timestamp e) w \<Longrightarrow> settles (timestamp e) w w'"
  "transfer_recipient e i a w = Inr (u, w') \<Longrightarrow> sound_world (timestamp e) w \<Longrightarrow> settles (timestamp e) w w'"
  by (erule (1) pause_Inr resume_Inr transfer_recipient_Inr; assumption)+

lemma control_refuses:
  "is_halted w \<Longrightarrow> pause e i w = Inl (Err ContractHalted)"
  "is_halted w \<Longrightarrow> resume e i w = Inl (Err ContractHalted)"
  "is_halted w \<Longrightarrow> transfer_recipient e i a w = Inl (Err ContractHalted)"
  by (simp_all add: pause_def resume_def transfer_recipient_def require_not_halted_def)

interpretation pause: halting_settlement "\<lambda>e. pause e i" for i
  by unfold_locales (simp_all add: control_settles(1) control_refuses(1))

interpretation resume: halting_settlement "\<lambda>e. resume e i" for i
  by unfold_locales (simp_all add: control_settles(2) control_refuses(2))

interpretation transfer: halting_settlement "\<lambda>e. transfer_recipient e i a" for i a
  by unfold_locales (simp_all add: control_settles(3) control_refuses(3))

end
