(* ===== verification/Batch.thy ===== *)
theory Batch
  imports Control
begin

text \<open>
  The batched entry points of \<^verbatim>\<open>contracts/stream/src/lib.rs\<close>: \<open>batch_withdraw\<close> and
  \<open>batch_cancel\<close>, with the pre-flight they share (\<open>validate_batch_ids\<close>,
  \<open>reject_duplicate_ids\<close>). A batch reads every stream once and settles from the copies it
  read; the lemmas show that the duplicate check is what makes those copies current, so that
  a batch is a run of the stream machine.
\<close>

section \<open>The code\<close>

text \<open>
  An element of the vector as it arrives: a host value, which decodes as a \<open>u64\<close> or not.
\<close>

datatype raw_val = RawU64 u64 | RawOther

fun decode_ids :: "raw_val list \<Rightarrow> u64 list result" where
  "decode_ids [] = Inr []"
| "decode_ids (RawU64 i # raws) = and_then (decode_ids raws) (\<lambda>ids. Inr (i # ids))"
| "decode_ids (RawOther # raws) = Inl (Err MalformedStreamId)"

definition validate_batch_ids :: "raw_val list \<Rightarrow> u64 list result" where
  "validate_batch_ids raws =
     (if length raws = 0 then Inl (Err EmptyBatch)
      else if length raws > MAX_BATCH_SIZE then Inl (Err BatchTooLarge)
      else decode_ids raws)"

fun reject_duplicate_ids :: "u64 list \<Rightarrow> unit result" where
  "reject_duplicate_ids [] = Inr ()"
| "reject_duplicate_ids (i # ids) =
     (if list_ex (\<lambda>j. i = j) ids then Inl (Err DuplicateStreamId) else reject_duplicate_ids ids)"

text \<open>The three loops of \<open>batch_withdraw\<close>: resolve and price, pay, reconcile.\<close>

fun price_withdrawals ::
    "env \<Rightarrow> address \<Rightarrow> 't world \<Rightarrow> u64 list \<Rightarrow> int \<Rightarrow> ((u64 \<times> stream \<times> int) list \<times> int) result" where
  "price_withdrawals e payee w [] sum_so_far = Inr ([], sum_so_far)"
| "price_withdrawals e payee w (stream_id # ids) sum_so_far =
     and_then (peek_stream w stream_id) (\<lambda>s.
     if recipient s \<noteq> payee then Inl (Err Unauthorized)
     else
       and_then (withdrawable s (timestamp e)) (\<lambda>available.
       and_then (ok_or (Err Overflow) (checked_add_i128 sum_so_far available)) (\<lambda>new_total.
       and_then (price_withdrawals e payee w ids new_total) (\<lambda>(items, final).
       Inr ((stream_id, s, available) # items, final)))))"

fun pay_all ::
    "'t token_iface \<Rightarrow> env \<Rightarrow> (u64 \<times> stream \<times> int) list \<Rightarrow> 't world \<Rightarrow> 't world result" where
  "pay_all tk e [] w = Inr w"
| "pay_all tk e ((stream_id, s, payout) # items) w =
     and_then
       (if payout = 0 then Inr (extend_stream e stream_id s w)
        else and_then (apply_withdrawal tk e stream_id s payout w) (\<lambda>(s', w1). Inr w1))
       (pay_all tk e items)"

fun reconcile_tokens ::
    "'t token_iface \<Rightarrow> env \<Rightarrow> 't world \<Rightarrow> address list \<Rightarrow> address list \<Rightarrow> unit result" where
  "reconcile_tokens tk e w reconciled [] = Inr ()"
| "reconcile_tokens tk e w reconciled (tkn # tkns) =
     (if tkn \<in> set reconciled then reconcile_tokens tk e w reconciled tkns
      else
        and_then (verify_pool_balance tk e tkn w) (\<lambda>_.
        reconcile_tokens tk e w (reconciled @ [tkn]) tkns))"

definition batch_withdraw ::
    "'t token_iface \<Rightarrow> env \<Rightarrow> address \<Rightarrow> raw_val list \<Rightarrow> 't world \<Rightarrow> (int \<times> 't world) result" where
  "batch_withdraw tk e payee raw_ids w =
     and_then (require_not_halted w) (\<lambda>_.
     and_then (validate_batch_ids raw_ids) (\<lambda>ids.
     and_then (reject_duplicate_ids ids) (\<lambda>_.
     and_then (require_auth e payee) (\<lambda>_.
     and_then (price_withdrawals e payee w ids 0) (\<lambda>(items, final).
     and_then (pay_all tk e items w) (\<lambda>w1.
     and_then (reconcile_tokens tk e w1 [] (map (\<lambda>(i, s, p). token s) items)) (\<lambda>_.
     Inr (final, w1))))))))"

text \<open>
  \<open>batch_cancel\<close>: resolve and check ownership, price, settle. A member that cannot be
  cancelled refuses the batch with an \<open>Ok\<close> outcome that names its index.
\<close>

fun resolve_owned :: "'t world \<Rightarrow> address \<Rightarrow> u64 list \<Rightarrow> (u64 \<times> stream) list result" where
  "resolve_owned w owner [] = Inr []"
| "resolve_owned w owner (stream_id # ids) =
     and_then (peek_stream w stream_id) (\<lambda>s.
     if sender s \<noteq> owner then Inl (Err Unauthorized)
     else
       and_then (resolve_owned w owner ids) (\<lambda>streams.
       Inr ((stream_id, s) # streams)))"

datatype cancel_quotes = Refused u32 error | Quoted "(u64 \<times> stream \<times> int \<times> int) list" int

fun price_cancels ::
    "u64 \<Rightarrow> u32 \<Rightarrow> (u64 \<times> stream) list \<Rightarrow> int \<Rightarrow> cancel_quotes result" where
  "price_cancels now index [] sum_so_far = Inr (Quoted [] sum_so_far)"
| "price_cancels now index ((stream_id, s) # streams) sum_so_far =
     (case quote_cancel s now of
        Inl Trap \<Rightarrow> Inl Trap
      | Inl (Err reason) \<Rightarrow> Inr (Refused index reason)
      | Inr (vested_now, refund) \<Rightarrow>
          and_then (ok_or (Err Overflow) (checked_add_i128 sum_so_far refund)) (\<lambda>new_total.
          and_then (price_cancels now (index + 1) streams new_total) (\<lambda>quotes.
          Inr (case quotes of
                 Refused index' reason \<Rightarrow> Refused index' reason
               | Quoted items final \<Rightarrow> Quoted ((stream_id, s, vested_now, refund) # items) final))))"

fun settle_all ::
    "'t token_iface \<Rightarrow> env \<Rightarrow> u64 \<Rightarrow> (u64 \<times> stream \<times> int \<times> int) list \<Rightarrow> 't world \<Rightarrow> 't world result" where
  "settle_all tk e now [] w = Inr w"
| "settle_all tk e now ((stream_id, s, vested_now, refund) # items) w =
     and_then (settle_cancel tk e stream_id s now vested_now refund w) (settle_all tk e now items)"

definition batch_cancel ::
    "'t token_iface \<Rightarrow> env \<Rightarrow> address \<Rightarrow> raw_val list \<Rightarrow> 't world \<Rightarrow>
     (batch_cancel_outcome \<times> 't world) result" where
  "batch_cancel tk e owner raw_ids w =
     and_then (validate_batch_ids raw_ids) (\<lambda>ids.
     and_then (reject_duplicate_ids ids) (\<lambda>_.
     and_then (require_auth e owner) (\<lambda>_.
     let now = timestamp e in
     and_then (resolve_owned w owner ids) (\<lambda>streams.
     and_then (price_cancels now 0 streams 0) (\<lambda>quotes.
     case quotes of
       Refused index reason \<Rightarrow>
         Inr (\<lparr>refunded = 0, refused_index = Some index,
               refused_reason = Some (discriminant reason)\<rparr>, w)
     | Quoted items final \<Rightarrow>
         and_then (settle_all tk e now items w) (\<lambda>w1.
         Inr (\<lparr>refunded = final, refused_index = None, refused_reason = None\<rparr>, w1)))))))"

section \<open>The pre-flight\<close>

lemma decode_ids_Inr: "decode_ids raws = Inr ids \<longleftrightarrow> raws = map RawU64 ids"
  by (induction raws arbitrary: ids rule: decode_ids.induct) (auto simp: Cons_eq_map_conv)

lemma decode_ids_total: "decode_ids (map RawU64 ids) = Inr ids"
  by (simp add: decode_ids_Inr)

lemma validate_batch_ids_Inr:
  "validate_batch_ids raws = Inr ids \<longleftrightarrow> ids \<noteq> [] \<and> length ids \<le> MAX_BATCH_SIZE \<and> raws = map RawU64 ids"
  by (auto simp: validate_batch_ids_def decode_ids_Inr)

lemma reject_duplicate_ids_Inr: "reject_duplicate_ids ids = Inr u \<longleftrightarrow> distinct ids"
  by (induction ids) (auto simp: list_ex_iff)

section \<open>Batched withdrawals\<close>

text \<open>What the pricing loop reads: the stored stream and its whole withdrawable amount.\<close>

definition priced :: "u64 \<Rightarrow> 't world \<Rightarrow> u64 \<times> stream \<times> int \<Rightarrow> bool" where
  "priced now w item \<longleftrightarrow>
     (case item of (i, s, p) \<Rightarrow>
        lookup_stream w i = Some s \<and> p = max 0 (vested_amount s now - withdrawn s))"

lemma price_withdrawals_Inr:
  assumes "price_withdrawals e payee w ids sum_so_far = Inr (items, final)" "sound_world (timestamp e) w"
  shows "map fst items = ids" "\<forall>item\<in>set items. priced (timestamp e) w item"
    "\<forall>item\<in>set items. recipient (fst (snd item)) = payee"
    "final = sum_so_far + (\<Sum>item\<leftarrow>items. snd (snd item))"
  using assms
proof (induction ids arbitrary: sum_so_far items)
  case (Cons i ids)
  {
    case 1
    with Cons.IH(1) show ?case by fastforce
  next
    case 2
    then obtain s a items' where *: "lookup_stream w i = Some s" "withdrawable s (timestamp e) = Inr a"
      "items = (i, s, a) # items'" "price_withdrawals e payee w ids (sum_so_far + a) = Inr (items', final)"
      by (auto split: if_splits)
    have "priced (timestamp e) w (i, s, a)"
      using *(1,2) sound_readings(1) [OF sound_worldD(1) [OF 2(2) *(1)]] by (simp add: priced_def)
    with Cons.IH(2) [OF *(4) 2(2)] show ?case by (simp add: *(3))
  next
    case 3
    with Cons.IH(3) show ?case by fastforce
  next
    case 4
    with Cons.IH(4) show ?case by fastforce
  }
qed simp_all

text \<open>Paying one item leaves the copies of the others current.\<close>

definition paid :: "u64 \<Rightarrow> u64 \<times> stream \<times> int \<Rightarrow> stream" where
  "paid now item = (case item of (i, s, p) \<Rightarrow> if p = 0 then s else paid_stream now p s)"

lemma pay_all_effect:
  assumes "pay_all tk e items w = Inr w'" "sound_world (timestamp e) w"
    "distinct (map fst items)" "\<forall>item\<in>set items. priced (timestamp e) w item"
  shows "settles (timestamp e) w w' \<and>
    lookup_stream w' = lookup_stream w ++ map_of (map (\<lambda>item. (fst item, paid (timestamp e) item)) items)"
  using assms
proof (induction items arbitrary: w)
  case Nil
  then show ?case by (simp add: settles_refl)
next
  case (Cons item items)
  obtain i s p where item: "item = (i, s, p)" by (cases item)
  have pr: "lookup_stream w i = Some s" "p = max 0 (vested_amount s (timestamp e) - withdrawn s)"
    using Cons.prems(4) by (auto simp: item priced_def)
  obtain w1 where w1: "settles (timestamp e) w w1"
    "lookup_stream w1 = (lookup_stream w)(i \<mapsto> paid (timestamp e) item)"
    and rest: "pay_all tk e items w1 = Inr w'"
  proof (cases "p = 0")
    case True
    have "settles (timestamp e) w (extend_stream e i s w)" by (simp add: settles_refl)
    moreover have "lookup_stream (extend_stream e i s w) = (lookup_stream w)(i \<mapsto> paid (timestamp e) item)"
      using True pr(1) by (simp add: item paid_def fun_upd_idem)
    ultimately show ?thesis using that Cons.prems(1) True by (simp add: item)
  next
    case False
    then obtain s' w1 where run: "apply_withdrawal tk e i s p w = Inr (s', w1)"
      "pay_all tk e items w1 = Inr w'"
      using Cons.prems(1) by (auto simp: item)
    have "0 < p" "p \<le> vested_amount s (timestamp e) - withdrawn s" using False pr by (simp_all add: max_def split: if_splits)
    note eff = apply_withdrawal_effect [OF sound_worldD(1) [OF Cons.prems(2) pr(1)] pr(1) this run(1)]
    show ?thesis
      by (rule that [OF eff(6) _ run(2)]) (use False eff(1,2) in \<open>simp add: item paid_def\<close>)
  qed
  have "sound_world (timestamp e) w1" using w1(1) Cons.prems(2) by (rule settles_sound)
  moreover have "\<forall>it\<in>set items. priced (timestamp e) w1 it"
    using Cons.prems(3,4) w1(2) by (force simp: priced_def item)
  ultimately have IH: "settles (timestamp e) w1 w' \<and>
    lookup_stream w' = lookup_stream w1 ++ map_of (map (\<lambda>item. (fst item, paid (timestamp e) item)) items)"
    using Cons.IH [OF rest] Cons.prems(3) by simp
  have ni: "i \<notin> dom (map_of (map (\<lambda>item. (fst item, paid (timestamp e) item)) items))"
    using Cons.prems(3) by (auto simp: item dom_map_of_conv_image_fst image_image)
  have "lookup_stream w' = lookup_stream w ++
      map_of (map (\<lambda>item. (fst item, paid (timestamp e) item)) (item # items))"
    using IH w1(2) ni by (simp add: item map_add_upd_left)
  with IH w1(1) show ?case by (blast intro: settles_trans)
qed

text \<open>
  What every payment and every extension of rent keeps, the batch keeps: a reflexive and transitive
  relation between worlds that holds across each of them holds across the loop.
\<close>

lemma pay_all_chain:
  assumes run: "pay_all tk e items w = Inr w'" and inv: "sound_world (timestamp e) w"
    and d: "distinct (map fst items)" and pr: "\<forall>item\<in>set items. priced (timestamp e) w item"
    and rel: "\<And>v. R v v" "\<And>v i s. R v (extend_stream e i s v)" "\<And>a b c. R a b \<Longrightarrow> R b c \<Longrightarrow> R a c"
    and pay: "\<And>v i s p s' v'. sound_world (timestamp e) v \<Longrightarrow> lookup_stream v i = Some s \<Longrightarrow> 0 < p \<Longrightarrow>
      p \<le> vested_amount s (timestamp e) - withdrawn s \<Longrightarrow> apply_withdrawal tk e i s p v = Inr (s', v') \<Longrightarrow> R v v'"
  shows "R w w'"
  using run inv d pr
proof (induction items arbitrary: w)
  case Nil
  then show ?case by (simp add: rel(1))
next
  case (Cons item items)
  obtain i s p where item: "item = (i, s, p)" by (cases item)
  have it: "lookup_stream w i = Some s" "p = max 0 (vested_amount s (timestamp e) - withdrawn s)"
    using Cons.prems(4) by (auto simp: item priced_def)
  obtain w1 where one: "pay_all tk e [item] w = Inr w1" and rest: "pay_all tk e items w1 = Inr w'"
    using Cons.prems(1) by (auto simp: item split: if_splits)
  note eff = pay_all_effect [OF one Cons.prems(2)]
  have st: "settles (timestamp e) w w1" "lookup_stream w1 = (lookup_stream w)(i \<mapsto> paid (timestamp e) item)"
    using eff Cons.prems(4) by (simp_all add: item)
  have "R w w1"
  proof (cases "p = 0")
    case True
    then show ?thesis using one rel(2) by (auto simp: item)
  next
    case False
    then obtain s' where "apply_withdrawal tk e i s p w = Inr (s', w1)" using one by (auto simp: item)
    with Cons.prems(2) it False show ?thesis by (intro pay) (simp_all add: max_def split: if_splits)
  qed
  moreover have "\<forall>x\<in>set items. priced (timestamp e) w1 x"
    using Cons.prems(3,4) st(2) by (force simp: priced_def item)
  then have "R w1 w'"
    using Cons.IH [OF rest settles_sound [OF st(1) Cons.prems(2)]] Cons.prems(3) by simp
  ultimately show ?case by (rule rel(3))
qed

lemma batch_withdraw_Inr:
  assumes "batch_withdraw tk e payee raws w = Inr (r, w')" and inv: "sound_world (timestamp e) w"
  obtains items where
    "\<not> is_halted w" "authorized e payee" "distinct (map fst items)" "items \<noteq> []"
    "length items \<le> MAX_BATCH_SIZE" "raws = map RawU64 (map fst items)"
    "\<forall>item\<in>set items. priced (timestamp e) w item"
    "\<forall>item\<in>set items. recipient (fst (snd item)) = payee"
    "r = (\<Sum>item\<leftarrow>items. snd (snd item))" "pay_all tk e items w = Inr w'"
    "reconcile_tokens tk e w' [] (map (\<lambda>(i, s, p). token s) items) = Inr ()"
proof -
  obtain ids items where *: "\<not> is_halted w" "validate_batch_ids raws = Inr ids"
    "reject_duplicate_ids ids = Inr ()" "authorized e payee"
    "price_withdrawals e payee w ids 0 = Inr (items, r)" "pay_all tk e items w = Inr w'"
    "reconcile_tokens tk e w' [] (map (\<lambda>(i, s, p). token s) items) = Inr ()"
    using assms(1) by (auto simp: batch_withdraw_def)
  note pr = price_withdrawals_Inr [OF *(5) inv]
  have "ids \<noteq> []" "length ids \<le> MAX_BATCH_SIZE" "raws = map RawU64 ids" "distinct ids"
    using *(2,3) by (simp_all add: validate_batch_ids_Inr reject_duplicate_ids_Inr)
  moreover have "length ids = length items" using pr(1) by auto
  ultimately show thesis using * pr by (intro that) auto
qed

lemma reconcile_tokens_Inr:
  "reconcile_tokens tk e w done tkns = Inr u \<longleftrightarrow>
     (\<forall>tkn\<in>set tkns - set done. verify_pool_balance tk e tkn w = Inr ())"
proof (induction tkns arbitrary: "done")
  case (Cons t ts)
  show ?case
  proof (cases "t \<in> set done")
    case True
    with Cons.IH show ?thesis by (auto simp del: verify_pool_balance_Inr)
  next
    case False
    with Cons.IH [of "done @ [t]"] show ?thesis by (auto simp del: verify_pool_balance_Inr)
  qed
qed simp

interpretation batch_withdraw: halting_settlement "\<lambda>e. batch_withdraw tk e payee raws" for tk payee raws
proof
  show "settles (timestamp e) w w'"
    if "sound_world (timestamp e) w" "batch_withdraw tk e payee raws w = Inr (r, w')" for e w r w'
    using that(2,1)
  proof (rule batch_withdraw_Inr)
    fix items
    assume "distinct (map fst items)" "\<forall>item\<in>set items. priced (timestamp e) w item"
      "pay_all tk e items w = Inr w'"
    then show ?thesis using pay_all_effect that(1) by blast
  qed
qed (simp add: batch_withdraw_def require_not_halted_def)

section \<open>Batched cancellations\<close>

lemma resolve_owned_Inr:
  "resolve_owned w owner ids = Inr streams \<longleftrightarrow>
     map fst streams = ids \<and>
     (\<forall>(i, s)\<in>set streams. lookup_stream w i = Some s \<and> sender s = owner)"
  by (induction ids arbitrary: streams) (auto simp: Cons_eq_map_conv)

definition quoted :: "u64 \<Rightarrow> 't world \<Rightarrow> u64 \<times> stream \<times> int \<times> int \<Rightarrow> bool" where
  "quoted now w item \<longleftrightarrow>
     (case item of (i, s, vested_now, refund) \<Rightarrow>
        lookup_stream w i = Some s \<and> quote_cancel s now = Inr (vested_now, refund))"

lemma quotes_case_eq:
  "(case q of Refused a b \<Rightarrow> Refused a b | Quoted its f \<Rightarrow> Quoted (x # its) f) = Quoted items final \<longleftrightarrow>
     (\<exists>its. q = Quoted its final \<and> items = x # its)"
  "(case q of Refused a b \<Rightarrow> Refused a b | Quoted its f \<Rightarrow> Quoted (x # its) f) = Refused k reason \<longleftrightarrow>
     q = Refused k reason"
  by (cases q; auto)+

lemma price_cancels_Quoted_all:
  "price_cancels now index streams acc = Inr (Quoted items final) \<Longrightarrow>
     map (\<lambda>(i, s, v, r). (i, s)) items = streams \<and>
     (\<forall>(i, s, v, r)\<in>set items. quote_cancel s now = Inr (v, r)) \<and>
     final = acc + (\<Sum>(i, s, v, r)\<leftarrow>items. r)"
proof (induction streams arbitrary: index acc items)
  case (Cons x streams)
  obtain i s where x: "x = (i, s)" by (cases x)
  obtain v r items' where *: "quote_cancel s now = Inr (v, r)" "items = (i, s, v, r) # items'"
    "price_cancels now (index + 1) streams (acc + r) = Inr (Quoted items' final)"
    using Cons.prems by (auto simp: x quotes_case_eq split: sum.splits fault.splits prod.splits)
  show ?case using Cons.IH [OF *(3)] *(1) by (simp add: x *(2) case_prod_unfold)
qed simp

lemmas price_cancels_Quoted =
  price_cancels_Quoted_all [THEN conjunct1]
  price_cancels_Quoted_all [THEN conjunct2, THEN conjunct1]
  price_cancels_Quoted_all [THEN conjunct2, THEN conjunct2]

text \<open>A refusal names the first member, in batch order, that cannot be cancelled.\<close>

lemma price_cancels_Refused:
  assumes "price_cancels now index streams acc = Inr (Refused k reason)"
  shows "\<exists>pre i s post. streams = pre @ (i, s) # post \<and> k = index + of_nat (length pre) \<and>
    quote_cancel s now = Inl (Err reason) \<and> (\<forall>(j, r)\<in>set pre. \<exists>q. quote_cancel r now = Inr q)"
  using assms
proof (induction streams arbitrary: index acc)
  case (Cons x streams)
  obtain i s where x: "x = (i, s)" by (cases x)
  show ?case
  proof (cases "quote_cancel s now")
    case (Inl f)
    then have "f = Err reason" "k = index" using Cons.prems by (auto simp: x split: fault.splits)
    with Inl show ?thesis
      by (intro exI [of _ "[]"] exI [of _ i] exI [of _ s] exI [of _ streams]) (simp add: x)
  next
    case (Inr q)
    then obtain acc' where "price_cancels now (index + 1) streams acc' = Inr (Refused k reason)"
      using Cons.prems by (auto simp: x quotes_case_eq split: prod.splits)
    from Cons.IH [OF this] obtain pre j r post where
      *: "streams = pre @ (j, r) # post" "k = index + 1 + of_nat (length pre)"
      "quote_cancel r now = Inl (Err reason)" "\<forall>(j, r)\<in>set pre. \<exists>q. quote_cancel r now = Inr q"
      by blast
    show ?thesis
      by (intro exI [of _ "x # pre"] exI [of _ j] exI [of _ r] exI [of _ post])
        (use * Inr in \<open>simp add: x add.assoc\<close>)
  qed
qed simp

lemma settle_all_effect:
  assumes "settle_all tk e (timestamp e) items w = Inr w'" "sound_world (timestamp e) w"
    "distinct (map fst items)" "\<forall>item\<in>set items. quoted (timestamp e) w item"
  shows "settles (timestamp e) w w' \<and>
    lookup_stream w' = lookup_stream w ++
      map_of (map (\<lambda>(i, s, v, r). (i, cancelled_stream (timestamp e) s)) items)"
  using assms
proof (induction items arbitrary: w)
  case Nil
  then show ?case by (simp add: settles_refl)
next
  case (Cons item items)
  obtain i s v r where item: "item = (i, s, v, r)" by (cases item)
  have q: "lookup_stream w i = Some s" "quote_cancel s (timestamp e) = Inr (v, r)"
    using Cons.prems(4) by (auto simp: item quoted_def)
  obtain w1 where run: "settle_cancel tk e i s (timestamp e) v r w = Inr w1"
    and rest: "settle_all tk e (timestamp e) items w1 = Inr w'"
    using Cons.prems(1) by (auto simp: item)
  note eff = settle_cancel_effect [OF Cons.prems(2) q run]
  have "sound_world (timestamp e) w1" using eff(7) Cons.prems(2) by (rule settles_sound)
  moreover have "\<forall>it\<in>set items. quoted (timestamp e) w1 it"
    using Cons.prems(3,4) eff(4) by (force simp: quoted_def item)
  ultimately have IH: "settles (timestamp e) w1 w' \<and>
    lookup_stream w' = lookup_stream w1 ++
      map_of (map (\<lambda>(i, s, v, r). (i, cancelled_stream (timestamp e) s)) items)"
    by (intro Cons.IH [OF rest]) (use Cons.prems(3) in auto)
  have "i \<notin> dom (map_of (map (\<lambda>(i, s, v, r). (i, cancelled_stream (timestamp e) s)) items))"
    using Cons.prems(3) by (auto simp: item dom_map_of_conv_image_fst image_image case_prod_beta)
  then have "lookup_stream w' = lookup_stream w ++
      map_of (map (\<lambda>(i, s, v, r). (i, cancelled_stream (timestamp e) s)) (item # items))"
    using IH eff(4) by (simp add: item map_add_upd_left)
  with IH eff(7) show ?case by (blast intro: settles_trans)
qed

text \<open>The same for the settlements of a batched cancellation.\<close>

lemma settle_all_chain:
  assumes run: "settle_all tk e (timestamp e) items w = Inr w'" and inv: "sound_world (timestamp e) w"
    and d: "distinct (map fst items)" and q: "\<forall>item\<in>set items. quoted (timestamp e) w item"
    and rel: "\<And>v. R v v" "\<And>a b c. R a b \<Longrightarrow> R b c \<Longrightarrow> R a c"
    and settle: "\<And>x i s vn r y. sound_world (timestamp e) x \<Longrightarrow> lookup_stream x i = Some s \<Longrightarrow>
      quote_cancel s (timestamp e) = Inr (vn, r) \<Longrightarrow> settle_cancel tk e i s (timestamp e) vn r x = Inr y \<Longrightarrow> R x y"
  shows "R w w'"
  using run inv d q
proof (induction items arbitrary: w)
  case Nil
  then show ?case by (simp add: rel(1))
next
  case (Cons item items)
  obtain i s vn r where item: "item = (i, s, vn, r)" by (cases item)
  have it: "lookup_stream w i = Some s" "quote_cancel s (timestamp e) = Inr (vn, r)"
    using Cons.prems(4) by (auto simp: item quoted_def)
  obtain w1 where one: "settle_cancel tk e i s (timestamp e) vn r w = Inr w1"
    and rest: "settle_all tk e (timestamp e) items w1 = Inr w'"
    using Cons.prems(1) by (auto simp: item)
  note eff = settle_cancel_effect [OF Cons.prems(2) it one]
  have "\<forall>x\<in>set items. quoted (timestamp e) w1 x"
    using eff(4) Cons.prems(3,4) by (force simp: quoted_def item)
  then have "R w1 w'"
    using Cons.IH [OF rest settles_sound [OF eff(7) Cons.prems(2)]] Cons.prems(3) by simp
  with settle [OF Cons.prems(2) it one] show ?case by (rule rel(2))
qed

text \<open>What a quote says of a sound stream, and what the settlement does to each member.\<close>

lemma quote_cancel_verdict:
  assumes "sound now s"
  shows "quote_cancel s now = Inl (Err reason) \<Longrightarrow>
      reason = (if \<not> cancellable s then NotCancellable else StreamTerminated) \<and>
      (\<not> cancellable s \<or> is_terminal (status s))"
    "quote_cancel s now = Inr (v, r) \<Longrightarrow>
      cancellable s \<and> \<not> is_terminal (status s) \<and> r = deposited s - vested_amount s now"
  by (auto simp: quote_cancel_ok [OF soundD(1) [OF assms]] split: if_splits)

lemma settle_all_members:
  assumes "settle_all tk e (timestamp e) items w = Inr w'" "sound_world (timestamp e) w"
    "distinct (map fst items)" "\<forall>item\<in>set items. quoted (timestamp e) w item"
  shows "(i, s, v, r) \<in> set items \<Longrightarrow>
      lookup_stream w i = Some s \<and> r = deposited s - vested_amount s (timestamp e) \<and>
      lookup_stream w' i = Some (cancelled_stream (timestamp e) s)"
    "j \<notin> fst ` set items \<Longrightarrow> lookup_stream w' j = lookup_stream w j"
proof -
  let ?new = "map_of (map (\<lambda>x. (fst x, cancelled_stream (timestamp e) (fst (snd x)))) items)"
  have new: "lookup_stream w' = lookup_stream w ++ ?new"
    using settle_all_effect [OF assms] by (simp add: case_prod_unfold)
  {
    assume m: "(i, s, v, r) \<in> set items"
    then have it: "lookup_stream w i = Some s" "quote_cancel s (timestamp e) = Inr (v, r)"
      using assms(4) by (auto simp: quoted_def)
    have "?new i = Some (cancelled_stream (timestamp e) s)"
      using map_of_tagged [OF assms(3) m, of "\<lambda>x. cancelled_stream (timestamp e) (fst (snd x))"] by simp
    then show "lookup_stream w i = Some s \<and> r = deposited s - vested_amount s (timestamp e) \<and>
        lookup_stream w' i = Some (cancelled_stream (timestamp e) s)"
      using it quote_cancel_verdict(2) [OF sound_worldD(1) [OF assms(2) it(1)] it(2)] by (simp add: new)
  }
  assume "j \<notin> fst ` set items"
  then show "lookup_stream w' j = lookup_stream w j"
    using map_of_tagged_outside [of j items "\<lambda>x. cancelled_stream (timestamp e) (fst (snd x))"]
    by (simp add: new map_add_def)
qed

text \<open>A batch either refuses and changes nothing, or settles every member.\<close>

lemma batch_cancel_Inr:
  assumes run: "batch_cancel tk e owner raws w = Inr (out, w')"
  obtains (refused) k reason ids pre i s post where
      "w' = w" "out = \<lparr>refunded = 0, refused_index = Some k, refused_reason = Some (discriminant reason)\<rparr>"
      "raws = map RawU64 ids" "ids = map fst (pre @ (i, s) # post)" "k = of_nat (length pre)"
      "lookup_stream w i = Some s" "quote_cancel s (timestamp e) = Inl (Err reason)"
      "\<forall>(j, r)\<in>set pre. lookup_stream w j = Some r \<and> (\<exists>q. quote_cancel r (timestamp e) = Inr q)"
      "authorized e owner" "sender s = owner"
  | (settled) items where
      "settle_all tk e (timestamp e) items w = Inr w'" "raws = map RawU64 (map fst items)"
      "out = \<lparr>refunded = (\<Sum>(i, s, v, r)\<leftarrow>items. r), refused_index = None, refused_reason = None\<rparr>"
      "distinct (map fst items)" "items \<noteq> []" "length items \<le> MAX_BATCH_SIZE" "authorized e owner"
      "\<forall>item\<in>set items. quoted (timestamp e) w item"
      "\<forall>(i, s, v, r)\<in>set items. sender s = owner"
proof -
  obtain ids streams quotes where *: "validate_batch_ids raws = Inr ids" "reject_duplicate_ids ids = Inr ()"
    "authorized e owner" "resolve_owned w owner ids = Inr streams"
    "price_cancels (timestamp e) 0 streams 0 = Inr quotes"
    and tail: "(case quotes of
       Refused index reason \<Rightarrow>
         Inr (\<lparr>refunded = 0, refused_index = Some index,
               refused_reason = Some (discriminant reason)\<rparr>, w)
     | Quoted items final \<Rightarrow>
         and_then (settle_all tk e (timestamp e) items w) (\<lambda>w1.
         Inr (\<lparr>refunded = final, refused_index = None, refused_reason = None\<rparr>, w1))) = Inr (out, w')"
    using run by (auto simp: batch_cancel_def Let_def)
  have ids: "raws = map RawU64 ids" "distinct ids" "ids \<noteq> []" "length ids \<le> MAX_BATCH_SIZE"
    using *(1,2) by (simp_all add: validate_batch_ids_Inr reject_duplicate_ids_Inr)
  have st: "map fst streams = ids"
    "\<forall>(i, s)\<in>set streams. lookup_stream w i = Some s \<and> sender s = owner"
    using *(4) by (simp_all add: resolve_owned_Inr)
  show thesis
  proof (cases quotes)
    case (Refused k reason)
    with *(5) obtain pre i s post where p: "streams = pre @ (i, s) # post" "k = of_nat (length pre)"
      "quote_cancel s (timestamp e) = Inl (Err reason)"
      "\<forall>(j, r)\<in>set pre. \<exists>q. quote_cancel r (timestamp e) = Inr q"
      using price_cancels_Refused [of "timestamp e" 0 streams 0 k reason] by auto
    show thesis
      by (rule refused [of k reason ids pre i s post]) (use tail Refused p ids st *(3) in auto)
  next
    case (Quoted items final)
    note q = price_cancels_Quoted [OF *(5) [unfolded Quoted]]
    have fsts: "map fst items = ids" using q(1) st(1) by (auto simp: case_prod_beta comp_def)
    have mem: "(i, s) \<in> set streams" if "(i, s, v, r) \<in> set items" for i s v r
      using that q(1) by (force simp: image_iff)
    show thesis
    proof (rule settled [of items])
      show "settle_all tk e (timestamp e) items w = Inr w'" "raws = map RawU64 (map fst items)"
        "out = \<lparr>refunded = (\<Sum>(i, s, v, r)\<leftarrow>items. r), refused_index = None, refused_reason = None\<rparr>"
        using tail Quoted q(3) ids(1) fsts by auto
      show "distinct (map fst items)" "items \<noteq> []" "length items \<le> MAX_BATCH_SIZE" "authorized e owner"
        using ids fsts *(3) by auto
      show "\<forall>item\<in>set items. quoted (timestamp e) w item" "\<forall>(i, s, v, r)\<in>set items. sender s = owner"
        using mem st(2) q(2) by (fastforce simp: quoted_def)+
    qed
  qed
qed

interpretation batch_cancel: settlement "\<lambda>e. batch_cancel tk e owner raws" for tk owner raws
proof
  show "settles (timestamp e) w w'"
    if "sound_world (timestamp e) w" "batch_cancel tk e owner raws w = Inr (r, w')" for e w r w'
    using that(2)
  proof (cases rule: batch_cancel_Inr)
    case refused
    then show ?thesis by (simp add: settles_refl)
  next
    case settled
    then show ?thesis using settle_all_effect that(1) by blast
  qed
qed

end
