(* ===== verification/Delegation.thy ===== *)
theory Delegation
  imports Batch
begin

text \<open>
  Delegation, in \<^verbatim>\<open>contracts/stream/src/lib.rs\<close>: \<open>grant_delegate\<close>, \<open>revoke_delegate\<close>,
  the check every delegated call makes, and the six delegated operations. Each delegated
  operation except \<open>delegate_top_up\<close> is shown equal to the direct one with the
  authorization of the owner replaced by the check; \<open>delegate_top_up\<close> is shown to keep the
  contract on linear streams, and the root theory shows what it does on the others.
\<close>

section \<open>The code\<close>

definition check_delegate :: "env \<Rightarrow> u64 \<Rightarrow> address \<Rightarrow> u32 \<Rightarrow> 't world \<Rightarrow> unit result" where
  "check_delegate e stream_id caller permission w =
     (case load_delegate w stream_id caller of
        None \<Rightarrow> Inl (Err DelegateNotPermitted)
      | Some grant \<Rightarrow>
          if (case expires_at grant of Some expiry \<Rightarrow> timestamp e > expiry | None \<Rightarrow> False)
          then Inl (Err DelegateExpired)
          else if and (ops grant) permission = 0 then Inl (Err DelegateNotPermitted)
          else require_auth e caller)"

definition sender_ops :: u32 where
  "sender_ops = or (or (or op_CANCEL op_PAUSE) op_RESUME) op_TOP_UP"

definition recipient_ops :: u32 where
  "recipient_ops = or op_WITHDRAW op_TRANSFER_RECIPIENT"

definition grant_delegate ::
    "env \<Rightarrow> u64 \<Rightarrow> address \<Rightarrow> address \<Rightarrow> u32 \<Rightarrow> u64 option \<Rightarrow> 't world \<Rightarrow> (unit \<times> 't world) result" where
  "grant_delegate e stream_id grantor delegate requested expiry w =
     and_then (require_not_halted w) (\<lambda>_.
     and_then (load_stream e w stream_id) (\<lambda>(s, w1).
     if is_terminal (status s) then Inl (Err StreamTerminated)
     else
       let needs_sender = and requested sender_ops \<noteq> 0;
           needs_recipient = and requested recipient_ops \<noteq> 0
       in
       if needs_sender \<and> needs_recipient then Inl (Err Unauthorized)
       else
         let store =
           and_then (require_auth e grantor) (\<lambda>_.
           and_then (save_delegate e stream_id delegate
             \<lparr>ops = requested, expires_at = expiry\<rparr> w1) (\<lambda>w2.
           Inr ((), emit_delegate_granted stream_id grantor delegate requested expiry w2)))
         in
         if needs_sender then
           (if grantor \<noteq> sender s then Inl (Err Unauthorized) else store)
         else if needs_recipient then
           (if grantor \<noteq> recipient s then Inl (Err Unauthorized) else store)
         else Inr ((), w1)))"

definition revoke_delegate ::
    "env \<Rightarrow> u64 \<Rightarrow> address \<Rightarrow> address \<Rightarrow> 't world \<Rightarrow> (unit \<times> 't world) result" where
  "revoke_delegate e stream_id grantor delegate w =
     and_then (require_not_halted w) (\<lambda>_.
     and_then (load_stream e w stream_id) (\<lambda>(s, w1).
     if grantor \<noteq> sender s \<and> grantor \<noteq> recipient s then Inl (Err Unauthorized)
     else
       and_then (require_auth e grantor) (\<lambda>_.
       Inr ((), emit_delegate_revoked stream_id grantor delegate
              (remove_delegate stream_id delegate w1)))))"

definition delegate_withdraw ::
    "'t token_iface \<Rightarrow> env \<Rightarrow> u64 \<Rightarrow> address \<Rightarrow> int option \<Rightarrow> 't world \<Rightarrow> (int \<times> 't world) result" where
  "delegate_withdraw tk e stream_id delegate amount w =
     and_then (require_not_halted w) (\<lambda>_.
     and_then (check_delegate e stream_id delegate op_WITHDRAW w) (\<lambda>_.
     and_then (load_stream e w stream_id) (\<lambda>(s, w1).
     let now = timestamp e in
     and_then (withdrawable s now) (\<lambda>available.
     if available = 0 then
       (if is_terminal (status s) then Inl (Err StreamTerminated) else Inl (Err NothingToWithdraw))
     else
       and_then
         (case amount of
            None \<Rightarrow> Inr available
          | Some requested \<Rightarrow>
              if requested \<le> 0 then Inl (Err InvalidAmount)
              else if requested > available then Inl (Err InsufficientWithdrawable)
              else Inr requested) (\<lambda>payout.
       and_then (apply_withdrawal tk e stream_id s payout w1) (\<lambda>(s', w2).
       and_then (verify_pool_balance tk e (token s') w2) (\<lambda>_.
       Inr (payout, w2))))))))"

definition delegate_cancel ::
    "'t token_iface \<Rightarrow> env \<Rightarrow> u64 \<Rightarrow> address \<Rightarrow> 't world \<Rightarrow> (unit \<times> 't world) result" where
  "delegate_cancel tk e stream_id delegate w =
     and_then (require_not_halted w) (\<lambda>_.
     and_then (check_delegate e stream_id delegate op_CANCEL w) (\<lambda>_.
     and_then (load_stream e w stream_id) (\<lambda>(s, w1).
     if \<not> cancellable s then Inl (Err NotCancellable)
     else if is_terminal (status s) then Inl (Err StreamTerminated)
     else
       let now = timestamp e in
       and_then (vested s now) (\<lambda>vested_now.
       and_then (refundable s now) (\<lambda>refund.
       let settle_at = max (stream_time s now) (start_time s);
           s' = s\<lparr>deposited := vested_now, end_time := settle_at, paused_at := None,
                  status := Cancelled\<rparr>
       in
       and_then (save_stream e stream_id s' w1) (\<lambda>w2.
       and_then
         (if refund > 0
          then and_then (debit_pool e (token s') refund w2) (\<lambda>w3.
               token_transfer tk (token s') (contract_address e) (sender s') refund w3)
          else Inr w2) (\<lambda>w4.
       and_then (verify_pool_balance tk e (token s') w4) (\<lambda>_.
       Inr ((), emit_cancelled stream_id s' refund w4)))))))))"

definition delegate_pause :: "env \<Rightarrow> u64 \<Rightarrow> address \<Rightarrow> 't world \<Rightarrow> (unit \<times> 't world) result" where
  "delegate_pause e stream_id delegate w =
     and_then (require_not_halted w) (\<lambda>_.
     and_then (check_delegate e stream_id delegate op_PAUSE w) (\<lambda>_.
     and_then (load_stream e w stream_id) (\<lambda>(s, w1).
     if \<not> pausable s then Inl (Err NotPausable)
     else if is_terminal (status s) then Inl (Err StreamTerminated)
     else if status s = Paused then Inl (Err StreamAlreadyPaused)
     else
       let now = timestamp e;
           s' = s\<lparr>paused_at := Some now, status := Paused\<rparr>
       in
       and_then (save_stream e stream_id s' w1) (\<lambda>w2.
       Inr ((), emit_paused stream_id s' now w2)))))"

definition delegate_resume :: "env \<Rightarrow> u64 \<Rightarrow> address \<Rightarrow> 't world \<Rightarrow> (unit \<times> 't world) result" where
  "delegate_resume e stream_id delegate w =
     and_then (require_not_halted w) (\<lambda>_.
     and_then (check_delegate e stream_id delegate op_RESUME w) (\<lambda>_.
     and_then (load_stream e w stream_id) (\<lambda>(s, w1).
     if is_terminal (status s) then Inl (Err StreamTerminated)
     else
       and_then (ok_or (Err StreamNotPaused) (paused_at s)) (\<lambda>p.
       if status s \<noteq> Paused then Inl (Err StreamNotPaused)
       else
         let now = timestamp e;
             paused_duration = saturating_sub_u64 now p
         in
         and_then (ok_or (Err Overflow) (checked_add_u64 (paused_total s) paused_duration)) (\<lambda>new_total.
         let s' = s\<lparr>paused_total := new_total, paused_at := None, status := Active\<rparr> in
         and_then (save_stream e stream_id s' w1) (\<lambda>w2.
         Inr ((), emit_resumed stream_id s' paused_duration w2)))))))"

definition delegate_top_up ::
    "'t token_iface \<Rightarrow> env \<Rightarrow> u64 \<Rightarrow> address \<Rightarrow> int \<Rightarrow> 't world \<Rightarrow> (unit \<times> 't world) result" where
  "delegate_top_up tk e stream_id delegate amount w =
     and_then (require_not_halted w) (\<lambda>_.
     and_then (check_delegate e stream_id delegate op_TOP_UP w) (\<lambda>_.
     and_then (load_stream e w stream_id) (\<lambda>(s, w1).
     if is_terminal (status s) then Inl (Err StreamTerminated)
     else if amount \<le> 0 then Inl (Err InvalidAmount)
     else
       let now = timestamp e in
       if stream_time s now \<ge> end_time s then Inl (Err StreamMatured)
       else
         let current_duration = uint (duration s) in
         and_then (ok_or (Err Overflow) (checked_mul_i128 amount current_duration)) (\<lambda>scaled.
         and_then (ok_or (Err Overflow) (checked_div_i128 scaled (deposited s))) (\<lambda>delta.
         if delta < 0 \<or> delta > u64_max then Inl (Err Overflow)
         else if delta = 0 then Inl (Err TopUpTooSmall)
         else
           and_then (ok_or (Err Overflow) (checked_add_i128 (deposited s) amount)) (\<lambda>new_deposited.
           and_then (ok_or (Err Overflow) (checked_add_u64 (end_time s) (word_of_int delta))) (\<lambda>new_end.
           and_then (ok_or (Err Overflow) (checked_sub_u64 new_end (start_time s))) (\<lambda>new_duration.
           and_then (ok_or (Err Overflow) (checked_mul_i128 new_deposited (uint new_duration))) (\<lambda>_.
           if new_deposited < uint new_duration then Inl (Err DepositRateTooLow)
           else
             let s' = s\<lparr>deposited := new_deposited, end_time := new_end\<rparr> in
             and_then (save_stream e stream_id s' w1) (\<lambda>w2.
             and_then (require_auth e (sender s')) (\<lambda>_.
             and_then (pull_deposit tk e (token s') (sender s') amount w2) (\<lambda>w3.
             and_then (verify_pool_balance tk e (token s') w3) (\<lambda>_.
             and_then (emit_topped_up stream_id s' amount w3) (\<lambda>w4.
             Inr ((), w4)))))))))))))))"

definition delegate_transfer_recipient ::
    "env \<Rightarrow> u64 \<Rightarrow> address \<Rightarrow> address \<Rightarrow> 't world \<Rightarrow> (unit \<times> 't world) result" where
  "delegate_transfer_recipient e stream_id delegate new_recipient w =
     and_then (require_not_halted w) (\<lambda>_.
     and_then (check_delegate e stream_id delegate op_TRANSFER_RECIPIENT w) (\<lambda>_.
     and_then (load_stream e w stream_id) (\<lambda>(s, w1).
     if \<not> transferable s then Inl (Err NotTransferable)
     else if status s = Depleted \<or> withdrawn s \<ge> deposited s then Inl (Err StreamTerminated)
     else if new_recipient = sender s then Inl (Err SelfStream)
     else
       let old_recipient = recipient s in
       if old_recipient = new_recipient then Inl (Err RepeatedTransfer)
       else
         let s' = s\<lparr>recipient := new_recipient\<rparr> in
         and_then (save_stream e stream_id s' w1) (\<lambda>w2.
         Inr ((), emit_recipient_transferred stream_id (sender s') old_recipient new_recipient w2)))))"

section \<open>Authorization is all that an environment's signers decide\<close>

definition signed_by :: "env \<Rightarrow> address \<Rightarrow> env" where
  "signed_by e a = e\<lparr>authorized := (\<lambda>x. x = a)\<rparr>"

lemma signed_by_fields [simp]:
  "timestamp (signed_by e a) = timestamp e" "sequence (signed_by e a) = sequence e"
  "max_ttl (signed_by e a) = max_ttl e" "contract_address (signed_by e a) = contract_address e"
  "authorized (signed_by e a) x = (x = a)"
  by (simp_all add: signed_by_def)

lemma signed_by_irrelevant [simp]:
  "extend_instance (signed_by e a) = extend_instance e"
  "extend_entry (signed_by e a) = extend_entry e"
  "ttl_target_ledgers (signed_by e a) = ttl_target_ledgers e"
  by (simp_all add: extend_instance_def extend_entry_def ttl_target_ledgers_def fun_eq_iff)

lemma signed_by_irrelevant_store [simp]:
  "extend_stream (signed_by e a) = extend_stream e"
  "set_pooled_balance (signed_by e a) = set_pooled_balance e"
  by (simp_all add: extend_stream_def set_pooled_balance_def fun_eq_iff Let_def)

lemma signed_by_irrelevant_ops [simp]:
  "load_stream (signed_by e a) = load_stream e"
  "save_stream (signed_by e a) = save_stream e"
  "debit_pool (signed_by e a) = debit_pool e"
  "credit_pool (signed_by e a) = credit_pool e"
  "verify_pool_balance tk (signed_by e a) = verify_pool_balance tk e"
  "book_withdrawal (signed_by e a) = book_withdrawal e"
  unfolding fun_eq_iff load_stream_def save_stream_def debit_pool_def credit_pool_def
    verify_pool_balance_def book_withdrawal_def signed_by_fields signed_by_irrelevant
    signed_by_irrelevant_store
  by simp_all

lemma signed_by_irrelevant_pay [simp]:
  "apply_withdrawal tk (signed_by e a) = apply_withdrawal tk e"
  "settle_cancel tk (signed_by e a) = settle_cancel tk e"
  unfolding fun_eq_iff apply_withdrawal_def settle_cancel_def signed_by_fields signed_by_irrelevant_ops
  by simp_all

lemma require_auth_signed [simp]: "require_auth (signed_by e a) a = Inr ()"
  by (simp add: require_auth_def)


section \<open>Delegated operations are the direct ones behind the check\<close>

lemma check_delegate_Inr:
  "check_delegate e i d permission w = Inr u \<longleftrightarrow>
     (\<exists>g. delegate_entries w (i, d) = Some g \<and> and (ops g) permission \<noteq> 0 \<and>
        (case expires_at g of Some expiry \<Rightarrow> timestamp e \<le> expiry | None \<Rightarrow> True) \<and> authorized e d)"
  by (auto simp: check_delegate_def load_delegate_def not_less not_le split: option.splits)

lemma check_delegate_Inl:
  "check_delegate e i d permission w = Inl f \<Longrightarrow>
     f = Err DelegateNotPermitted \<or> f = Err DelegateExpired \<or> f = Trap"
  by (auto simp: check_delegate_def require_auth_def split: option.splits if_splits)

text \<open>
  The shared shape: halt, check, then the direct operation signed by the stream's owner. The
  owner is only read from a stream that exists.
\<close>

definition behind_check ::
    "env \<Rightarrow> u64 \<Rightarrow> address \<Rightarrow> u32 \<Rightarrow> (stream \<Rightarrow> address) \<Rightarrow> (env \<Rightarrow> 't world \<Rightarrow> 'r result) \<Rightarrow>
     't world \<Rightarrow> 'r result" where
  "behind_check e i d permission owner direct w =
     and_then (require_not_halted w) (\<lambda>_.
     and_then (check_delegate e i d permission w) (\<lambda>_.
     case lookup_stream w i of
       None \<Rightarrow> Inl (Err StreamNotFound)
     | Some s \<Rightarrow> direct (signed_by e (owner s)) w))"

lemma delegate_withdraw_eq:
  "delegate_withdraw tk e i d amount w =
     behind_check e i d op_WITHDRAW recipient (\<lambda>e'. withdraw tk e' i amount) w"
  unfolding delegate_withdraw_def behind_check_def withdraw_def signed_by_fields
    signed_by_irrelevant_ops signed_by_irrelevant_pay
  by (cases "is_halted w"; cases "lookup_stream w i")
    (simp_all add: load_stream_eq require_not_halted_def)

lemma delegate_cancel_eq:
  "delegate_cancel tk e i d w = behind_check e i d op_CANCEL sender (\<lambda>e'. cancel tk e' i) w"
  unfolding delegate_cancel_def behind_check_def cancel_def signed_by_fields
    signed_by_irrelevant_ops signed_by_irrelevant_pay
  by (cases "is_halted w"; cases "lookup_stream w i")
    (simp_all add: load_stream_eq require_not_halted_def quote_cancel_def settle_cancel_def
      and_then_assoc Let_def)

lemma delegate_pause_eq:
  assumes inv: "sound_world (timestamp e) w"
  shows "delegate_pause e i d w = behind_check e i d op_PAUSE sender (\<lambda>e'. pause e' i) w"
proof (cases "is_halted w")
  case False
  show ?thesis
  proof (cases "lookup_stream w i")
    case (Some s)
    then show ?thesis
      using pause_eq [of "signed_by e (sender s)" w i s] inv False
      by (simp add: delegate_pause_def behind_check_def load_stream_eq require_not_halted_def
          paused_stream_def emit_paused_def Let_def)
  qed (simp add: delegate_pause_def behind_check_def load_stream_eq)
qed (simp add: delegate_pause_def behind_check_def require_not_halted_def)

lemma delegate_resume_eq:
  assumes inv: "sound_world (timestamp e) w"
  shows "delegate_resume e i d w = behind_check e i d op_RESUME sender (\<lambda>e'. resume e' i) w"
proof (cases "is_halted w")
  case False
  show ?thesis
  proof (cases "lookup_stream w i")
    case (Some s)
    have so: "sound (timestamp e) s" using inv Some by (rule sound_worldD(1))
    show ?thesis
    proof (cases "paused_at s")
      case None
      then show ?thesis
        using resume_eq [of "signed_by e (sender s)" w i s] inv False Some
        by (simp add: delegate_resume_def behind_check_def load_stream_eq require_not_halted_def)
    next
      case (Some p)
      then have "status s = Paused" using sound_paused_at [OF so] by simp
      then show ?thesis
        using resume_eq [of "signed_by e (sender s)" w i s] inv False \<open>lookup_stream w i = Some s\<close> Some
          absorb_pause [OF soundD(4) [OF so] Some]
        by (simp add: delegate_resume_def behind_check_def load_stream_eq require_not_halted_def
            emit_resumed_def Let_def del: checked_add_u64_Some)
    qed
  qed (simp add: delegate_resume_def behind_check_def load_stream_eq)
qed (simp add: delegate_resume_def behind_check_def require_not_halted_def)

lemma delegate_transfer_recipient_eq:
  assumes inv: "sound_world (timestamp e) w"
  shows "delegate_transfer_recipient e i d a w =
    behind_check e i d op_TRANSFER_RECIPIENT sender (\<lambda>e'. transfer_recipient e' i a) w"
proof (cases "is_halted w")
  case False
  show ?thesis
  proof (cases "lookup_stream w i")
    case (Some s)
    have so: "sound (timestamp e) s" using inv Some by (rule sound_worldD(1))
    note full = sound_full [OF so]
    show ?thesis
      using transfer_recipient_eq [of "signed_by e (sender s)" w i s a] inv False Some full
      by (auto simp: delegate_transfer_recipient_def behind_check_def load_stream_eq
          require_not_halted_def emit_recipient_transferred_def Let_def)
  qed (simp add: delegate_transfer_recipient_def behind_check_def load_stream_eq)
qed (simp add: delegate_transfer_recipient_def behind_check_def require_not_halted_def)

text \<open>So whatever contract the direct operation keeps, the delegated one keeps.\<close>

lemma behind_check_Inr:
  "behind_check e i d permission owner direct w = Inr r \<longleftrightarrow>
     (\<exists>s u. \<not> is_halted w \<and> check_delegate e i d permission w = Inr u \<and> lookup_stream w i = Some s \<and>
        direct (signed_by e (owner s)) w = Inr r)"
  by (cases "lookup_stream w i") (auto simp: behind_check_def)

lemma behind_check_settles:
  assumes "behind_check e i d permission owner direct w = Inr (r, w')" "sound_world (timestamp e) w"
    and "\<And>e w r w'. sound_world (timestamp e) w \<Longrightarrow> direct e w = Inr (r, w') \<Longrightarrow> settles (timestamp e) w w'"
  shows "settles (timestamp e) w w'"
  using assms(1,2) assms(3) [of "signed_by e _" w r w'] by (auto simp: behind_check_Inr)

lemma behind_check_halted: "is_halted w \<Longrightarrow> behind_check e i d permission owner direct w = Inl (Err ContractHalted)"
  by (simp add: behind_check_def require_not_halted_def)

interpretation delegate_withdraw: halting_settlement "\<lambda>e. delegate_withdraw tk e i d amount" for tk i d amount
proof
  show "settles (timestamp e) w w'"
    if "sound_world (timestamp e) w" "delegate_withdraw tk e i d amount w = Inr (r, w')" for e w r w'
    using that unfolding delegate_withdraw_eq by (blast intro: behind_check_settles withdraw.refines)
qed (simp add: delegate_withdraw_eq behind_check_halted)

interpretation delegate_cancel: halting_settlement "\<lambda>e. delegate_cancel tk e i d" for tk i d
proof
  show "settles (timestamp e) w w'"
    if "sound_world (timestamp e) w" "delegate_cancel tk e i d w = Inr (r, w')" for e w r w'
    using that unfolding delegate_cancel_eq by (blast intro: behind_check_settles cancel.refines)
qed (simp add: delegate_cancel_eq behind_check_halted)

lemma delegate_refuses:
  "is_halted w \<Longrightarrow> delegate_pause e i d w = Inl (Err ContractHalted)"
  "is_halted w \<Longrightarrow> delegate_resume e i d w = Inl (Err ContractHalted)"
  "is_halted w \<Longrightarrow> delegate_transfer_recipient e i d a w = Inl (Err ContractHalted)"
  "is_halted w \<Longrightarrow> delegate_top_up tk e i d amount w = Inl (Err ContractHalted)"
  by (simp_all add: delegate_pause_def delegate_resume_def delegate_transfer_recipient_def
      delegate_top_up_def require_not_halted_def)

interpretation delegate_pause: halting_settlement "\<lambda>e. delegate_pause e i d" for i d
proof
  show "settles (timestamp e) w w'"
    if "sound_world (timestamp e) w" "delegate_pause e i d w = Inr (r, w')" for e w r w'
    using that(2) unfolding delegate_pause_eq [OF that(1)]
    by (rule behind_check_settles [OF _ that(1) pause.refines])
qed (rule delegate_refuses)

interpretation delegate_resume: halting_settlement "\<lambda>e. delegate_resume e i d" for i d
proof
  show "settles (timestamp e) w w'"
    if "sound_world (timestamp e) w" "delegate_resume e i d w = Inr (r, w')" for e w r w'
    using that(2) unfolding delegate_resume_eq [OF that(1)]
    by (rule behind_check_settles [OF _ that(1) resume.refines])
qed (rule delegate_refuses)

interpretation delegate_transfer: halting_settlement "\<lambda>e. delegate_transfer_recipient e i d a" for i d a
proof
  show "settles (timestamp e) w w'"
    if "sound_world (timestamp e) w" "delegate_transfer_recipient e i d a w = Inr (r, w')" for e w r w'
    using that(2) unfolding delegate_transfer_recipient_eq [OF that(1)]
    by (rule behind_check_settles [OF _ that(1) transfer.refines])
qed (rule delegate_refuses)


section \<open>The delegated top-up\<close>

lemma delegate_top_up_Inr:
  assumes run: "delegate_top_up tk e i d amount w = Inr (u, w')" and inv: "sound_world (timestamp e) w"
  obtains s new_end w2 w3 where
    "lookup_stream w i = Some s" "\<not> is_halted w" "check_delegate e i d op_TOP_UP w = Inr ()"
    "authorized e (sender s)" "0 < amount" "\<not> is_terminal (status s)"
    "stream_time s (timestamp e) < end_time s" "end_time s \<le> new_end"
    "uint new_end = uint (end_time s) + amount * uint (duration s) div deposited s"
    "curve s = Linear \<Longrightarrow> stream_step (timestamp e) s (grown_stream amount new_end s)"
    "free_step (timestamp e) s (grown_stream amount new_end s)"
    "save_stream e i (grown_stream amount new_end s) (extend_stream e i s w) = Inr w2"
    "pull_deposit tk e (token s) (sender s) amount w2 = Inr w3"
    "verify_pool_balance tk e (token s) w3 = Inr ()"
    "w' = publish (ToppedUpEvent i (sender s) amount (deposited s + amount) new_end (recipient s)) w3"
proof -
  obtain s where s: "lookup_stream w i = Some s" using run by (auto simp: delegate_top_up_def)
  have so: "sound (timestamp e) s" using inv s by (rule sound_worldD(1))
  obtain delta new_end new_duration w2 w3 where
    g: "\<not> is_halted w" "check_delegate e i d op_TOP_UP w = Inr ()" "authorized e (sender s)"
    "\<not> is_terminal (status s)" "0 < amount" "stream_time s (timestamp e) < end_time s"
    and delta: "delta = amount * uint (duration s) sdiv deposited s" "0 \<le> delta" "delta \<le> u64_max"
    and fig: "in_i128 (deposited s + amount)"
      "checked_add_u64 (end_time s) (word_of_int delta) = Some new_end"
      "checked_sub_u64 new_end (start_time s) = Some new_duration"
      "checked_mul_i128 (deposited s + amount) (uint new_duration) \<noteq> None"
      "uint new_duration \<le> deposited s + amount"
    and rest: "save_stream e i (grown_stream amount new_end s) (extend_stream e i s w) = Inr w2"
      "pull_deposit tk e (token s) (sender s) amount w2 = Inr w3"
      "verify_pool_balance tk e (token s) w3 = Inr ()"
      "w' = publish (ToppedUpEvent i (sender s) amount (deposited s + amount) new_end (recipient s)) w3"
    using run s
    by (auto simp: delegate_top_up_def Let_def not_le not_less grown_stream_def
        simp del: checked_add_u64_Some checked_sub_u64_Some verify_pool_balance_Inr)
  have D: "0 < deposited s" using sound_unpaid(2) [OF so g(4)] soundD(2) [OF so] by simp
  have dv: "delta = amount * uint (duration s) div deposited s"
    using delta(1) D g(5) by (simp add: sdiv_nonneg)
  note fg = grown_figures [OF delta(2,3) fig(2-5) fig(1)]
  have end_eq: "uint new_end = uint (end_time s) + amount * uint (duration s) div deposited s"
    using fg(1) dv by simp
  have mono: "vested_amount s (timestamp e) \<le> vested_amount (grown_stream amount new_end s) (timestamp e)"
    if "curve s = Linear"
    using that end_eq by (intro grown_vested_mono [OF so g(4,5,6) fg(2) _ fg(6)]) (simp add: keeps_pace_def)
  have range: "in_i128 (deposited (grown_stream amount new_end s))" using fig(1) by (simp add: grown_stream_def)
  have step: "stream_step (timestamp e) s (grown_stream amount new_end s)" if "curve s = Linear"
    by (rule step_top_up [of amount]) (use g fg mono range that in simp_all)
  have free: "free_step (timestamp e) s (grown_stream amount new_end s)"
    by (rule free_top_up [OF so g(4,5,6) fg(2) range fg(4,5) mono])
  show thesis by (rule that [OF s g(1-3,5,4,6) fg(2) end_eq step free rest])
qed

text \<open>Saving before pulling reaches the same ledger.\<close>

lemma save_pull_effect:
  assumes save: "save_stream e i s' (extend_stream e i s w) = Inr w2"
    and pull: "pull_deposit tk e (token s) (sender s) amount w2 = Inr w3"
    and s: "lookup_stream w i = Some s"
  shows "lookup_stream w3 = (lookup_stream w)(i \<mapsto> s')"
    "pooled_balance w3 = (pooled_balance w)(token s := pooled_balance w (token s) + amount)"
    "next_id w3 = next_id w" "control_of w3 = control_of w" "counters_agree w3 = counters_agree w"
    "events w3 = events w" "in_i128 (pooled_balance w (token s) + amount)"
proof -
  have ex: "lookup_stream (extend_stream e i s w) i \<noteq> None" using s by simp
  note v = ledger_save_stream [OF save ex]
  note p = pull_deposit_fields [OF pull]
  show "lookup_stream w3 = (lookup_stream w)(i \<mapsto> s')"
    "pooled_balance w3 = (pooled_balance w)(token s := pooled_balance w (token s) + amount)"
    "next_id w3 = next_id w" "control_of w3 = control_of w" "counters_agree w3 = counters_agree w"
    "events w3 = events w" "in_i128 (pooled_balance w (token s) + amount)"
    using v p save_stream_fields(3) [OF save ex] pull_deposit_range [OF pull] by simp_all
qed

lemma delegate_top_up_settles:
  assumes run: "delegate_top_up tk e i d amount w = Inr (u, w')" and inv: "sound_world (timestamp e) w"
    and lin: "\<And>s. lookup_stream w i = Some s \<Longrightarrow> curve s = Linear"
  shows "settles (timestamp e) w w'"
  using run inv
proof (rule delegate_top_up_Inr)
  fix s new_end w2 w3
  assume s: "lookup_stream w i = Some s"
    and step: "curve s = Linear \<Longrightarrow> stream_step (timestamp e) s (grown_stream amount new_end s)"
    and save: "save_stream e i (grown_stream amount new_end s) (extend_stream e i s w) = Inr w2"
    and pull: "pull_deposit tk e (token s) (sender s) amount w2 = Inr w3"
    and w': "w' = publish (ToppedUpEvent i (sender s) amount (deposited s + amount) new_end (recipient s)) w3"
  note f = save_pull_effect [OF save pull s]
  have "owed_by (grown_stream amount new_end s) - owed_by s = amount"
    by (simp add: owed_by_def grown_stream_def)
  then have "settles (timestamp e) w w3"
    using f by (intro settles_act [OF s step [OF lin [OF s]]]) simp_all
  then show ?thesis by (simp add: w' settles_publish)
qed

section \<open>Grants\<close>

text \<open>
  Every grant stored is on an existing stream and covers the operations of one side only.
\<close>

definition one_sided :: "u32 \<Rightarrow> bool" where
  "one_sided requested \<longleftrightarrow>
     (and requested sender_ops \<noteq> 0) \<noteq> (and requested recipient_ops \<noteq> 0)"

definition grants_ok :: "'t world \<Rightarrow> bool" where
  "grants_ok w \<longleftrightarrow>
     (\<forall>i d g. delegate_entries w (i, d) = Some g \<longrightarrow> lookup_stream w i \<noteq> None \<and> one_sided (ops g))"

lemma grant_delegate_Inr:
  assumes "grant_delegate e i grantor d requested expiry w = Inr (u, w')"
  obtains (noop) s where
      "lookup_stream w i = Some s" "\<not> is_halted w" "\<not> is_terminal (status s)"
      "and requested sender_ops = 0" "and requested recipient_ops = 0" "w' = extend_stream e i s w"
  | (stored) s w2 where
      "lookup_stream w i = Some s" "\<not> is_halted w" "\<not> is_terminal (status s)" "one_sided requested"
      "grantor = (if and requested sender_ops \<noteq> 0 then sender s else recipient s)"
      "authorized e grantor"
      "save_delegate e i d \<lparr>ops = requested, expires_at = expiry\<rparr> (extend_stream e i s w) = Inr w2"
      "w' = publish (DelegateGrantedEvent i grantor d requested expiry) w2"
  using assms
  by (auto simp: grant_delegate_def Let_def one_sided_def emit_delegate_granted_def split: if_splits)

lemma revoke_delegate_Inr:
  "revoke_delegate e i grantor d w = Inr (u, w') \<longleftrightarrow>
     (\<exists>s. lookup_stream w i = Some s \<and> \<not> is_halted w \<and> (grantor = sender s \<or> grantor = recipient s) \<and>
        authorized e grantor \<and>
        w' = publish (DelegateRevokedEvent i grantor d) (remove_delegate i d (extend_stream e i s w)))"
  by (auto simp: revoke_delegate_def emit_delegate_revoked_def)

lemma view_same_ledger:
  "view w' = (view w)\<lparr>v_grants := G\<rparr> \<Longrightarrow>
     ledger_of w' = ledger_of w \<and> counters_agree w' = counters_agree w \<and> delegate_entries w' = G \<and>
     lookup_stream w' = lookup_stream w \<and> halted_at_entry w' = halted_at_entry w \<and>
     halt_operator_entry w' = halt_operator_entry w \<and> token_state w' = token_state w"
  by (simp add: view_def ledger_of_def counters_agree_def)

lemma grant_delegate_effect:
  assumes "grant_delegate e i grantor d requested expiry w = Inr (u, w')"
  shows "ledger_of w' = ledger_of w" "counters_agree w' = counters_agree w"
    "lookup_stream w' = lookup_stream w" "lookup_stream w i \<noteq> None"
    "halted_at_entry w' = halted_at_entry w" "halt_operator_entry w' = halt_operator_entry w"
    "delegate_entries w' = delegate_entries w \<or>
     one_sided requested \<and>
     delegate_entries w' = (delegate_entries w)((i, d) \<mapsto> \<lparr>ops = requested, expires_at = expiry\<rparr>)"
proof -
  let ?new = "(delegate_entries w)((i, d) \<mapsto> \<lparr>ops = requested, expires_at = expiry\<rparr>)"
  have "lookup_stream w i \<noteq> None \<and> (\<exists>G. view w' = (view w)\<lparr>v_grants := G\<rparr> \<and>
      (G = delegate_entries w \<or> one_sided requested \<and> G = ?new))"
    using assms
  proof (cases rule: grant_delegate_Inr)
    case (noop s)
    have "(view w)\<lparr>v_grants := delegate_entries w\<rparr> = view w" by (simp add: view_def)
    with noop show ?thesis by (intro conjI exI [of _ "delegate_entries w"]) simp_all
  next
    case (stored s w2)
    then have "view w' = (view w)\<lparr>v_grants := ?new\<rparr>"
      using save_delegate_view(1) [OF stored(7)] by simp
    with stored(1,4) show ?thesis by auto
  qed
  then obtain G where G: "lookup_stream w i \<noteq> None" "view w' = (view w)\<lparr>v_grants := G\<rparr>"
    "G = delegate_entries w \<or> one_sided requested \<and> G = ?new" by blast
  note v = view_same_ledger [OF G(2)]
  show "lookup_stream w i \<noteq> None" by (rule G(1))
  show "ledger_of w' = ledger_of w" "counters_agree w' = counters_agree w"
    "lookup_stream w' = lookup_stream w"
    "halted_at_entry w' = halted_at_entry w" "halt_operator_entry w' = halt_operator_entry w"
    using v by blast+
  show "delegate_entries w' = delegate_entries w \<or> one_sided requested \<and> delegate_entries w' = ?new"
    using v G(3) by blast
qed

lemma revoke_delegate_effect:
  assumes "revoke_delegate e i grantor d w = Inr (u, w')"
  shows "ledger_of w' = ledger_of w" "counters_agree w' = counters_agree w"
    "lookup_stream w' = lookup_stream w"
    "halted_at_entry w' = halted_at_entry w" "halt_operator_entry w' = halt_operator_entry w"
    "delegate_entries w' = (delegate_entries w)((i, d) := None)"
proof -
  have "view w' = (view w)\<lparr>v_grants := (delegate_entries w)((i, d) := None)\<rparr>"
    using assms by (auto simp: revoke_delegate_Inr remove_delegate_view)
  from view_same_ledger [OF this]
  show "ledger_of w' = ledger_of w" "counters_agree w' = counters_agree w"
    "lookup_stream w' = lookup_stream w"
    "halted_at_entry w' = halted_at_entry w" "halt_operator_entry w' = halt_operator_entry w"
    "delegate_entries w' = (delegate_entries w)((i, d) := None)"
    by simp_all
qed

text \<open>Authority on the two sides cannot leak: a one-sided mask with a bit of one side has none of the other.\<close>

lemma one_sided_permission:
  assumes "one_sided m" "and m permission \<noteq> 0"
  shows "permission \<in> {op_CANCEL, op_PAUSE, op_RESUME, op_TOP_UP} \<Longrightarrow> and m recipient_ops = 0"
    and "permission \<in> {op_WITHDRAW, op_TRANSFER_RECIPIENT} \<Longrightarrow> and m sender_ops = 0"
proof -
  have abs: "and m permission = and (and m mask) permission" if "and mask permission = permission" for mask :: u32
    using that by (simp add: and.assoc)
  have s: "and sender_ops p = p" if "p \<in> {op_CANCEL, op_PAUSE, op_RESUME, op_TOP_UP}" for p
    using that by (auto simp: sender_ops_def op_defs)
  have r: "and recipient_ops p = p" if "p \<in> {op_WITHDRAW, op_TRANSFER_RECIPIENT}" for p
    using that by (auto simp: recipient_ops_def op_defs)
  show "permission \<in> {op_CANCEL, op_PAUSE, op_RESUME, op_TOP_UP} \<Longrightarrow> and m recipient_ops = 0"
    using assms abs [OF s] by (auto simp: one_sided_def)
  show "permission \<in> {op_WITHDRAW, op_TRANSFER_RECIPIENT} \<Longrightarrow> and m sender_ops = 0"
    using assms abs [OF r] by (auto simp: one_sided_def)
qed

text \<open>A grant within the rules is stored.\<close>

lemma grant_delegate_total:
  assumes s: "lookup_stream w i = Some s" and live: "\<not> is_halted w" "\<not> is_terminal (status s)"
    and side: "and m sender_ops \<noteq> 0 \<and> and m recipient_ops = 0 \<and> g = sender s \<or>
      and m sender_ops = 0 \<and> and m recipient_ops \<noteq> 0 \<and> g = recipient s"
    and auth: "authorized e g"
  shows "\<exists>w'. grant_delegate e i g d m x w = Inr ((), w') \<and>
    delegate_entries w' = (delegate_entries w)((i, d) \<mapsto> \<lparr>ops = m, expires_at = x\<rparr>) \<and>
    lookup_stream w' = lookup_stream w \<and> ledger_of w' = ledger_of w \<and>
    is_halted w' = is_halted w \<and> token_state w' = token_state w"
proof -
  have "lookup_stream (extend_stream e i s w) i \<noteq> None" using s by simp
  then obtain w2 where sv: "save_delegate e i d \<lparr>ops = m, expires_at = x\<rparr> (extend_stream e i s w) = Inr w2"
    using save_delegate_total by blast
  let ?w' = "publish (DelegateGrantedEvent i g d m x) w2"
  have run: "grant_delegate e i g d m x w = Inr ((), ?w')"
    using live side auth sv
    by (auto simp: grant_delegate_def require_not_halted_def load_stream_eq s require_auth_def Let_def
        emit_delegate_granted_def)
  have "view ?w' = (view w)\<lparr>v_grants := (delegate_entries w)((i, d) \<mapsto> \<lparr>ops = m, expires_at = x\<rparr>)\<rparr>"
    using save_delegate_view(1) [OF sv] by simp
  from view_same_ledger [OF this] run show ?thesis by (auto simp: is_halted_def)
qed

text \<open>A delegate who may perform an operation now.\<close>

definition holds_grant :: "env \<Rightarrow> 't world \<Rightarrow> u64 \<Rightarrow> address \<Rightarrow> u32 \<Rightarrow> bool" where
  "holds_grant e w i d permission \<longleftrightarrow>
     (\<exists>g. load_delegate w i d = Some g \<and> and (ops g) permission \<noteq> 0 \<and> one_sided (ops g) \<and>
        (case expires_at g of Some expiry \<Rightarrow> timestamp e \<le> expiry | None \<Rightarrow> True) \<and> authorized e d)"

end
