(* ===== verification/Maintenance.thy ===== *)
theory Maintenance
  imports Delegation
begin

text \<open>
  The rest of the contract's surface in \<^verbatim>\<open>contracts/stream/src/lib.rs\<close>: the views, the
  permissionless rent extension, and the emergency halt. Rent extension is a settlement that
  leaves the ledger unchanged; the halt operations change nothing else.
\<close>

section \<open>Views\<close>

definition get_stream :: "'t world \<Rightarrow> u64 \<Rightarrow> stream result" where
  "get_stream w stream_id = peek_stream w stream_id"

definition withdrawable_of :: "env \<Rightarrow> 't world \<Rightarrow> u64 \<Rightarrow> int result" where
  "withdrawable_of e w stream_id =
     and_then (peek_stream w stream_id) (\<lambda>s. withdrawable s (timestamp e))"

definition vested_of :: "env \<Rightarrow> 't world \<Rightarrow> u64 \<Rightarrow> int result" where
  "vested_of e w stream_id =
     and_then (peek_stream w stream_id) (\<lambda>s. vested s (timestamp e))"

definition refundable_of :: "env \<Rightarrow> 't world \<Rightarrow> u64 \<Rightarrow> int result" where
  "refundable_of e w stream_id =
     and_then (peek_stream w stream_id) (\<lambda>s. refundable s (timestamp e))"

definition halted :: "'t world \<Rightarrow> bool" where
  "halted w = is_halted w"

definition UPGRADEABLE :: bool where
  "UPGRADEABLE = False"

definition upgradeable :: bool where
  "upgradeable = UPGRADEABLE"

section \<open>Rent\<close>

definition extend_stream_ttl :: "env \<Rightarrow> u64 \<Rightarrow> 't world \<Rightarrow> (u32 \<times> 't world) result" where
  "extend_stream_ttl e stream_id w =
     and_then (require_not_halted w) (\<lambda>_.
     and_then (peek_stream w stream_id) (\<lambda>s.
     if is_terminal (status s) then Inl (Err StreamTerminated)
     else
       let target = ttl_target_ledgers e s;
           w1 = extend_stream e stream_id s w;
           w2 = extend_instance e w1
       in Inr (target, emit_ttl_extended stream_id target w2)))"

fun extend_each :: "env \<Rightarrow> u64 list \<Rightarrow> u32 \<Rightarrow> 't world \<Rightarrow> (u32 \<times> 't world) result" where
  "extend_each e [] extended_count w = Inr (extended_count, w)"
| "extend_each e (stream_id # ids) extended_count w =
     (case peek_stream w stream_id of
        Inl _ \<Rightarrow> extend_each e ids extended_count w
      | Inr s \<Rightarrow>
          if is_terminal (status s) then Inl (Err StreamTerminated)
          else
            let target = ttl_target_ledgers e s;
                w1 = extend_stream e stream_id s w;
                w2 = emit_ttl_extended stream_id target w1
            in extend_each e ids (extended_count + 1) w2)"

definition batch_extend_ttl :: "env \<Rightarrow> raw_val list \<Rightarrow> 't world \<Rightarrow> (u32 \<times> 't world) result" where
  "batch_extend_ttl e raw_ids w =
     and_then (require_not_halted w) (\<lambda>_.
     and_then (validate_batch_ids raw_ids) (\<lambda>ids.
     and_then (reject_duplicate_ids ids) (\<lambda>_.
     and_then (extend_each e ids 0 w) (\<lambda>(n, w1).
     Inr (n, extend_instance e w1)))))"

section \<open>The emergency halt\<close>

definition set_halt_operator :: "env \<Rightarrow> address \<Rightarrow> 't world \<Rightarrow> (unit \<times> 't world) result" where
  "set_halt_operator e operator w =
     and_then (require_auth e operator) (\<lambda>_.
     if halt_operator w \<noteq> None then Inl (Err HaltOperatorAlreadySet)
     else Inr ((), emit_halt_operator_set operator (store_halt_operator e operator w)))"

definition halt :: "env \<Rightarrow> 't world \<Rightarrow> (unit \<times> 't world) result" where
  "halt e w =
     and_then (ok_or (Err HaltOperatorNotSet) (halt_operator w)) (\<lambda>operator.
     and_then (require_auth e operator) (\<lambda>_.
     if is_halted w then Inl (Err ContractAlreadyHalted)
     else Inr ((), emit_contract_halted operator (timestamp e) (set_halt e w))))"

definition resume_contract :: "env \<Rightarrow> 't world \<Rightarrow> (unit \<times> 't world) result" where
  "resume_contract e w =
     and_then (ok_or (Err HaltOperatorNotSet) (halt_operator w)) (\<lambda>operator.
     and_then (require_auth e operator) (\<lambda>_.
     and_then (ok_or (Err ContractNotHalted) (halt_started_at w)) (\<lambda>at.
     let w1 = clear_halt e w; now = timestamp e in
     Inr ((), emit_contract_resumed operator now (saturating_sub_u64 now at) w1))))"

section \<open>Views answer from the streams alone\<close>

lemma sound_views:
  assumes "sound_world (timestamp e) w" "lookup_stream w i = Some s"
  shows "get_stream w i = Inr s"
    "withdrawable_of e w i = Inr (max 0 (vested_amount s (timestamp e) - withdrawn s))"
    "vested_of e w i = Inr (vested_amount s (timestamp e))"
    "refundable_of e w i = Inr (deposited s - vested_amount s (timestamp e))"
proof -
  have so: "sound (timestamp e) s" using assms by (rule sound_worldD(1))
  have p: "peek_stream w i = Inr s" by (simp add: assms(2))
  show "get_stream w i = Inr s"
    "withdrawable_of e w i = Inr (max 0 (vested_amount s (timestamp e) - withdrawn s))"
    "vested_of e w i = Inr (vested_amount s (timestamp e))"
    "refundable_of e w i = Inr (deposited s - vested_amount s (timestamp e))"
    using p sound_readings [OF so] soundD(8) [OF so]
    by (simp_all only: get_stream_def withdrawable_of_def vested_of_def refundable_of_def and_then_simps)
qed

section \<open>Rent extension changes no ledger\<close>

lemma extend_each_frame:
  "extend_each e ids n w = Inr (m, w') \<Longrightarrow>
     ledger_of w' = ledger_of w \<and> control_of w' = control_of w \<and> counters_agree w' = counters_agree w \<and>
     token_state w' = token_state w"
proof (induction ids arbitrary: n w)
  case (Cons i ids)
  then show ?case
    by (cases "peek_stream w i")
      (fastforce simp: Let_def emit_ttl_extended_def split: if_splits)+
qed simp

interpretation extend_ttl: halting_settlement "\<lambda>e. extend_stream_ttl e i" for i
proof
  show "settles (timestamp e) w w'"
    if "sound_world (timestamp e) w" "extend_stream_ttl e i w = Inr (r, w')" for e w r w'
    using that(2) by (auto simp: extend_stream_ttl_def Let_def emit_ttl_extended_def intro!: settles_refl)
qed (simp add: extend_stream_ttl_def require_not_halted_def)

interpretation batch_ttl: halting_settlement "\<lambda>e. batch_extend_ttl e raws" for raws
proof
  show "settles (timestamp e) w w'"
    if "sound_world (timestamp e) w" "batch_extend_ttl e raws w = Inr (r, w')" for e w r w'
    using that(2) by (auto simp: batch_extend_ttl_def dest!: extend_each_frame intro!: settles_refl)
qed (simp add: batch_extend_ttl_def require_not_halted_def)

section \<open>The halt changes nothing else\<close>

text \<open>The operator and the halt of a world after a halt operation.\<close>

lemma set_halt_operator_Inr:
  "set_halt_operator e a w = Inr (u, w') \<longleftrightarrow>
     authorized e a \<and> halt_operator_entry w = None \<and>
     w' = publish (HaltOperatorSetEvent a) (store_halt_operator e a w)"
  by (auto simp: set_halt_operator_def halt_operator_def emit_halt_operator_set_def)

lemma halt_Inr:
  "halt e w = Inr (u, w') \<longleftrightarrow>
     (\<exists>a. halt_operator_entry w = Some a \<and> authorized e a \<and> \<not> is_halted w \<and>
        w' = publish (ContractHaltedEvent a (timestamp e)) (set_halt e w))"
  by (auto simp: halt_def halt_operator_def emit_contract_halted_def)

lemma resume_contract_Inr:
  "resume_contract e w = Inr (u, w') \<longleftrightarrow>
     (\<exists>a at. halt_operator_entry w = Some a \<and> authorized e a \<and> halted_at_entry w = Some at \<and>
        w' = publish (ContractResumedEvent a (timestamp e) (saturating_sub_u64 (timestamp e) at))
               (clear_halt e w))"
  by (auto simp: resume_contract_def halt_operator_def halt_started_at_def Let_def
      emit_contract_resumed_def)

lemma view_halt_ledger:
  "view w' = (view w)\<lparr>v_operator := a\<rparr> \<or> view w' = (view w)\<lparr>v_halted := h\<rparr> \<Longrightarrow>
     ledger_of w' = ledger_of w \<and> counters_agree w' = counters_agree w \<and>
     delegate_entries w' = delegate_entries w \<and> token_state w' = token_state w \<and>
     lookup_stream w' = lookup_stream w"
  by (auto simp: view_def ledger_of_def counters_agree_def)

lemma halt_ops_frame:
  assumes "set_halt_operator e a w = Inr (u, w') \<or> halt e w = Inr (u, w') \<or> resume_contract e w = Inr (u, w')"
  shows "ledger_of w' = ledger_of w \<and> counters_agree w' = counters_agree w \<and>
     delegate_entries w' = delegate_entries w \<and> token_state w' = token_state w \<and>
     lookup_stream w' = lookup_stream w"
proof -
  have "view w' = (view w)\<lparr>v_operator := Some a\<rparr> \<or>
      (\<exists>h. view w' = (view w)\<lparr>v_halted := h\<rparr>)"
    using assms by (auto simp: set_halt_operator_Inr halt_Inr resume_contract_Inr halt_view)
  then show ?thesis using view_halt_ledger by blast
qed

end
