(* ===== verification/Factory_Policy.thy ===== *)
theory Factory_Policy
  imports Ledger_Host
begin

text \<open>
  The factory contract, \<^verbatim>\<open>contracts/factory/src/lib.rs\<close>: its instance storage, the
  one-shot \<open>init\<close>, the admin setters, the pause chokepoint and the views. Every setter meets
  the contract of the locale \<open>factory_setter\<close> (nothing happens before \<open>init\<close>, only the
  stored admin may call, the policy stays in its documented ranges, the instance entry is
  pinned), which is interpreted on each of them; a deployed factory is then any state
  reachable by its calls.
\<close>

section \<open>State and errors\<close>

datatype factory_error =
    AlreadyInitialized | NotInitialized | FactoryUnauthorized | InvalidCap | InvalidMinDuration
  | InvalidRateBounds | FactoryCreationPaused

type_synonym 'a fresult = "factory_error fault + 'a"

definition MAX_MIN_DURATION_SECONDS :: u64 where
  "MAX_MIN_DURATION_SECONDS = 100 * 365 * 24 * 60 * 60"

definition MIN_DEPOSIT_CAP :: int where
  "MIN_DEPOSIT_CAP = 1"

datatype factory_event =
    FactoryInited address address int u64
  | FactoryAdminUpdated address address
  | StreamContractUpdated address address
  | BatchCapEnforcementUpdated bool
  | AllowlistUpdated address bool
  | FactoryPauseUpdated bool

record factory_world =
  admin_entry :: "address option"
  stream_contract_entry :: "address option"
  max_deposit_cap_entry :: "int option"
  min_duration_entry :: "u64 option"
  batch_cap_enforced_entry :: "bool option"
  creation_paused_entry :: "bool option"
  min_rate_entry :: "int option"
  max_rate_entry :: "int option"
  allowlist_entries :: "address \<rightharpoonup> bool"
  factory_live_until :: nat
  allowlist_live_until :: "address \<Rightarrow> nat"
  factory_events :: "factory_event list"

definition fresh_factory :: factory_world where
  "fresh_factory = \<lparr>
     admin_entry = None, stream_contract_entry = None, max_deposit_cap_entry = None,
     min_duration_entry = None, batch_cap_enforced_entry = None, creation_paused_entry = None,
     min_rate_entry = None, max_rate_entry = None, allowlist_entries = Map.empty,
     factory_live_until = 0, allowlist_live_until = (\<lambda>_. 0), factory_events = [] \<rparr>"

record factory_policy =
  pol_stream_contract :: address
  pol_max_deposit :: int
  pol_min_duration :: u64
  pol_batch_cap_enforced :: bool
  pol_creation_paused :: bool
  pol_min_rate_per_second :: "int option"
  pol_max_rate_per_second :: "int option"

record factory_config =
  cfg_admin :: address
  cfg_stream_contract :: address
  cfg_max_deposit :: int
  cfg_min_duration :: u64
  cfg_batch_cap_enforced :: bool
  cfg_creation_paused :: bool
  cfg_min_rate_per_second :: "int option"
  cfg_max_rate_per_second :: "int option"

section \<open>The code\<close>

definition load_policy :: "factory_world \<Rightarrow> factory_policy fresult" where
  "load_policy f =
     and_then (ok_or (Err NotInitialized) (stream_contract_entry f)) (\<lambda>sc.
     and_then (ok_or (Err NotInitialized) (max_deposit_cap_entry f)) (\<lambda>cap.
     and_then (ok_or (Err NotInitialized) (min_duration_entry f)) (\<lambda>floor_secs.
     and_then (ok_or (Err NotInitialized) (batch_cap_enforced_entry f)) (\<lambda>enforced.
     Inr \<lparr> pol_stream_contract = sc, pol_max_deposit = cap, pol_min_duration = floor_secs,
           pol_batch_cap_enforced = enforced,
           pol_creation_paused = (case creation_paused_entry f of Some b \<Rightarrow> b | None \<Rightarrow> False),
           pol_min_rate_per_second = min_rate_entry f,
           pol_max_rate_per_second = max_rate_entry f \<rparr>))))"

definition factory_auth :: "env \<Rightarrow> address \<Rightarrow> unit fresult" where
  "factory_auth e a = (if authorized e a then Inr () else Inl Trap)"

definition require_admin :: "env \<Rightarrow> factory_world \<Rightarrow> address fresult" where
  "require_admin e f =
     and_then (ok_or (Err NotInitialized) (admin_entry f)) (\<lambda>admin.
     and_then (factory_auth e admin) (\<lambda>_. Inr admin))"

definition bump_instance :: "env \<Rightarrow> factory_world \<Rightarrow> factory_world" where
  "bump_instance e f =
     f\<lparr>factory_live_until := extended (sequence e) (max_ttl e) (max_ttl e) (factory_live_until f)\<rparr>"

definition validate_cap :: "int \<Rightarrow> unit fresult" where
  "validate_cap max_deposit = (if max_deposit < MIN_DEPOSIT_CAP then Inl (Err InvalidCap) else Inr ())"

definition validate_min_duration :: "u64 \<Rightarrow> unit fresult" where
  "validate_min_duration min_duration =
     (if min_duration > MAX_MIN_DURATION_SECONDS then Inl (Err InvalidMinDuration) else Inr ())"

definition publish_factory :: "factory_event \<Rightarrow> factory_world \<Rightarrow> factory_world" where
  "publish_factory ev f = f\<lparr>factory_events := factory_events f @ [ev]\<rparr>"

definition init :: "env \<Rightarrow> address \<Rightarrow> address \<Rightarrow> int \<Rightarrow> u64 \<Rightarrow> factory_world \<Rightarrow> factory_world fresult" where
  "init e admin stream_contract max_deposit min_duration f =
     (if admin_entry f \<noteq> None then Inl (Err AlreadyInitialized)
      else
        and_then (factory_auth e admin) (\<lambda>_.
        and_then (validate_cap max_deposit) (\<lambda>_.
        and_then (validate_min_duration min_duration) (\<lambda>_.
        let f1 = f\<lparr>admin_entry := Some admin, stream_contract_entry := Some stream_contract,
                   max_deposit_cap_entry := Some max_deposit, min_duration_entry := Some min_duration,
                   batch_cap_enforced_entry := Some True\<rparr>
        in Inr (publish_factory (FactoryInited admin stream_contract max_deposit min_duration)
                  (bump_instance e f1))))))"

definition set_admin :: "env \<Rightarrow> address \<Rightarrow> factory_world \<Rightarrow> factory_world fresult" where
  "set_admin e new_admin f =
     and_then (require_admin e f) (\<lambda>old_admin.
     Inr (publish_factory (FactoryAdminUpdated old_admin new_admin)
            (bump_instance e (f\<lparr>admin_entry := Some new_admin\<rparr>))))"

definition set_stream_contract :: "env \<Rightarrow> address \<Rightarrow> factory_world \<Rightarrow> factory_world fresult" where
  "set_stream_contract e new_contract f =
     and_then (require_admin e f) (\<lambda>_.
     and_then (ok_or (Err NotInitialized) (stream_contract_entry f)) (\<lambda>old_contract.
     Inr (publish_factory (StreamContractUpdated old_contract new_contract)
            (bump_instance e (f\<lparr>stream_contract_entry := Some new_contract\<rparr>)))))"

definition set_cap :: "env \<Rightarrow> int \<Rightarrow> factory_world \<Rightarrow> factory_world fresult" where
  "set_cap e max_deposit f =
     and_then (require_admin e f) (\<lambda>_.
     and_then (validate_cap max_deposit) (\<lambda>_.
     Inr (bump_instance e (f\<lparr>max_deposit_cap_entry := Some max_deposit\<rparr>))))"

definition set_min_duration :: "env \<Rightarrow> u64 \<Rightarrow> factory_world \<Rightarrow> factory_world fresult" where
  "set_min_duration e min_duration f =
     and_then (require_admin e f) (\<lambda>_.
     and_then (validate_min_duration min_duration) (\<lambda>_.
     Inr (bump_instance e (f\<lparr>min_duration_entry := Some min_duration\<rparr>))))"

definition set_allowlist :: "env \<Rightarrow> address \<Rightarrow> bool \<Rightarrow> factory_world \<Rightarrow> factory_world fresult" where
  "set_allowlist e a allowed f =
     and_then (require_admin e f) (\<lambda>_.
     let f1 = (if allowed
               then f\<lparr>allowlist_entries := (allowlist_entries f)(a \<mapsto> True),
                      allowlist_live_until := (allowlist_live_until f)
                        (a := extended (sequence e) (max_ttl e) (max_ttl e) (allowlist_live_until f a))\<rparr>
               else f\<lparr>allowlist_entries := (allowlist_entries f)(a := None),
                      allowlist_live_until := (allowlist_live_until f)(a := 0)\<rparr>)
     in Inr (publish_factory (AllowlistUpdated a allowed) (bump_instance e f1)))"

definition set_batch_cap_enforcement :: "env \<Rightarrow> bool \<Rightarrow> factory_world \<Rightarrow> factory_world fresult" where
  "set_batch_cap_enforcement e enabled f =
     and_then (require_admin e f) (\<lambda>_.
     Inr (publish_factory (BatchCapEnforcementUpdated enabled)
            (bump_instance e (f\<lparr>batch_cap_enforced_entry := Some enabled\<rparr>))))"

text \<open>\<open>or_else\<close>: a bound that is not supplied is the stored one.\<close>

definition or_stored :: "int option \<Rightarrow> int option \<Rightarrow> int option" where
  "or_stored supplied stored = (case supplied of Some v \<Rightarrow> Some v | None \<Rightarrow> stored)"

definition set_rate_bounds ::
    "env \<Rightarrow> int option \<Rightarrow> int option \<Rightarrow> factory_world \<Rightarrow> factory_world fresult" where
  "set_rate_bounds e min_rate max_rate f =
     and_then (require_admin e f) (\<lambda>_.
     if (case min_rate of Some v \<Rightarrow> v < 0 | None \<Rightarrow> False) then Inl (Err InvalidRateBounds)
     else if (case max_rate of Some v \<Rightarrow> v < 0 | None \<Rightarrow> False) then Inl (Err InvalidRateBounds)
     else
       let new_min = or_stored min_rate (min_rate_entry f);
           new_max = or_stored max_rate (max_rate_entry f)
       in
       if (case (new_min, new_max) of (Some mn, Some mx) \<Rightarrow> mn > mx | _ \<Rightarrow> False)
       then Inl (Err InvalidRateBounds)
       else
         let f1 = (case min_rate of Some v \<Rightarrow> f\<lparr>min_rate_entry := Some v\<rparr> | None \<Rightarrow> f);
             f2 = (case max_rate of Some v \<Rightarrow> f1\<lparr>max_rate_entry := Some v\<rparr> | None \<Rightarrow> f1)
         in Inr (bump_instance e f2))"

definition set_factory_paused :: "env \<Rightarrow> bool \<Rightarrow> factory_world \<Rightarrow> factory_world fresult" where
  "set_factory_paused e paused_flag f =
     and_then (require_admin e f) (\<lambda>_.
     Inr (publish_factory (FactoryPauseUpdated paused_flag)
            (bump_instance e (f\<lparr>creation_paused_entry := Some paused_flag\<rparr>))))"

definition assert_creation_allowed :: "factory_world \<Rightarrow> unit fresult" where
  "assert_creation_allowed f =
     and_then (load_policy f) (\<lambda>policy.
     if pol_creation_paused policy then Inl (Err FactoryCreationPaused) else Inr ())"

definition is_factory_paused :: "factory_world \<Rightarrow> bool" where
  "is_factory_paused f = (case creation_paused_entry f of Some b \<Rightarrow> b | None \<Rightarrow> False)"

definition is_allowlisted :: "factory_world \<Rightarrow> address \<Rightarrow> bool" where
  "is_allowlisted f a = (case allowlist_entries f a of Some b \<Rightarrow> b | None \<Rightarrow> False)"

definition get_factory_config :: "factory_world \<Rightarrow> factory_config fresult" where
  "get_factory_config f =
     and_then (load_policy f) (\<lambda>policy.
     and_then (ok_or (Err NotInitialized) (admin_entry f)) (\<lambda>admin.
     Inr \<lparr> cfg_admin = admin, cfg_stream_contract = pol_stream_contract policy,
           cfg_max_deposit = pol_max_deposit policy, cfg_min_duration = pol_min_duration policy,
           cfg_batch_cap_enforced = pol_batch_cap_enforced policy,
           cfg_creation_paused = pol_creation_paused policy,
           cfg_min_rate_per_second = pol_min_rate_per_second policy,
           cfg_max_rate_per_second = pol_max_rate_per_second policy \<rparr>))"

section \<open>The invariant of a factory\<close>

definition initialized :: "factory_world \<Rightarrow> bool" where
  "initialized f \<longleftrightarrow> admin_entry f \<noteq> None"

definition rates_ok :: "int option \<Rightarrow> int option \<Rightarrow> bool" where
  "rates_ok mn mx \<longleftrightarrow>
     (case mn of Some v \<Rightarrow> 0 \<le> v | None \<Rightarrow> True) \<and> (case mx of Some v \<Rightarrow> 0 \<le> v | None \<Rightarrow> True) \<and>
     (case (mn, mx) of (Some v, Some v') \<Rightarrow> v \<le> v' | _ \<Rightarrow> True)"

definition factory_ok :: "factory_world \<Rightarrow> bool" where
  "factory_ok f \<longleftrightarrow>
     (initialized f \<longrightarrow>
        stream_contract_entry f \<noteq> None \<and> batch_cap_enforced_entry f \<noteq> None \<and>
        (case max_deposit_cap_entry f of Some c \<Rightarrow> MIN_DEPOSIT_CAP \<le> c | None \<Rightarrow> False) \<and>
        (case min_duration_entry f of Some d \<Rightarrow> d \<le> MAX_MIN_DURATION_SECONDS | None \<Rightarrow> False)) \<and>
     (\<not> initialized f \<longrightarrow>
        stream_contract_entry f = None \<and> min_rate_entry f = None \<and> max_rate_entry f = None \<and>
        allowlist_entries f = Map.empty \<and> creation_paused_entry f = None) \<and>
     rates_ok (min_rate_entry f) (max_rate_entry f)"

text \<open>What a setter promises.\<close>

locale factory_setter =
  fixes run :: "env \<Rightarrow> factory_world \<Rightarrow> factory_world fresult"
  assumes before_init: "admin_entry f = None \<Longrightarrow> run e f = Inl (Err NotInitialized)"
    and admin_only: "admin_entry f = Some a \<Longrightarrow> \<not> authorized e a \<Longrightarrow> run e f = Inl Trap"
    and keeps: "factory_ok f \<Longrightarrow> run e f = Inr f' \<Longrightarrow> factory_ok f' \<and> initialized f'"
    and pins: "run e f = Inr f' \<Longrightarrow> factory_live_until f' = max (factory_live_until f) (sequence e + unat (max_ttl e))"
begin

lemma success_authorized: "run e f = Inr f' \<Longrightarrow> \<exists>a. admin_entry f = Some a \<and> authorized e a"
  using before_init admin_only by (cases "admin_entry f") fastforce+

lemma success_initialized: "run e f = Inr f' \<Longrightarrow> initialized f"
  using success_authorized by (fastforce simp: initialized_def)

end

lemma require_admin_Inr [simp]:
  "require_admin e f = Inr a \<longleftrightarrow> admin_entry f = Some a \<and> authorized e a"
  by (auto simp: require_admin_def factory_auth_def)

lemma require_admin_fails:
  "admin_entry f = None \<Longrightarrow> require_admin e f = Inl (Err NotInitialized)"
  "admin_entry f = Some a \<Longrightarrow> \<not> authorized e a \<Longrightarrow> require_admin e f = Inl Trap"
  by (simp_all add: require_admin_def factory_auth_def)

lemma validate_Inr [simp]:
  "validate_cap c = Inr u \<longleftrightarrow> MIN_DEPOSIT_CAP \<le> c"
  "validate_min_duration d = Inr u \<longleftrightarrow> d \<le> MAX_MIN_DURATION_SECONDS"
  by (auto simp: validate_cap_def validate_min_duration_def not_less)

lemmas setter_defs = factory_ok_def initialized_def publish_factory_def bump_instance_def extended_same

interpretation set_admin: factory_setter "\<lambda>e. set_admin e a" for a
  by unfold_locales (auto simp: set_admin_def require_admin_fails setter_defs)

interpretation set_stream_contract: factory_setter "\<lambda>e. set_stream_contract e a" for a
  by unfold_locales (auto simp: set_stream_contract_def require_admin_fails setter_defs)

interpretation set_cap: factory_setter "\<lambda>e. set_cap e c" for c
  by unfold_locales (auto simp: set_cap_def require_admin_fails setter_defs)

interpretation set_min_duration: factory_setter "\<lambda>e. set_min_duration e d" for d
  by unfold_locales (auto simp: set_min_duration_def require_admin_fails setter_defs)

interpretation set_allowlist: factory_setter "\<lambda>e. set_allowlist e a allowed" for a allowed
  by (cases allowed; unfold_locales) (auto simp: set_allowlist_def require_admin_fails setter_defs Let_def)

interpretation set_batch_cap: factory_setter "\<lambda>e. set_batch_cap_enforcement e b" for b
  by unfold_locales (auto simp: set_batch_cap_enforcement_def require_admin_fails setter_defs)

interpretation set_paused: factory_setter "\<lambda>e. set_factory_paused e b" for b
  by unfold_locales (auto simp: set_factory_paused_def require_admin_fails setter_defs)

text \<open>The rate bounds: the stored interval after the call is the validated one.\<close>

lemma set_rate_bounds_Inr:
  "set_rate_bounds e mn mx f = Inr f' \<longleftrightarrow>
     (\<exists>a. admin_entry f = Some a \<and> authorized e a) \<and>
     \<not> (case mn of Some v \<Rightarrow> v < 0 | None \<Rightarrow> False) \<and> \<not> (case mx of Some v \<Rightarrow> v < 0 | None \<Rightarrow> False) \<and>
     \<not> (case (or_stored mn (min_rate_entry f), or_stored mx (max_rate_entry f)) of
          (Some a, Some b) \<Rightarrow> a > b | _ \<Rightarrow> False) \<and>
     f' = bump_instance e (f\<lparr>min_rate_entry := or_stored mn (min_rate_entry f),
                             max_rate_entry := or_stored mx (max_rate_entry f)\<rparr>)"
  by (cases mn; cases mx) (auto simp: set_rate_bounds_def Let_def or_stored_def split: option.splits)

interpretation set_rates: factory_setter "\<lambda>e. set_rate_bounds e mn mx" for mn mx
proof
  show "factory_ok f' \<and> initialized f'" if "factory_ok f" "set_rate_bounds e mn mx f = Inr f'" for e f f'
    using that
    by (auto simp: set_rate_bounds_Inr setter_defs rates_ok_def or_stored_def not_less split: option.splits)
  show "factory_live_until f' = max (factory_live_until f) (sequence e + unat (max_ttl e))"
    if "set_rate_bounds e mn mx f = Inr f'" for e f f'
    using that by (auto simp: set_rate_bounds_Inr setter_defs)
qed (simp_all add: set_rate_bounds_def require_admin_fails)


section \<open>Initialisation\<close>

lemma init_Inr:
  "init e a sc cap secs f = Inr f' \<longleftrightarrow>
     admin_entry f = None \<and> authorized e a \<and> MIN_DEPOSIT_CAP \<le> cap \<and> secs \<le> MAX_MIN_DURATION_SECONDS \<and>
     f' = publish_factory (FactoryInited a sc cap secs) (bump_instance e
       (f\<lparr>admin_entry := Some a, stream_contract_entry := Some sc, max_deposit_cap_entry := Some cap,
          min_duration_entry := Some secs, batch_cap_enforced_entry := Some True\<rparr>))"
  by (auto simp: init_def factory_auth_def Let_def)

lemma init_ok: "factory_ok f \<Longrightarrow> init e a sc cap secs f = Inr f' \<Longrightarrow> factory_ok f' \<and> initialized f'"
  by (auto simp: init_Inr setter_defs)

lemma init_once: "initialized f \<Longrightarrow> init e a sc cap secs f = Inl (Err AlreadyInitialized)"
  by (simp add: init_def initialized_def)

section \<open>Deployed factories\<close>

datatype factory_call =
    Init address address int u64
  | SetAdmin address
  | SetStreamContract address
  | SetCap int
  | SetMinDuration u64
  | SetAllowlist address bool
  | SetBatchCap bool
  | SetRateBounds "int option" "int option"
  | SetPaused bool

fun factory_exec :: "factory_call \<Rightarrow> env \<Rightarrow> factory_world \<Rightarrow> factory_world fresult" where
  "factory_exec (Init a sc cap secs) e f = init e a sc cap secs f"
| "factory_exec (SetAdmin a) e f = set_admin e a f"
| "factory_exec (SetStreamContract a) e f = set_stream_contract e a f"
| "factory_exec (SetCap c) e f = set_cap e c f"
| "factory_exec (SetMinDuration d) e f = set_min_duration e d f"
| "factory_exec (SetAllowlist a allowed) e f = set_allowlist e a allowed f"
| "factory_exec (SetBatchCap b) e f = set_batch_cap_enforcement e b f"
| "factory_exec (SetRateBounds mn mx) e f = set_rate_bounds e mn mx f"
| "factory_exec (SetPaused b) e f = set_factory_paused e b f"

inductive factory_reachable :: "factory_world \<Rightarrow> bool" where
  factory_deploy: "factory_reachable fresh_factory"
| factory_call: "factory_reachable f \<Longrightarrow> factory_exec c e f = Inr f' \<Longrightarrow> factory_reachable f'"

lemma factory_exec_ok:
  assumes ok: "factory_ok f"
  shows "factory_exec c e f = Inr f' \<Longrightarrow> factory_ok f' \<and> initialized f'"
  by (cases c; hypsubst; unfold factory_exec.simps)
    (rule init_ok [OF ok] set_admin.keeps [OF ok] set_stream_contract.keeps [OF ok] set_cap.keeps [OF ok]
      set_min_duration.keeps [OF ok] set_allowlist.keeps [OF ok] set_batch_cap.keeps [OF ok]
      set_rates.keeps [OF ok] set_paused.keeps [OF ok]; assumption)+

lemma factory_exec_authorized:
  assumes "factory_exec c e f = Inr f'" "initialized f"
  shows "\<exists>a. admin_entry f = Some a \<and> authorized e a"
  using assms
  by (cases c)
    (simp_all add: init_once,
     (erule set_admin.success_authorized set_stream_contract.success_authorized
       set_cap.success_authorized set_min_duration.success_authorized set_allowlist.success_authorized
       set_batch_cap.success_authorized set_rates.success_authorized set_paused.success_authorized)+)

lemma factory_exec_init:
  assumes "factory_exec c e f = Inr f'" "\<not> initialized f"
  shows "\<exists>a sc cap secs. c = Init a sc cap secs \<and> authorized e a"
  using assms
  by (cases c)
    (auto simp: init_Inr dest: set_admin.success_initialized set_stream_contract.success_initialized
       set_cap.success_initialized set_min_duration.success_initialized set_allowlist.success_initialized
       set_batch_cap.success_initialized set_rates.success_initialized set_paused.success_initialized)

lemma fresh_factory_ok: "factory_ok fresh_factory"
  by (simp add: factory_ok_def initialized_def fresh_factory_def rates_ok_def)

lemma factory_reachable_ok: "factory_reachable f \<Longrightarrow> factory_ok f"
  by (induction rule: factory_reachable.induct) (auto simp: fresh_factory_ok dest: factory_exec_ok)

text \<open>The configuration an initialised factory reports is complete and in range.\<close>

lemma factory_config_available:
  assumes "factory_ok f" "initialized f"
  obtains c where "get_factory_config f = Inr c"
    "admin_entry f = Some (cfg_admin c)" "MIN_DEPOSIT_CAP \<le> cfg_max_deposit c"
    "cfg_min_duration c \<le> MAX_MIN_DURATION_SECONDS"
    "rates_ok (cfg_min_rate_per_second c) (cfg_max_rate_per_second c)"
    "cfg_creation_paused c = is_factory_paused f"
proof -
  obtain c where c: "get_factory_config f = Inr c"
    using assms
    by (auto simp: factory_ok_def initialized_def get_factory_config_def load_policy_def
        split: option.splits)
  then show thesis
    by (rule that)
      (use c assms in \<open>auto simp: factory_ok_def initialized_def get_factory_config_def
        load_policy_def is_factory_paused_def\<close>)
qed

lemma factory_config_needs_init:
  "factory_ok f \<Longrightarrow> \<not> initialized f \<Longrightarrow> get_factory_config f = Inl (Err NotInitialized)"
  by (auto simp: factory_ok_def get_factory_config_def load_policy_def)

end
