(* ===== verification/Via_Factory.thy ===== *)
theory Via_Factory
  imports Maintenance Factory_Policy
begin

text \<open>
  \<open>create_stream_via_factory\<close> of \<^verbatim>\<open>contracts/stream/src/lib.rs\<close>: creation under the policy
  of a factory, read by two cross-contract calls. The address of the factory is an argument
  of the caller, so the contract behind it is a parameter (\<open>factory_iface\<close>);
  \<open>deployed_factories\<close> is the instance in which the addresses carry this repository's
  factory. A policy that admits a request makes the call equal to \<open>create_stream\<close>.
\<close>

text \<open>The two queries; \<open>None\<close> is a callee that traps, returns an error or does not decode.\<close>

record factory_iface =
  query_config :: "address \<Rightarrow> factory_config option"
  query_allowed :: "address \<Rightarrow> address \<Rightarrow> bool option"

definition deployed_factories :: "(address \<Rightarrow> factory_world option) \<Rightarrow> factory_iface" where
  "deployed_factories fs = \<lparr>
     query_config = (\<lambda>a. case fs a of
         None \<Rightarrow> None
       | Some f \<Rightarrow> (case get_factory_config f of Inr c \<Rightarrow> Some c | Inl _ \<Rightarrow> None)),
     query_allowed = (\<lambda>a tkn. map_option (\<lambda>f. is_allowlisted f tkn) (fs a)) \<rparr>"

definition create_stream_via_factory ::
    "'t token_iface \<Rightarrow> factory_iface \<Rightarrow> env \<Rightarrow> address \<Rightarrow> address \<Rightarrow> address \<Rightarrow> address \<Rightarrow> int \<Rightarrow>
     u64 \<Rightarrow> u64 \<Rightarrow> u64 \<Rightarrow> bool \<Rightarrow> bool \<Rightarrow> bool \<Rightarrow> 't world \<Rightarrow> (u64 \<times> 't world) result" where
  "create_stream_via_factory tk fi e factory from_sender to_recipient tkn deposit start end_at cliff
     can_cancel can_pause can_transfer w =
     and_then (require_not_halted w) (\<lambda>_.
     and_then (require_auth e from_sender) (\<lambda>_.
     and_then (ok_or Trap (query_config fi factory)) (\<lambda>config.
     if cfg_creation_paused config then Inl (Err FactoryPaused)
     else if deposit > cfg_max_deposit config then Inl (Err DepositExceedsCap)
     else
       and_then
         (if end_at \<le> start then Inr ()
          else
            let dur = end_at - start in
            if dur < cfg_min_duration config then Inl (Err DurationBelowMinimum)
            else if deposit > 0 then
              let rate = deposit sdiv uint dur in
              and_then
                (case cfg_min_rate_per_second config of
                   Some min_rate \<Rightarrow> if rate < min_rate then Inl (Err RateBelowMin) else Inr ()
                 | None \<Rightarrow> Inr ()) (\<lambda>_.
              case cfg_max_rate_per_second config of
                Some max_rate \<Rightarrow> if rate > max_rate then Inl (Err RateAboveMax) else Inr ()
              | None \<Rightarrow> Inr ())
            else Inr ()) (\<lambda>_.
       and_then (ok_or Trap (query_allowed fi factory tkn)) (\<lambda>allowed.
       if \<not> allowed then Inl (Err TokenNotAllowlisted)
       else
         create_stream_inner tk e from_sender to_recipient tkn deposit start end_at cliff
           DEFAULT_cliff_mode can_cancel can_pause can_transfer None Linear w)))))"

section \<open>The policy as a specification\<close>

text \<open>What a configuration admits, for a deposit over a schedule of positive length.\<close>

definition admits :: "factory_config \<Rightarrow> int \<Rightarrow> u64 \<Rightarrow> bool" where
  "admits c deposit dur \<longleftrightarrow>
     \<not> cfg_creation_paused c \<and> deposit \<le> cfg_max_deposit c \<and> cfg_min_duration c \<le> dur \<and>
     (case cfg_min_rate_per_second c of None \<Rightarrow> True | Some mn \<Rightarrow> mn \<le> deposit div uint dur) \<and>
     (case cfg_max_rate_per_second c of None \<Rightarrow> True | Some mx \<Rightarrow> deposit div uint dur \<le> mx)"

lemma via_factory_Inr:
  assumes "create_stream_via_factory tk fi e fac a b tkn deposit start end_at cliff cc cp ct w = Inr r"
  obtains c where "query_config fi fac = Some c" "query_allowed fi fac tkn = Some True"
    "admits c deposit (end_at - start)" "\<not> is_halted w" "authorized e a"
    "create_stream_inner tk e a b tkn deposit start end_at cliff DEFAULT_cliff_mode cc cp ct None Linear w = Inr r"
proof -
  have inner: "create_stream_inner tk e a b tkn deposit start end_at cliff DEFAULT_cliff_mode cc cp ct None
      Linear w = Inr r"
    and g: "\<not> is_halted w" "authorized e a" "query_allowed fi fac tkn = Some True"
    using assms by (auto simp: create_stream_via_factory_def)
  have "0 < deposit" "start < end_at"
    using inner by (cases r; auto elim!: create_stream_inner_Inr simp: opened_def opened_stream_def)+
  moreover obtain c where c: "query_config fi fac = Some c"
    using assms by (auto simp: create_stream_via_factory_def)
  ultimately have "admits c deposit (end_at - start)"
    using assms
    by (auto simp: create_stream_via_factory_def admits_def Let_def sdiv_nonneg not_less not_le
        split: option.splits if_splits)
  with c g inner show thesis by (intro that)
qed

lemma via_factory_admitted:
  assumes "query_config fi fac = Some c" "query_allowed fi fac tkn = Some True"
    and "admits c deposit (end_at - start)" "0 < deposit" "start < end_at"
  shows "create_stream_via_factory tk fi e fac a b tkn deposit start end_at cliff cc cp ct w =
    create_stream tk e a b tkn deposit start end_at cliff cc cp ct None w"
  using assms
  by (auto simp: create_stream_via_factory_def create_stream_def create_stream_with_cliff_mode_def
      admits_def Let_def sdiv_nonneg not_less not_le split: option.splits intro!: and_then_cong)

interpretation via_factory: halting_settlement
  "\<lambda>e. create_stream_via_factory tk fi e fac a b tkn deposit start end_at cliff cc cp ct"
  for tk fi fac a b tkn deposit start end_at cliff cc cp ct
proof
  show "settles (timestamp e) w w'"
    if "sound_world (timestamp e) w"
      "create_stream_via_factory tk fi e fac a b tkn deposit start end_at cliff cc cp ct w = Inr (r, w')"
    for e w r w'
    using that(2) by (rule via_factory_Inr) (rule create_stream_inner_effect(9) [OF that(1)])
qed (simp add: create_stream_via_factory_def require_not_halted_def)

text \<open>With this repository's factory behind the address, the policy read is in range.\<close>

lemma deployed_factories_config:
  assumes "factory_reachable f" "fs fac = Some f" "query_config (deployed_factories fs) fac = Some c"
  shows "initialized f" "MIN_DEPOSIT_CAP \<le> cfg_max_deposit c"
    "cfg_min_duration c \<le> MAX_MIN_DURATION_SECONDS"
    "rates_ok (cfg_min_rate_per_second c) (cfg_max_rate_per_second c)"
    "cfg_creation_paused c = is_factory_paused f"
proof -
  note ok = factory_reachable_ok [OF assms(1)]
  have c: "get_factory_config f = Inr c"
    using assms(2,3) by (auto simp: deployed_factories_def split: sum.splits)
  show i: "initialized f" using c factory_config_needs_init [OF ok] by fastforce
  obtain c' where c': "get_factory_config f = Inr c'" "MIN_DEPOSIT_CAP \<le> cfg_max_deposit c'"
    "cfg_min_duration c' \<le> MAX_MIN_DURATION_SECONDS"
    "rates_ok (cfg_min_rate_per_second c') (cfg_max_rate_per_second c')"
    "cfg_creation_paused c' = is_factory_paused f"
    by (rule factory_config_available [OF ok i])
  with c show "MIN_DEPOSIT_CAP \<le> cfg_max_deposit c"
    "cfg_min_duration c \<le> MAX_MIN_DURATION_SECONDS"
    "rates_ok (cfg_min_rate_per_second c) (cfg_max_rate_per_second c)"
    "cfg_creation_paused c = is_factory_paused f"
    by simp_all
qed

end
