(* ===== verification/System.thy ===== *)
theory System
  imports Via_Factory
begin

text \<open>
  The whole stream contract as a transition system: every entry point is a constructor of
  \<open>call\<close>, \<open>exec\<close> dispatches it, and a step of the system is one invocation (rolled back when
  it fails), the passage of time, or anything the token contracts do on their own. In these runs
  the invariants of the components hold throughout and every call refines the ledger machine. The
  one call that does not, \<open>delegate_top_up\<close> on a stream with a step or front-loaded curve, is
  excluded by \<open>keeps_curve\<close>; \<open>Any_Calls\<close> has the runs in which it is made as well.
\<close>

section \<open>The entry points\<close>

datatype call =
    Create_stream address address address int u64 u64 u64 bool bool bool "string option"
  | Create_stream_with_cliff_mode address address address int u64 u64 u64 cliff_mode bool bool bool
      "string option"
  | Create_stream_with_curve address address address int u64 u64 u64 bool bool bool release_curve
  | Batch_create address "batch_create_request list"
  | Create_stream_via_factory address address address address int u64 u64 u64 bool bool bool
  | Top_up u64 int
  | Withdraw u64 "int option"
  | Batch_withdraw address "raw_val list"
  | Cancel u64
  | Batch_cancel address "raw_val list"
  | Reclaim_dust u64
  | Pause u64
  | Resume u64
  | Transfer_recipient u64 address
  | Grant_delegate u64 address address u32 "u64 option"
  | Revoke_delegate u64 address address
  | Delegate_withdraw u64 address "int option"
  | Delegate_cancel u64 address
  | Delegate_pause u64 address
  | Delegate_resume u64 address
  | Delegate_top_up u64 address int
  | Delegate_transfer_recipient u64 address address
  | Extend_stream_ttl u64
  | Batch_extend_ttl "raw_val list"
  | Set_halt_operator address
  | Halt
  | Resume_contract

text \<open>The world a call leaves, its return value dropped.\<close>

definition world_after :: "('r \<times> 't world) result \<Rightarrow> 't world result" where
  "world_after m = and_then m (\<lambda>(r, w). Inr w)"

fun exec :: "'t token_iface \<Rightarrow> factory_iface \<Rightarrow> call \<Rightarrow> env \<Rightarrow> 't world \<Rightarrow> 't world result" where
  "exec tk fi (Create_stream a b t d st en cl cc cp ct ref) e w =
     world_after (create_stream tk e a b t d st en cl cc cp ct ref w)"
| "exec tk fi (Create_stream_with_cliff_mode a b t d st en cl m cc cp ct ref) e w =
     world_after (create_stream_with_cliff_mode tk e a b t d st en cl m cc cp ct ref w)"
| "exec tk fi (Create_stream_with_curve a b t d st en cl cc cp ct crv) e w =
     world_after (create_stream_with_curve tk e a b t d st en cl cc cp ct crv w)"
| "exec tk fi (Batch_create a requests) e w = world_after (batch_create tk e a requests w)"
| "exec tk fi (Create_stream_via_factory fac a b t d st en cl cc cp ct) e w =
     world_after (create_stream_via_factory tk fi e fac a b t d st en cl cc cp ct w)"
| "exec tk fi (Top_up i n) e w = world_after (top_up tk e i n w)"
| "exec tk fi (Withdraw i n) e w = world_after (withdraw tk e i n w)"
| "exec tk fi (Batch_withdraw a raws) e w = world_after (batch_withdraw tk e a raws w)"
| "exec tk fi (Cancel i) e w = world_after (cancel tk e i w)"
| "exec tk fi (Batch_cancel a raws) e w = world_after (batch_cancel tk e a raws w)"
| "exec tk fi (Reclaim_dust i) e w = world_after (reclaim_dust tk e i w)"
| "exec tk fi (Pause i) e w = world_after (pause e i w)"
| "exec tk fi (Resume i) e w = world_after (resume e i w)"
| "exec tk fi (Transfer_recipient i a) e w = world_after (transfer_recipient e i a w)"
| "exec tk fi (Grant_delegate i g d m x) e w = world_after (grant_delegate e i g d m x w)"
| "exec tk fi (Revoke_delegate i g d) e w = world_after (revoke_delegate e i g d w)"
| "exec tk fi (Delegate_withdraw i d n) e w = world_after (delegate_withdraw tk e i d n w)"
| "exec tk fi (Delegate_cancel i d) e w = world_after (delegate_cancel tk e i d w)"
| "exec tk fi (Delegate_pause i d) e w = world_after (delegate_pause e i d w)"
| "exec tk fi (Delegate_resume i d) e w = world_after (delegate_resume e i d w)"
| "exec tk fi (Delegate_top_up i d n) e w = world_after (delegate_top_up tk e i d n w)"
| "exec tk fi (Delegate_transfer_recipient i d a) e w =
     world_after (delegate_transfer_recipient e i d a w)"
| "exec tk fi (Extend_stream_ttl i) e w = world_after (extend_stream_ttl e i w)"
| "exec tk fi (Batch_extend_ttl raws) e w = world_after (batch_extend_ttl e raws w)"
| "exec tk fi (Set_halt_operator a) e w = world_after (set_halt_operator e a w)"
| "exec tk fi Halt e w = world_after (halt e w)"
| "exec tk fi Resume_contract e w = world_after (resume_contract e w)"

text \<open>A failed invocation is rolled back by the host.\<close>

definition commit :: "'t token_iface \<Rightarrow> factory_iface \<Rightarrow> call \<Rightarrow> env \<Rightarrow> 't world \<Rightarrow> 't world" where
  "commit tk fi c e w = (case exec tk fi c e w of Inr w' \<Rightarrow> w' | Inl _ \<Rightarrow> w)"

definition keeps_curve :: "call \<Rightarrow> 't world \<Rightarrow> bool" where
  "keeps_curve c w =
     (case c of
        Delegate_top_up i d n \<Rightarrow>
          (case lookup_stream w i of Some s \<Rightarrow> curve s = Linear | None \<Rightarrow> True)
      | _ \<Rightarrow> True)"

inductive system_step ::
    "'t token_iface \<Rightarrow> factory_iface \<Rightarrow> u64 \<times> 't world \<Rightarrow> u64 \<times> 't world \<Rightarrow> bool"
  for tk :: "'t token_iface" and fi :: factory_iface where
  system_call:
    "timestamp e = now \<Longrightarrow> keeps_curve c w \<Longrightarrow> system_step tk fi (now, w) (now, commit tk fi c e w)"
| system_tick:
    "now \<le> later \<Longrightarrow> system_step tk fi (now, w) (later, w)"
| system_tokens:
    "system_step tk fi (now, w) (now, w\<lparr>token_state := ts\<rparr>)"

lemma system_step_cases [consumes 1, case_names invoke tick tokens]:
  assumes "system_step tk fi (now, w) (later, w')"
  obtains (invoke) e c where "timestamp e = now" "later = now" "keeps_curve c w" "w' = commit tk fi c e w"
  | (tick) "now \<le> later" "w' = w"
  | (tokens) ts where "later = now" "w' = w\<lparr>token_state := ts\<rparr>"
  using assms
proof (cases rule: system_step.cases)
  case (system_call e c)
  then show thesis by (intro invoke) simp_all
next
  case system_tick
  then show thesis by (intro tick) simp_all
next
  case (system_tokens ts)
  then show thesis by (intro tokens) simp_all
qed

definition system_run ::
    "'t token_iface \<Rightarrow> factory_iface \<Rightarrow> u64 \<times> 't world \<Rightarrow> u64 \<times> 't world \<Rightarrow> bool" where
  "system_run tk fi = (system_step tk fi)\<^sup>*\<^sup>*"

definition system_reachable :: "'t token_iface \<Rightarrow> factory_iface \<Rightarrow> u64 \<Rightarrow> 't world \<Rightarrow> bool" where
  "system_reachable tk fi now w \<longleftrightarrow>
     (\<exists>deployed_at ts. system_run tk fi (deployed_at, fresh_world ts) (now, w))"

section \<open>The invariant of the system\<close>

definition halt_ok :: "'t world \<Rightarrow> bool" where
  "halt_ok w \<longleftrightarrow> (is_halted w \<longrightarrow> halt_operator_entry w \<noteq> None)"

lemma world_after_Inr [simp]: "world_after m = Inr w \<longleftrightarrow> (\<exists>r. m = Inr (r, w))"
  by (auto simp: world_after_def)

text \<open>The calls that settle streams, and the five that do not.\<close>

definition control_call :: "call \<Rightarrow> bool" where
  "control_call c =
     (case c of
        Grant_delegate i g d m x \<Rightarrow> True
      | Revoke_delegate i g d \<Rightarrow> True
      | Set_halt_operator a \<Rightarrow> True
      | Halt \<Rightarrow> True
      | Resume_contract \<Rightarrow> True
      | _ \<Rightarrow> False)"

lemma exec_settles:
  assumes "exec tk fi c e w = Inr w'" "sound_world (timestamp e) w" "keeps_curve c w" "\<not> control_call c"
  shows "settles (timestamp e) w w'"
  using assms(1,3,4)
  by (cases c)
    (auto simp: create_stream_def keeps_curve_def control_call_def simp del: create_gate split: option.splits
      intro: create.refines [OF assms(2)] create_curve.refines [OF assms(2)]
        create_batch.refines [OF assms(2)] via_factory.refines [OF assms(2)] top_up.refines [OF assms(2)]
        withdraw.refines [OF assms(2)] batch_withdraw.refines [OF assms(2)] cancel.refines [OF assms(2)]
        batch_cancel.refines [OF assms(2)] dust.refines [OF assms(2)] pause.refines [OF assms(2)]
        resume.refines [OF assms(2)] transfer.refines [OF assms(2)]
        delegate_withdraw.refines [OF assms(2)] delegate_cancel.refines [OF assms(2)]
        delegate_pause.refines [OF assms(2)] delegate_resume.refines [OF assms(2)]
        delegate_transfer.refines [OF assms(2)] extend_ttl.refines [OF assms(2)]
        batch_ttl.refines [OF assms(2)] delegate_top_up_settles [OF _ assms(2)])

text \<open>The others keep the ledger, and keep grants one-sided and the halt owned.\<close>

lemma exec_control:
  assumes "exec tk fi c e w = Inr w'" "control_call c"
  shows "ledger_of w' = ledger_of w" "counters_agree w' = counters_agree w"
    "lookup_stream w' = lookup_stream w"
  using assms
  by (cases c; use halt_ops_frame in
    \<open>fastforce simp: control_call_def grant_delegate_effect revoke_delegate_effect\<close>)+

lemma settles_keeps_streams:
  assumes "settles now w w'" "world_inv now w" "lookup_stream w i = Some s"
  shows "\<exists>s'. lookup_stream w' i = Some s' \<and> stream_life now s now s'"
  using ledger_steps_life [of now "ledger_of w" "ledger_of w'" i s] world_invD(6) [OF assms(2)] assms(1,3)
  by (simp add: settles_def)

lemma control_grants:
  assumes run: "exec tk fi c e w = Inr w'" and ctl: "control_call c" and ok: "grants_ok w"
  shows "grants_ok w'"
proof -
  have l: "lookup_stream w' = lookup_stream w" using run ctl by (rule exec_control)
  show ?thesis
  proof (cases c)
    case (Grant_delegate i g d m x)
    then obtain r where r: "grant_delegate e i g d m x w = Inr (r, w')" using run by auto
    show ?thesis using grant_delegate_effect(4,7) [OF r] ok l
      by (auto simp: grants_ok_def split: if_splits)
  next
    case (Revoke_delegate i g d)
    then obtain r where r: "revoke_delegate e i g d w = Inr (r, w')" using run by auto
    show ?thesis using revoke_delegate_effect(6) [OF r] ok l
      by (auto simp: grants_ok_def split: if_splits)
  qed (use run ctl ok halt_ops_frame in \<open>fastforce simp: control_call_def grants_ok_def\<close>)+
qed

lemma control_halt_ok:
  assumes run: "exec tk fi c e w = Inr w'" and ctl: "control_call c" and ok: "halt_ok w"
  shows "halt_ok w'"
proof -
  have hv: "halted_at_entry (publish ev x) = halted_at_entry x"
    "halt_operator_entry (publish ev x) = halt_operator_entry x" for ev and x :: "'a world"
    by (simp_all add: publish_def)
  show ?thesis
  proof (cases c)
    case (Grant_delegate i g d m x)
    then obtain r where r: "grant_delegate e i g d m x w = Inr (r, w')" using run by auto
    show ?thesis using grant_delegate_effect(5,6) [OF r] ok by (simp add: halt_ok_def is_halted_def)
  next
    case (Revoke_delegate i g d)
    then obtain r where r: "revoke_delegate e i g d w = Inr (r, w')" using run by auto
    show ?thesis using revoke_delegate_effect(4,5) [OF r] ok by (simp add: halt_ok_def is_halted_def)
  qed (use run ctl ok in \<open>auto simp: control_call_def set_halt_operator_Inr halt_Inr resume_contract_Inr halt_ok_def
      is_halted_def hv store_halt_operator_def set_halt_def clear_halt_def extend_instance_def\<close>)
qed

lemma commit_inv:
  assumes inv: "world_inv (timestamp e) w" and kc: "keeps_curve c w"
  shows "world_inv (timestamp e) (commit tk fi c e w)"
proof (cases "exec tk fi c e w")
  case (Inl f)
  with inv show ?thesis by (simp add: commit_def)
next
  case (Inr w')
  show ?thesis
  proof (cases "control_call c")
    case True
    then show ?thesis using Inr inv exec_control(1,2) [OF Inr True] by (simp add: commit_def world_inv_def)
  next
    case False
    have "settles (timestamp e) w w'" using Inr inv kc False by (blast intro: exec_settles world_sound)
    from settles_inv [OF this inv] Inr show ?thesis by (simp add: commit_def)
  qed
qed

lemma token_state_inv: "world_inv now (w\<lparr>token_state := ts\<rparr>) = world_inv now w"
proof -
  have "view (w\<lparr>token_state := ts\<rparr>) = (view w)\<lparr>v_tokens := ts\<rparr>" by (rule view_token_state)
  then have "ledger_of (w\<lparr>token_state := ts\<rparr>) = ledger_of w"
    "counters_agree (w\<lparr>token_state := ts\<rparr>) = counters_agree w"
    by (simp_all add: view_def ledger_of_def counters_agree_def)
  then show ?thesis by (simp add: world_inv_def)
qed

lemma system_step_inv:
  assumes "system_step tk fi (now, w) (later, w')" "world_inv now w"
  shows "world_inv later w' \<and> now \<le> later"
  using assms(1)
proof (cases rule: system_step_cases)
  case (invoke e c)
  with assms(2) show ?thesis using commit_inv [of e w c tk fi] by simp
next
  case tick
  with assms(2) show ?thesis using world_inv_later by blast
next
  case (tokens ts)
  with assms(2) show ?thesis by (simp add: token_state_inv)
qed

lemma system_run_inv:
  assumes "system_run tk fi (now, w) (later, w')" "world_inv now w"
  shows "world_inv later w' \<and> now \<le> later"
  using assms(1) unfolding system_run_def
proof (induction "(later, w')" arbitrary: later w' rule: rtranclp_induct)
  case base
  with assms(2) show ?case by simp
next
  case (step b)
  obtain t v where b: "b = (t, v)" by (cases b)
  with step.hyps(3) have "world_inv t v" "now \<le> t" by simp_all
  with system_step_inv [OF step.hyps(2) [unfolded b]] show ?case by (auto intro: order_trans)
qed

lemma reachable_world_inv: "system_reachable tk fi now w \<Longrightarrow> world_inv now w"
  unfolding system_reachable_def by (elim exE) (rule system_run_inv [THEN conjunct1, OF _ world_inv_fresh])

section \<open>Every stream of the system lives a life\<close>

lemma commit_life:
  assumes inv: "world_inv (timestamp e) w" and kc: "keeps_curve c w" and s: "lookup_stream w i = Some s"
  shows "\<exists>s'. lookup_stream (commit tk fi c e w) i = Some s' \<and>
           stream_life (timestamp e) s (timestamp e) s'"
proof (cases "exec tk fi c e w")
  case (Inl f)
  with s show ?thesis by (simp add: commit_def stream_life_def)
next
  case (Inr w')
  show ?thesis
  proof (cases "control_call c")
    case True
    with exec_control(3) [OF Inr True] Inr s show ?thesis by (simp add: commit_def stream_life_def)
  next
    case False
    with Inr s inv kc show ?thesis
      by (simp add: commit_def) (rule settles_keeps_streams [OF exec_settles [OF _ world_sound]])
  qed
qed

lemma system_run_life:
  assumes "system_run tk fi (now, w) (later, w')" "world_inv now w" "lookup_stream w i = Some s"
  shows "\<exists>s'. lookup_stream w' i = Some s' \<and> stream_life now s later s'"
  using assms(1) unfolding system_run_def
proof (induction "(later, w')" arbitrary: later w' rule: rtranclp_induct)
  case base
  with assms(3) show ?case by (simp add: stream_life_def)
next
  case (step b)
  obtain t v where b: "b = (t, v)" by (cases b)
  obtain r where r: "lookup_stream v i = Some r" "stream_life now s t r"
    using step.hyps(3) [OF b] by blast
  have inv: "world_inv t v"
    using system_run_inv [of tk fi now w t v] step.hyps(1) assms(2) by (simp add: system_run_def b)
  from step.hyps(2) [unfolded b] have "\<exists>s'. lookup_stream w' i = Some s' \<and> stream_life t r later s'"
  proof (cases rule: system_step_cases)
    case (invoke e c)
    with inv r(1) commit_life [of e v c i r tk fi] show ?thesis by simp
  next
    case tick
    with r(1) stream_life_tick show ?thesis by blast
  next
    case (tokens ts)
    moreover have "lookup_stream (v\<lparr>token_state := ts\<rparr>) = lookup_stream v"
      using view_token_state [of ts v] by (simp add: view_def)
    ultimately show ?thesis using r(1) by (simp add: stream_life_def)
  qed
  with r(2) show ?case by (blast intro: stream_life_trans)
qed

section \<open>Reading a reachable world\<close>

lemma exists_lookup: "stream_exists w i \<longleftrightarrow> (\<exists>s. lookup_stream w i = Some s)"
  using lookup_stream_None [of w i] by (auto simp: stream_exists_def)

lemma commit_run:
  "timestamp e = now \<Longrightarrow> keeps_curve c w \<Longrightarrow> system_run tk fi (now, w) (now, commit tk fi c e w)"
  unfolding system_run_def by (rule r_into_rtranclp, rule system_call)

lemma system_reachable_call:
  assumes "system_reachable tk fi now w" "now \<le> timestamp e" "keeps_curve c w"
  shows "system_reachable tk fi (timestamp e) (commit tk fi c e w)"
proof -
  obtain d ts where "(system_step tk fi)\<^sup>*\<^sup>* (d, fresh_world ts) (now, w)"
    using assms(1) by (auto simp: system_reachable_def system_run_def)
  also have "(system_step tk fi)\<^sup>*\<^sup>* (now, w) (timestamp e, w)"
    using assms(2) by (intro r_into_rtranclp system_tick)
  also have "(system_step tk fi)\<^sup>*\<^sup>* (timestamp e, w) (timestamp e, commit tk fi c e w)"
    using assms(3) by (intro r_into_rtranclp system_call) simp_all
  finally show ?thesis unfolding system_reachable_def system_run_def by blast
qed

lemma tick_run: "now \<le> later \<Longrightarrow> system_run tk fi (now, w) (later, w)"
  unfolding system_run_def by (rule r_into_rtranclp, rule system_tick)

lemma system_reachable_later: "system_reachable tk fi now w \<Longrightarrow> now \<le> later \<Longrightarrow> system_reachable tk fi later w"
  using tick_run [of now later tk fi w] unfolding system_reachable_def system_run_def
  by (meson rtranclp_trans)

end
