(* ===== verification/Solvency.thy ===== *)
theory Solvency
  imports System
begin

text \<open>
  Real balances. With honest tokens, the contract's balance of every token covers the pool
  accounted for it: the property is kept by every operation, successful or rolled back. It rests on three
  lemmas, one for each way in which \<^verbatim>\<open>lib.rs\<close> moves funds: the verified pull of a deposit,
  the payout, and the refund.
\<close>

definition backed :: "'t token_iface \<Rightarrow> address \<Rightarrow> 't world \<Rightarrow> bool" where
  "backed tk contract w \<longleftrightarrow>
     (\<forall>tkn. pooled_balance w tkn \<le> held tk (token_state w) tkn contract)"

definition money_same :: "'t world \<Rightarrow> 't world \<Rightarrow> bool" where
  "money_same w w' \<longleftrightarrow> token_state w' = token_state w \<and> pooled_balance w' = pooled_balance w"

lemma money_same_backed: "money_same w w' \<Longrightarrow> backed tk contract w' = backed tk contract w"
  by (simp add: money_same_def backed_def)

lemma money_rent [simp]:
  "money_same w (publish ev w') = money_same w w'"
  "money_same w (extend_instance e w') = money_same w w'"
  "money_same w (extend_stream e i s w') = money_same w w'"
  "money_same (extend_instance e w) w' = money_same w w'"
  "money_same (extend_stream e i s w) w' = money_same w w'"
  "money_same w w"
  by (simp_all add: money_same_def)

lemma backed_rent [simp]:
  "backed tk contract (publish ev w) = backed tk contract w"
  "backed tk contract (extend_instance e w) = backed tk contract w"
  "backed tk contract (extend_stream e i s w) = backed tk contract w"
  by (simp_all add: backed_def)

section \<open>The three movements\<close>

lemma payment_backed:
  assumes hon: "honest_token tk" and b: "backed tk ca w" and n: "0 \<le> n"
    and p: "pooled_balance w' = (pooled_balance w)(tkn := pooled_balance w tkn - n)"
    and t: "try_transfer tk (token_state w) tkn ca payee n = (TryOk, token_state w')"
  shows "backed tk ca w'"
  unfolding backed_def
proof
  fix k
  have "pooled_balance w k \<le> held tk (token_state w) k ca" using b by (simp add: backed_def)
  moreover have "held tk (token_state w') k ca =
      (if k = tkn then held tk (token_state w) tkn ca - n + (if ca = payee then n else 0)
       else held tk (token_state w) k ca)"
    using honest_transfer [OF hon t, of k ca] by simp
  ultimately show "pooled_balance w' k \<le> held tk (token_state w') k ca"
    using n p by (cases "k = tkn") auto
qed

lemma pull_deposit_backed:
  assumes hon: "honest_token tk" and b: "backed tk (contract_address e) w"
    and run: "pull_deposit tk e tkn a n w = Inr w'"
  shows "backed tk (contract_address e) w'"
  unfolding backed_def
proof
  fix k
  let ?ca = "contract_address e"
  obtain ts before where *: "token_balance tk (token_state w) tkn ?ca = Some before"
    "try_transfer tk (token_state w) tkn a ?ca n = (TryOk, ts)"
    "token_balance tk ts tkn ?ca = Some (before + n)"
    "credit_pool e tkn n (w\<lparr>token_state := ts\<rparr>) = Inr w'"
    using run by (rule pull_deposit_Inr)
  have ts: "token_state w' = ts" using ledger_credit_pool(5) [OF *(4)] by simp
  have old: "pooled_balance w k \<le> held tk (token_state w) k ?ca" using b by (simp add: backed_def)
  show "pooled_balance w' k \<le> held tk (token_state w') k ?ca"
  proof (cases "k = tkn")
    case True
    then show ?thesis using old *(1,3) pull_deposit_fields(6) [OF run] by (simp add: ts held_def)
  next
    case False
    then show ?thesis
      using old honest_transfer [OF hon *(2), of k ?ca] pull_deposit_fields(6) [OF run] by (simp add: ts)
  qed
qed

section \<open>Operations that keep the contract backed\<close>

locale backed_operation =
  fixes tk :: "'t token_iface" and run :: "env \<Rightarrow> 't world \<Rightarrow> ('r \<times> 't world) result"
  assumes keeps_backed:
    "honest_token tk \<Longrightarrow> sound_world (timestamp e) w \<Longrightarrow> backed tk (contract_address e) w \<Longrightarrow>
     run e w = Inr (r, w') \<Longrightarrow> backed tk (contract_address e) w'"
begin

lemma delegated:
  assumes "honest_token tk" "sound_world (timestamp e) w" "backed tk (contract_address e) w"
    and "behind_check e i d permission owner run w = Inr (r, w')"
  shows "backed tk (contract_address e) w'"
  using assms keeps_backed [of "signed_by e _" w r w'] by (auto simp: behind_check_Inr)

end

lemma create_inner_backed:
  assumes "honest_token tk" "sound_world (timestamp e) w" "backed tk (contract_address e) w"
    and run: "create_stream_inner tk e a b tkn n st en cl m cc cp ct ref crv w = Inr (i, w')"
  shows "backed tk (contract_address e) w'"
  using run
proof (rule create_stream_inner_Inr)
  let ?s = "opened_stream a b tkn n st en cl m cc cp ct ref crv"
  fix w1 w2
  assume pull: "pull_deposit tk e tkn a n (extend_instance e w) = Inr w1"
    and save: "save_stream e i ?s w1 = Inr w2"
    and i: "i = next_id w" and w': "w' = emit_stream_created i ?s (extend_instance e w2)"
  have "lookup_stream w1 i = None"
    using pull_deposit_fields(5) [OF pull] sound_worldD(2) [OF assms(2), of i] i by simp
  then have "money_same w1 w2"
    using save_stream_new(1) [OF save] by (simp add: view_def money_same_def)
  moreover have "backed tk (contract_address e) w1"
    using pull_deposit_backed [OF assms(1) _ pull] assms(3) by simp
  ultimately show ?thesis
    by (simp add: w' emit_stream_created_def money_same_backed)
qed

lemma create_all_backed:
  assumes "honest_token tk" "sound_world (timestamp e) w" "backed tk (contract_address e) w"
    and "create_all tk e a requests w = Inr (ids, w')"
  shows "backed tk (contract_address e) w'"
proof -
  have "backed tk (contract_address e) w \<longrightarrow> backed tk (contract_address e) w'"
    by (rule create_all_chain [OF assms(4,2)]) (use create_inner_backed [OF assms(1)] in auto)
  with assms(3) show ?thesis by blast
qed

lemma apply_withdrawal_backed:
  assumes "honest_token tk" and inv: "sound_world (timestamp e) w" and b: "backed tk (contract_address e) w"
    and s: "lookup_stream w i = Some s"
    and pay: "0 < payout" "payout \<le> vested_amount s (timestamp e) - withdrawn s"
    and run: "apply_withdrawal tk e i s payout w = Inr (s', w')"
  shows "backed tk (contract_address e) w'"
  using payment_backed [OF assms(1) b _ apply_withdrawal_effect(3) [OF sound_worldD(1) [OF inv s] s pay run]]
    apply_withdrawal_effect(5) [OF sound_worldD(1) [OF inv s] s pay run] pay(1) by auto

lemma settle_cancel_backed:
  assumes "honest_token tk" and inv: "sound_world (timestamp e) w" and b: "backed tk (contract_address e) w"
    and s: "lookup_stream w i = Some s" and q: "quote_cancel s (timestamp e) = Inr (vn, refund)"
    and run: "settle_cancel tk e i s (timestamp e) vn refund w = Inr w'"
  shows "backed tk (contract_address e) w'"
proof -
  note eff = settle_cancel_effect [OF inv s q run]
  from eff(8) show ?thesis
  proof
    assume "refund = 0 \<and> token_state w' = token_state w"
    then show ?thesis using eff(5) b by (simp add: backed_def)
  next
    assume "try_transfer tk (token_state w) (token s) (contract_address e) (sender s) refund = (TryOk, token_state w')"
    then show ?thesis by (rule payment_backed [OF assms(1) b eff(3,5)])
  qed
qed

lemma save_money:
  "save_stream e i s w = Inr w' \<Longrightarrow> lookup_stream w i \<noteq> None \<Longrightarrow> money_same w w'"
  by (simp add: money_same_def ledger_save_stream)


lemma withdraw_backed:
  assumes "honest_token tk" "sound_world (timestamp e) w" "backed tk (contract_address e) w"
    and "withdraw tk e i amount w = Inr (r, w')"
  shows "backed tk (contract_address e) w'"
  using assms(2,4)
  by (rule withdraw_Inr)
    (rule apply_withdrawal_backed [OF assms(1) _ _ _ _ _, of e "extend_stream e i _ w"],
      use assms(2,3) in simp_all)

lemma cancel_backed:
  assumes "honest_token tk" "sound_world (timestamp e) w" "backed tk (contract_address e) w"
    and "cancel tk e i w = Inr (r, w')"
  shows "backed tk (contract_address e) w'"
  using assms(4,2)
  by (rule cancel_Inr)
    (rule settle_cancel_backed [OF assms(1), of e "extend_stream e i _ w"], use assms(2,3) in simp_all)

lemma pay_all_backed:
  assumes "honest_token tk" "pay_all tk e items w = Inr w'" "sound_world (timestamp e) w"
    "backed tk (contract_address e) w" "distinct (map fst items)" "\<forall>item\<in>set items. priced (timestamp e) w item"
  shows "backed tk (contract_address e) w'"
proof -
  have "backed tk (contract_address e) w \<longrightarrow> backed tk (contract_address e) w'"
    by (rule pay_all_chain [OF assms(2,3,5,6)]) (use apply_withdrawal_backed [OF assms(1)] in auto)
  with assms(4) show ?thesis by blast
qed

lemma settle_all_backed:
  assumes "honest_token tk" "settle_all tk e (timestamp e) items w = Inr w'" "sound_world (timestamp e) w"
    "backed tk (contract_address e) w" "distinct (map fst items)" "\<forall>item\<in>set items. quoted (timestamp e) w item"
  shows "backed tk (contract_address e) w'"
proof -
  have "backed tk (contract_address e) w \<longrightarrow> backed tk (contract_address e) w'"
    by (rule settle_all_chain [OF assms(2,3,5,6)]) (use settle_cancel_backed [OF assms(1)] in auto)
  with assms(4) show ?thesis by blast
qed

lemma top_up_backed:
  assumes "honest_token tk" "sound_world (timestamp e) w" "backed tk (contract_address e) w"
    and "top_up tk e i n w = Inr (r, w')"
  shows "backed tk (contract_address e) w'"
  using assms(4,2)
proof (rule top_up_Inr)
  fix s new_end w2 w3
  assume s: "lookup_stream w i = Some s"
    and pull: "pull_deposit tk e (token s) (sender s) n (extend_stream e i s w) = Inr w2"
    and save: "save_stream e i (grown_stream n new_end s) w2 = Inr w3"
    and w': "w' = publish (ToppedUpEvent i (sender s) n (deposited s + n) new_end (recipient s)) w3"
  have "lookup_stream w2 i \<noteq> None" using pull_deposit_fields(5) [OF pull] s by simp
  with save have "money_same w2 w3" by (rule save_money)
  moreover have "backed tk (contract_address e) w2"
    using pull_deposit_backed [OF assms(1) _ pull] assms(3) by simp
  ultimately show ?thesis by (simp add: w' money_same_backed)
qed

lemma delegate_top_up_backed:
  assumes "honest_token tk" "sound_world (timestamp e) w" "backed tk (contract_address e) w"
    and "delegate_top_up tk e i d n w = Inr (r, w')"
  shows "backed tk (contract_address e) w'"
  using assms(4,2)
proof (rule delegate_top_up_Inr)
  fix s new_end w2 w3
  assume s: "lookup_stream w i = Some s"
    and save: "save_stream e i (grown_stream n new_end s) (extend_stream e i s w) = Inr w2"
    and pull: "pull_deposit tk e (token s) (sender s) n w2 = Inr w3"
    and w': "w' = publish (ToppedUpEvent i (sender s) n (deposited s + n) new_end (recipient s)) w3"
  have "lookup_stream (extend_stream e i s w) i \<noteq> None" using s by simp
  with save have "money_same (extend_stream e i s w) w2" by (rule save_money)
  then have "backed tk (contract_address e) w2" using assms(3) money_same_backed by fastforce
  then show ?thesis using pull_deposit_backed [OF assms(1) _ pull] by (simp add: w')
qed

text \<open>Operations that move no money.\<close>

lemma pause_money: "pause e i w = Inr (r, w') \<Longrightarrow> money_same w w'"
  by (auto simp: pause_def Let_def emit_paused_def dest!: save_money)

lemma resume_money: "resume e i w = Inr (r, w') \<Longrightarrow> money_same w w'"
  by (auto simp: resume_def Let_def emit_resumed_def simp del: checked_add_u64_Some dest!: save_money)

lemma transfer_money: "transfer_recipient e i a w = Inr (r, w') \<Longrightarrow> money_same w w'"
  by (auto simp: transfer_recipient_def Let_def emit_recipient_transferred_def dest!: save_money)

lemma delegate_money:
  "delegate_pause e i d w = Inr (r, w') \<Longrightarrow> money_same w w'"
  "delegate_resume e i d w = Inr (r, w') \<Longrightarrow> money_same w w'"
  "delegate_transfer_recipient e i d a w = Inr (r, w') \<Longrightarrow> money_same w w'"
  by (auto simp: delegate_pause_def delegate_resume_def delegate_transfer_recipient_def Let_def
      emit_paused_def emit_resumed_def emit_recipient_transferred_def
      simp del: checked_add_u64_Some dest!: save_money)

lemma control_money:
  assumes "exec tk fi c e w = Inr w'" "control_call c"
  shows "money_same w w'"
proof -
  have "pooled_balance w' = pooled_balance w"
    using exec_control(1) [OF assms] by (simp add: ledger_of_def)
  moreover have "token_state w' = token_state w"
  proof (cases c)
    case (Grant_delegate i g d m x)
    then obtain r where r: "grant_delegate e i g d m x w = Inr (r, w')" using assms(1) by auto
    then show ?thesis
      by (cases rule: grant_delegate_Inr) (auto dest!: save_delegate_view(1) simp: view_def)
  next
    case (Revoke_delegate i g d)
    then show ?thesis
      using assms(1) by (auto simp: revoke_delegate_Inr remove_delegate_def remove_entry_rent_def)
  qed (use assms halt_ops_frame in \<open>fastforce simp: control_call_def\<close>)+
  ultimately show ?thesis by (simp add: money_same_def)
qed


section \<open>Interpretations\<close>

interpretation create_b: backed_operation tk
  "\<lambda>e. create_stream_with_cliff_mode tk e a b tkn n st en cl m cc cp ct ref"
  for tk a b tkn n st en cl m cc cp ct ref
  by unfold_locales (auto intro: create_inner_backed)

interpretation create_curve_b: backed_operation tk
  "\<lambda>e. create_stream_with_curve tk e a b tkn n st en cl cc cp ct crv"
  for tk a b tkn n st en cl cc cp ct crv
  by unfold_locales (auto intro: create_inner_backed)

interpretation create_batch_b: backed_operation tk "\<lambda>e. batch_create tk e a requests" for tk a requests
  by unfold_locales (auto intro: create_all_backed)

interpretation via_factory_b: backed_operation tk
  "\<lambda>e. create_stream_via_factory tk fi e fac a b tkn n st en cl cc cp ct"
  for tk fi fac a b tkn n st en cl cc cp ct
  by unfold_locales (erule via_factory_Inr, rule create_inner_backed)

interpretation withdraw_b: backed_operation tk "\<lambda>e. withdraw tk e i amount" for tk i amount
  by unfold_locales (rule withdraw_backed)

interpretation cancel_b: backed_operation tk "\<lambda>e. cancel tk e i" for tk i
  by unfold_locales (rule cancel_backed)

interpretation top_up_b: backed_operation tk "\<lambda>e. top_up tk e i n" for tk i n
  by unfold_locales (rule top_up_backed)

interpretation delegate_top_up_b: backed_operation tk "\<lambda>e. delegate_top_up tk e i d n" for tk i d n
  by unfold_locales (rule delegate_top_up_backed)

interpretation delegate_withdraw_b: backed_operation tk "\<lambda>e. delegate_withdraw tk e i d n" for tk i d n
  by unfold_locales (unfold delegate_withdraw_eq, rule withdraw_b.delegated)

interpretation delegate_cancel_b: backed_operation tk "\<lambda>e. delegate_cancel tk e i d" for tk i d
  by unfold_locales (unfold delegate_cancel_eq, rule cancel_b.delegated)

interpretation batch_withdraw_b: backed_operation tk "\<lambda>e. batch_withdraw tk e payee raws" for tk payee raws
  by unfold_locales (erule (1) batch_withdraw_Inr, rule pay_all_backed)

interpretation batch_cancel_b: backed_operation tk "\<lambda>e. batch_cancel tk e owner raws" for tk owner raws
proof
  show "backed tk (contract_address e) w'"
    if hon: "honest_token tk" and inv: "sound_world (timestamp e) w" and b: "backed tk (contract_address e) w"
      and run: "batch_cancel tk e owner raws w = Inr (r, w')" for e w r w'
    using run
  proof (cases rule: batch_cancel_Inr)
    case refused
    with b show ?thesis by simp
  next
    case settled
    then show ?thesis using settle_all_backed [OF hon _ inv b] by blast
  qed
qed

lemma exec_backed:
  assumes hon: "honest_token tk" and inv: "sound_world (timestamp e) w" and b: "backed tk (contract_address e) w"
    and run: "exec tk fi c e w = Inr w'"
  shows "backed tk (contract_address e) w'"
proof (cases "control_call c")
  case True
  then show ?thesis using control_money [OF run] b by (simp add: money_same_backed)
next
  case False
  have money: "money_same w w' \<Longrightarrow> ?thesis" using b by (simp add: money_same_backed)
  show ?thesis
  proof (cases c)
    case (Reclaim_dust i)
    then obtain r s where r: "reclaim_dust tk e i w = Inr (r, w')" "lookup_stream w i = Some s"
      "authorized e (sender s)"
      using run by (auto simp: reclaim_dust_def)
    then have "w' = extend_stream e i s w" using reclaim_dust_eq [OF inv r(2,3)] by simp
    with b show ?thesis by simp
  next
    case (Extend_stream_ttl i)
    with run b show ?thesis by (auto simp: extend_stream_ttl_def Let_def emit_ttl_extended_def)
  next
    case (Batch_extend_ttl raws)
    then obtain ids m w1 where w1: "extend_each e ids 0 w = Inr (m, w1)" "w' = extend_instance e w1"
      using run by (auto simp: batch_extend_ttl_def)
    have "money_same w w1"
      using extend_each_frame [OF w1(1)] by (auto simp: money_same_def ledger_of_def)
    then show ?thesis by (intro money) (simp add: w1(2))
  qed (use run False in \<open>auto simp: control_call_def create_stream_def simp del: create_gate
      intro: money pause_money resume_money transfer_money delegate_money
        create_b.keeps_backed [OF hon inv b] create_curve_b.keeps_backed [OF hon inv b]
        create_batch_b.keeps_backed [OF hon inv b] via_factory_b.keeps_backed [OF hon inv b]
        withdraw_b.keeps_backed [OF hon inv b] cancel_b.keeps_backed [OF hon inv b]
        top_up_b.keeps_backed [OF hon inv b] delegate_top_up_b.keeps_backed [OF hon inv b]
        delegate_withdraw_b.keeps_backed [OF hon inv b] delegate_cancel_b.keeps_backed [OF hon inv b]
        batch_withdraw_b.keeps_backed [OF hon inv b] batch_cancel_b.keeps_backed [OF hon inv b]\<close>)
qed

end
