(* ===== verification/Progress.thy ===== *)
theory Progress
  imports Solvency
begin

text \<open>
  When the operations succeed. On a sound world that is backed by honest tokens and whose pool is
  not overdrawn, the only thing that can stop a party from creating, withdrawing or
  cancelling, once its own preconditions hold, is the token refusing the transfer: no
  arithmetic, storage or reconciliation failure is left.
\<close>

lemma verify_total:
  assumes "honest_token tk" "backed tk (contract_address e) w"
  shows "verify_pool_balance tk e tkn w = Inr ()"
  using honest_balance [OF assms(1)] assms(2) by (auto simp: backed_def)

lemma pull_deposit_total:
  assumes hon: "honest_token tk" and a: "a \<noteq> contract_address e"
    and t: "try_transfer tk (token_state w) tkn a (contract_address e) n = (TryOk, ts)"
    and r: "in_i128 n" "in_i128 (pooled_balance w tkn + n)"
  shows "\<exists>w'. pull_deposit tk e tkn a n w = Inr w'"
proof -
  let ?ca = "contract_address e"
  have bal: "token_balance tk (token_state w) tkn ?ca = Some (held tk (token_state w) tkn ?ca)"
    "token_balance tk ts tkn ?ca = Some (held tk (token_state w) tkn ?ca + n)"
    using honest_balance [OF hon] honest_transfer [OF hon t, of tkn ?ca] a by auto
  have "pooled_balance (w\<lparr>token_state := ts\<rparr>) = pooled_balance w"
    using view_token_state [of ts w] by (simp add: view_def)
  then obtain w' where "credit_pool e tkn n (w\<lparr>token_state := ts\<rparr>) = Inr w'"
    using credit_pool_total [of "w\<lparr>token_state := ts\<rparr>" tkn n e] r(2) by auto
  then have "pull_deposit tk e tkn a n w = Inr w'"
    using t bal r(1)
    by (auto simp: pull_deposit_def balance_of_def token_transfer_def checked_sub_i128_def)
  then show ?thesis ..
qed

text \<open>What creation asks of its inputs.\<close>

definition valid_request ::
    "address \<Rightarrow> address \<Rightarrow> int \<Rightarrow> u64 \<Rightarrow> u64 \<Rightarrow> u64 \<Rightarrow> string option \<Rightarrow> bool" where
  "valid_request a b n st en cl ref \<longleftrightarrow>
     a \<noteq> b \<and> 0 < n \<and> st < en \<and> st \<le> cl \<and> cl \<le> en \<and> uint (en - st) \<le> n \<and>
     in_i128 (n * uint (en - st)) \<and> (case ref of Some r \<Rightarrow> length r \<le> 64 | None \<Rightarrow> True)"

lemma create_inner_total:
  assumes hon: "honest_token tk" and v: "valid_request a b n st en cl ref"
    and room: "uint (next_id w) < u64_max" "in_i128 n" "in_i128 (pooled_balance w tkn + n)"
    and a: "a \<noteq> contract_address e"
    and t: "try_transfer tk (token_state w) tkn a (contract_address e) n = (TryOk, ts)"
  shows "\<exists>w'. create_stream_inner tk e a b tkn n st en cl m cc cp ct ref crv w = Inr (next_id w, w')"
proof -
  let ?s = "opened_stream a b tkn n st en cl m cc cp ct ref crv"
  obtain w1 where pull: "pull_deposit tk e tkn a n (extend_instance e w) = Inr w1"
    using pull_deposit_total [OF hon a, of "extend_instance e w" tkn n ts] t room by auto
  then have "next_id w1 = next_id w" using pull_deposit_fields(7) [OF pull] by simp
  then obtain w2 where save: "save_stream e (next_id w) ?s w1 = Inr w2"
    using save_stream_new_total [of w1 e "next_id w" ?s] room(1) by auto
  have nid: "next_stream_id e w = Inr (next_id w, extend_instance e w)"
    using room(1) by (simp add: next_stream_id_eq)
  have g: "a \<noteq> b" "\<not> n \<le> 0" "\<not> en \<le> st" "\<not> (cl < st \<or> cl > en)" "\<not> n < uint (en - st)"
    "checked_mul_i128 n (uint (en - st)) = Some (n * uint (en - st))"
    "\<not> (case ref of Some r \<Rightarrow> length r > unat MAX_REFERENCE_LENGTH | None \<Rightarrow> False)"
    using v by (auto simp: valid_request_def checked_mul_i128_def MAX_REFERENCE_LENGTH_def split: option.splits)
  have "create_stream_inner tk e a b tkn n st en cl m cc cp ct ref crv w =
      Inr (next_id w, emit_stream_created (next_id w) ?s (extend_instance e w2))"
    unfolding create_stream_inner_def Let_def
    by (simp only: g if_False simp_thms ok_or_simps and_then_simps nid prod.case pull save
        opened_stream_def [symmetric])
  then show ?thesis by blast
qed

text \<open>A recipient can always collect what has accrued.\<close>

lemma withdraw_total:
  assumes hon: "honest_token tk" and inv: "sound_world (timestamp e) w"
    and b: "backed tk (contract_address e) w" and live: "\<not> is_halted w"
    and s: "lookup_stream w i = Some s" and auth: "authorized e (recipient s)"
    and pay: "0 < payout" "payout \<le> vested_amount s (timestamp e) - withdrawn s"
    and amount: "amount = Some payout \<or>
      amount = None \<and> payout = vested_amount s (timestamp e) - withdrawn s"
    and t: "try_transfer tk (token_state w) (token s) (contract_address e) (recipient s) payout = (TryOk, ts)"
    and nn: "0 \<le> pooled_balance w (token s)"
  shows "\<exists>w'. withdraw tk e i amount w = Inr (payout, w')"
proof -
  let ?w = "extend_stream e i s w" and ?p = "paid_stream (timestamp e) payout s"
  have so: "sound (timestamp e) s" using inv s by (rule sound_worldD(1))
  have inv1: "sound_world (timestamp e) ?w" and s1: "lookup_stream ?w i = Some s"
    and b1: "backed tk (contract_address e) ?w" using inv s b by simp_all
  obtain w2 where w2: "token_state w2 = token_state ?w"
    "apply_withdrawal tk e i s payout ?w =
       and_then (token_transfer tk (token s) (contract_address e) (recipient s) payout w2) (\<lambda>w3.
       Inr (?p, publish (withdrawn_event i ?p payout) w3))"
    by (rule apply_withdrawal_total [OF inv1 _ s1 pay]) (use nn in simp)
  define w' where "w' = publish (withdrawn_event i ?p payout) (w2\<lparr>token_state := ts\<rparr>)"
  have ap: "apply_withdrawal tk e i s payout ?w = Inr (?p, w')"
    using w2 t by (simp add: token_transfer_def w'_def)
  have "backed tk (contract_address e) w'" by (rule apply_withdrawal_backed [OF hon inv1 b1 s1 pay ap])
  then have ver: "verify_pool_balance tk e (token ?p) w' = Inr ()" by (rule verify_total [OF hon])
  have avail: "withdrawable s (timestamp e) = Inr (vested_amount s (timestamp e) - withdrawn s)"
    using sound_readings(1) [OF so] pay by simp
  have chosen: "(case amount of
            None \<Rightarrow> Inr (vested_amount s (timestamp e) - withdrawn s)
          | Some requested \<Rightarrow>
              if requested \<le> 0 then Inl (Err InvalidAmount)
              else if requested > vested_amount s (timestamp e) - withdrawn s
              then Inl (Err InsufficientWithdrawable)
              else Inr requested) = Inr payout"
    using amount pay by auto
  have pos: "(vested_amount s (timestamp e) - withdrawn s = 0) = False" using pay by simp
  have "withdraw tk e i amount w = Inr (payout, w')"
    unfolding withdraw_def load_stream_eq s option.case and_then_simps Let_def prod.case avail pos
      if_False chosen ap ver
    using live auth by (simp add: require_not_halted_def require_auth_def)
  then show ?thesis ..
qed

text \<open>
  Settling a cancellation at given figures only needs the pool to cover the refund and the token
  to take it, whatever the stream is.
\<close>

lemma settle_cancel_runs:
  fixes vn :: int and now :: u64
  assumes hon: "honest_token tk" and b: "backed tk (contract_address e) w" and s: "lookup_stream w i = Some s"
    and r: "0 \<le> r" "in_i128 (pooled_balance w (token s) - r)"
    and t: "r = 0 \<or> (\<exists>ts. try_transfer tk (token_state w) (token s) (contract_address e) (sender s) r = (TryOk, ts))"
  defines "c \<equiv> s\<lparr>deposited := vn, end_time := max (stream_time s now) (start_time s),
      paused_at := None, status := Cancelled\<rparr>"
  shows "\<exists>w'. settle_cancel tk e i s now vn r w = Inr w' \<and> lookup_stream w' = (lookup_stream w)(i \<mapsto> c) \<and>
    pooled_balance w' = (pooled_balance w)(token s := pooled_balance w (token s) - r)"
proof -
  let ?ca = "contract_address e"
  have tok: "token c = token s" "sender c = sender s" by (simp_all add: c_def)
  have ex: "lookup_stream w i \<noteq> None" using s by simp
  then obtain w1 where sv: "save_stream e i c w = Inr w1" using save_stream_existing by blast
  note vv = ledger_save_stream [OF sv ex]
  obtain w2 where d: "debit_pool e (token s) r w1 = Inr w2" using debit_pool_total [of w1 "token s" r e] r(2) vv(7) by auto
  note dd = ledger_debit_pool [OF d]
  have "\<exists>w3. (if r > 0 then and_then (debit_pool e (token s) r w1) (\<lambda>w2.
        token_transfer tk (token s) ?ca (sender s) r w2) else Inr w1) = Inr w3"
    unfolding d and_then_simps using t r(1) dd(5) vv(5) by (auto simp: token_transfer_def)
  then obtain w3 where out: "(if r > 0 then and_then (debit_pool e (token s) r w1) (\<lambda>w2.
        token_transfer tk (token s) ?ca (sender s) r w2) else Inr w1) = Inr w3" ..
  have w3: "lookup_stream w3 = (lookup_stream w)(i \<mapsto> c) \<and>
      pooled_balance w3 = (pooled_balance w)(token s := pooled_balance w (token s) - r) \<and> backed tk ?ca w3"
  proof (cases "r > 0")
    case True
    then obtain ts where tr: "token_transfer tk (token s) ?ca (sender s) r w2 = Inr w3"
      "try_transfer tk (token_state w2) (token s) ?ca (sender s) r = (TryOk, ts)" "w3 = w2\<lparr>token_state := ts\<rparr>"
      using out by (auto simp: d token_transfer_Inr)
    note tt = token_transfer_fields [OF tr(1)]
    have p: "pooled_balance w3 = (pooled_balance w)(token s := pooled_balance w (token s) - r)"
      using tt(6) dd(7) vv(7) by simp
    have "try_transfer tk (token_state w) (token s) ?ca (sender s) r = (TryOk, token_state w3)"
      using tr(2,3) dd(5) vv(5) by simp
    from payment_backed [OF hon b r(1) p this] p tt(5) dd(6) vv(6) show ?thesis by simp
  next
    case False
    then have "w3 = w1" "r = 0" using out r(1) by simp_all
    moreover have "money_same w w1" using sv ex by (rule save_money)
    ultimately show ?thesis using b money_same_backed vv(6,7) by fastforce
  qed
  then have "settle_cancel tk e i s now vn r w = Inr (emit_cancelled i c r w3)"
    unfolding settle_cancel_def Let_def c_def [symmetric] tok
    by (simp only: sv out and_then_simps verify_total [OF hon])
  with w3 show ?thesis by (auto simp: emit_cancelled_def)
qed

lemma settle_cancel_total:
  assumes hon: "honest_token tk" and inv: "sound_world (timestamp e) w"
    and b: "backed tk (contract_address e) w" and s: "lookup_stream w i = Some s"
    and t: "deposited s = vested_amount s (timestamp e) \<or>
      (\<exists>ts. try_transfer tk (token_state w) (token s) (contract_address e) (sender s)
         (deposited s - vested_amount s (timestamp e)) = (TryOk, ts))"
    and pool: "0 \<le> pooled_balance w (token s)"
  shows "\<exists>w'. settle_cancel tk e i s (timestamp e) (vested_amount s (timestamp e))
    (deposited s - vested_amount s (timestamp e)) w = Inr w'"
proof -
  have so: "sound (timestamp e) s" using inv s by (rule sound_worldD(1))
  have nn: "0 \<le> deposited s - vested_amount s (timestamp e)"
    "deposited s - vested_amount s (timestamp e) \<le> i128_max"
    using soundD(5-7) [OF so] by simp_all
  show ?thesis
    using settle_cancel_runs [OF hon b s nn(1) debit_range [OF inv pool nn]] t by auto
qed

text \<open>A sender can always cancel a cancellable live stream.\<close>

lemma cancel_total:
  assumes hon: "honest_token tk" and inv: "sound_world (timestamp e) w"
    and b: "backed tk (contract_address e) w" and live: "\<not> is_halted w"
    and s: "lookup_stream w i = Some s" and auth: "authorized e (sender s)"
    and can: "cancellable s" "\<not> is_terminal (status s)"
    and t: "deposited s = vested_amount s (timestamp e) \<or>
      (\<exists>ts. try_transfer tk (token_state w) (token s) (contract_address e) (sender s)
         (deposited s - vested_amount s (timestamp e)) = (TryOk, ts))"
    and pool: "0 \<le> pooled_balance w (token s)"
  shows "\<exists>w'. cancel tk e i w = Inr ((), w')"
proof -
  have so: "sound (timestamp e) s" using inv s by (rule sound_worldD(1))
  have "sound_world (timestamp e) (extend_stream e i s w)" "backed tk (contract_address e) (extend_stream e i s w)"
    "lookup_stream (extend_stream e i s w) i = Some s"
    "token_state (extend_stream e i s w) = token_state w"
    using inv b s by simp_all
  from settle_cancel_total [OF hon this(1-3)] t this(4) pool obtain w' where
    "settle_cancel tk e i s (timestamp e) (vested_amount s (timestamp e))
      (deposited s - vested_amount s (timestamp e)) (extend_stream e i s w) = Inr w'"
    by auto
  then show ?thesis
    using live auth can
    by (simp add: cancel_def require_not_halted_def load_stream_eq s require_auth_def quote_cancel_ok [OF soundD(1) [OF so]]
        Let_def)
qed

end
