(* ===== verification/Any_Calls.thy ===== *)
theory Any_Calls
  imports Solvency
begin

text \<open>
  The contract under every call it accepts, the delegated top-up of any curve included. What follows
  holds of any run whatever: worlds stay sound, so the pool is the sum of what is owed and every
  reading answers; terminal streams are final; a stream that vests linearly is never touched by what
  happens to another; and with honest tokens, in runs where nobody else draws on the contract's
  balance (\<open>in_custody\<close>), the contract stays backed.
\<close>

section \<open>Every call shifts the ledger\<close>

text \<open>
  The call that is no settlement: it saves a grown stream, which is a free step, and pulls
  the amount.
\<close>

lemma delegate_top_up_shift:
  assumes run: "delegate_top_up tk e i d amount w = Inr (u, w')" and inv: "sound_world (timestamp e) w"
  shows "ledger_shift (timestamp e) (ledger_of w) (ledger_of w')" "control_of w' = control_of w"
    "counters_agree w' = counters_agree w"
proof -
  have "ledger_shift (timestamp e) (ledger_of w) (ledger_of w') \<and> control_of w' = control_of w \<and>
      counters_agree w' = counters_agree w"
    using run inv
  proof (rule delegate_top_up_Inr)
    fix s new_end w2 w3
    let ?g = "grown_stream amount new_end s"
    assume s: "lookup_stream w i = Some s" and step: "free_step (timestamp e) s ?g"
      and save: "save_stream e i ?g (extend_stream e i s w) = Inr w2"
      and pull: "pull_deposit tk e (token s) (sender s) amount w2 = Inr w3"
      and w': "w' = publish (ToppedUpEvent i (sender s) amount (deposited s + amount) new_end (recipient s)) w3"
    note f = save_pull_effect [OF save pull s]
    have o: "owed_by ?g - owed_by s = amount" by (simp add: owed_by_def grown_stream_def)
    have "ledger_of w3 = (ledger_of w)\<lparr>l_streams := (lookup_stream w)(i \<mapsto> ?g),
        l_pool := (pooled_balance w)(token s := pooled_balance w (token s) + amount)\<rparr>"
      using f(1-3) by (simp add: ledger_of_def)
    then show ?thesis
      using shift_act [of "ledger_of w" i s "timestamp e" ?g] s step f(4,5,7) o by (simp add: w')
  qed
  then show "ledger_shift (timestamp e) (ledger_of w) (ledger_of w')" "control_of w' = control_of w"
    "counters_agree w' = counters_agree w"
    by blast+
qed

lemma exec_shifts:
  assumes run: "exec tk fi c e w = Inr w'" and inv: "sound_world (timestamp e) w" and c: "\<not> control_call c"
  shows "(ledger_shift (timestamp e))\<^sup>*\<^sup>* (ledger_of w) (ledger_of w')" "control_of w' = control_of w"
    "counters_agree w'"
proof -
  have "(ledger_shift (timestamp e))\<^sup>*\<^sup>* (ledger_of w) (ledger_of w') \<and> control_of w' = control_of w \<and>
      counters_agree w'"
  proof (cases "keeps_curve c w")
    case True
    have "settles (timestamp e) w w'" using run inv True c by (rule exec_settles)
    then show ?thesis
      using ledger_steps_shift [of "timestamp e" "ledger_of w" "ledger_of w'"] sound_worldD(5,6) [OF inv]
      by (simp add: settles_def)
  next
    case False
    then obtain i d n where "c = Delegate_top_up i d n" by (auto simp: keeps_curve_def split: call.splits)
    then obtain u where "delegate_top_up tk e i d n w = Inr (u, w')" using run by auto
    from delegate_top_up_shift [OF this inv] sound_worldD(5) [OF inv] show ?thesis by blast
  qed
  then show "(ledger_shift (timestamp e))\<^sup>*\<^sup>* (ledger_of w) (ledger_of w')" "control_of w' = control_of w"
    "counters_agree w'"
    by blast+
qed

lemma exec_sound:
  assumes run: "exec tk fi c e w = Inr w'" and inv: "sound_world (timestamp e) w"
  shows "(ledger_shift (timestamp e))\<^sup>*\<^sup>* (ledger_of w) (ledger_of w')" "sound_world (timestamp e) w'"
proof -
  have "(ledger_shift (timestamp e))\<^sup>*\<^sup>* (ledger_of w) (ledger_of w') \<and> sound_world (timestamp e) w'"
  proof (cases "control_call c")
    case True
    then show ?thesis using inv exec_control(1,2) [OF run True] by (simp add: sound_world_def)
  next
    case False
    note sh = exec_shifts [OF run inv False]
    show ?thesis using sh ledger_shifts_sound [OF sh(1) sound_worldD(6) [OF inv]] by (simp add: sound_world_def)
  qed
  then show "(ledger_shift (timestamp e))\<^sup>*\<^sup>* (ledger_of w) (ledger_of w')" "sound_world (timestamp e) w'"
    by blast+
qed

text \<open>The grants are those of one side of a stream that exists, and a halted contract has an operator.\<close>

definition control_ok :: "'t world \<Rightarrow> bool" where
  "control_ok w \<longleftrightarrow> grants_ok w \<and> halt_ok w"

lemma exec_control_ok:
  assumes run: "exec tk fi c e w = Inr w'" and inv: "sound_world (timestamp e) w" and ok: "control_ok w"
  shows "control_ok w'"
proof (cases "control_call c")
  case True
  then show ?thesis
    using ok control_grants [OF run True] control_halt_ok [OF run True] by (simp add: control_ok_def)
next
  case False
  note sh = exec_shifts [OF run inv False]
  have "lookup_stream w' i \<noteq> None" if "lookup_stream w i \<noteq> None" for i
    using ledger_shifts_outlive [OF sh(1) sound_worldD(6) [OF inv], of i] that by auto
  with ok sh(2) show ?thesis
    by (auto simp: control_ok_def grants_ok_def halt_ok_def control_of_def is_halted_def)
qed

section \<open>Runs\<close>

text \<open>
  A step of a run of any calls is any call, successful or rolled back, the passage of time, or a change
  of the tokens that the relation \<open>foreign\<close> allows, for instance one that takes nothing from the
  contract.
\<close>

inductive any_step ::
    "'t token_iface \<Rightarrow> factory_iface \<Rightarrow> address \<Rightarrow> ('t \<Rightarrow> 't \<Rightarrow> bool) \<Rightarrow>
     u64 \<times> 't world \<Rightarrow> u64 \<times> 't world \<Rightarrow> bool"
  for tk :: "'t token_iface" and fi :: factory_iface and ca :: address and foreign :: "'t \<Rightarrow> 't \<Rightarrow> bool" where
  any_call:
    "timestamp e = now \<Longrightarrow> contract_address e = ca \<Longrightarrow>
     any_step tk fi ca foreign (now, w) (now, commit tk fi c e w)"
| any_tick:
    "now \<le> later \<Longrightarrow> any_step tk fi ca foreign (now, w) (later, w)"
| any_tokens:
    "foreign (token_state w) ts \<Longrightarrow> any_step tk fi ca foreign (now, w) (now, w\<lparr>token_state := ts\<rparr>)"

inductive_cases any_stepE: "any_step tk fi ca foreign (now, w) (later, w')"

lemma any_step_cases [consumes 1, case_names invoke tick tokens]:
  assumes "any_step tk fi ca foreign (now, w) (later, w')"
  obtains (invoke) e c where "timestamp e = now" "later = now" "contract_address e = ca"
      "w' = commit tk fi c e w"
  | (tick) "now \<le> later" "w' = w"
  | (tokens) ts where "later = now" "w' = w\<lparr>token_state := ts\<rparr>" "foreign (token_state w) ts"
  using assms by (elim any_stepE) (blast intro: that)+

definition takes_nothing :: "'t token_iface \<Rightarrow> address \<Rightarrow> 't \<Rightarrow> 't \<Rightarrow> bool" where
  "takes_nothing tk ca ts ts' \<longleftrightarrow> (\<forall>tkn. held tk ts tkn ca \<le> held tk ts' tkn ca)"

definition any_run ::
    "'t token_iface \<Rightarrow> factory_iface \<Rightarrow> address \<Rightarrow> ('t \<Rightarrow> 't \<Rightarrow> bool) \<Rightarrow>
     u64 \<times> 't world \<Rightarrow> u64 \<times> 't world \<Rightarrow> bool" where
  "any_run tk fi ca foreign = (any_step tk fi ca foreign)\<^sup>*\<^sup>*"

text \<open>What a contract deployed on the token state \<open>ts\<close> can reach.\<close>

definition any_reachable ::
    "'t token_iface \<Rightarrow> factory_iface \<Rightarrow> address \<Rightarrow> ('t \<Rightarrow> 't \<Rightarrow> bool) \<Rightarrow> 't \<Rightarrow> u64 \<Rightarrow> 't world \<Rightarrow> bool" where
  "any_reachable tk fi ca foreign ts now w \<longleftrightarrow>
     (\<exists>deployed_at. any_run tk fi ca foreign (deployed_at, fresh_world ts) (now, w))"

lemma token_state_ledger: "ledger_of (w\<lparr>token_state := ts\<rparr>) = ledger_of w"
    "counters_agree (w\<lparr>token_state := ts\<rparr>) = counters_agree w"
  using view_token_state [of ts w] by (simp_all add: view_def ledger_of_def counters_agree_def)

text \<open>What holds across each step holds across a run, on sound worlds throughout.\<close>

lemma any_run_induct [consumes 2, case_names refl call tick tokens]:
  assumes run: "any_run tk fi ca foreign (now, w) (later, w')" and inv: "sound_world now w"
    and refl: "P now w"
    and call: "\<And>e c v v'. any_run tk fi ca foreign (now, w) (timestamp e, v) \<Longrightarrow> now \<le> timestamp e \<Longrightarrow>
      sound_world (timestamp e) v \<Longrightarrow> P (timestamp e) v \<Longrightarrow> contract_address e = ca \<Longrightarrow>
      exec tk fi c e v = Inr v' \<Longrightarrow> P (timestamp e) v'"
    and tick: "\<And>t t' v. now \<le> t \<Longrightarrow> sound_world t v \<Longrightarrow> P t v \<Longrightarrow> t \<le> t' \<Longrightarrow> P t' v"
    and tokens: "\<And>t v ts. now \<le> t \<Longrightarrow> sound_world t v \<Longrightarrow> P t v \<Longrightarrow> foreign (token_state v) ts \<Longrightarrow>
      P t (v\<lparr>token_state := ts\<rparr>)"
  shows "P later w'"
proof -
  have "P later w' \<and> sound_world later w' \<and> now \<le> later"
    using run [unfolded any_run_def]
  proof (induction "(later, w')" arbitrary: later w' rule: rtranclp_induct)
    case base
    with inv refl show ?case by simp
  next
    case (step b)
    obtain t v where b: "b = (t, v)" by (cases b)
    note IH = step.hyps(3) [OF b]
    have rv: "any_run tk fi ca foreign (now, w) (t, v)" using step.hyps(1) by (simp add: any_run_def b)
    from step.hyps(2) [unfolded b] show ?case
    proof (cases rule: any_step_cases)
      case s: (invoke e c)
      show ?thesis
      proof (cases "exec tk fi c e v")
        case (Inl f)
        with IH s show ?thesis by (simp add: commit_def)
      next
        case (Inr v')
        with IH s rv show ?thesis using call [of e v c v'] exec_sound(2) [OF Inr] by (simp add: commit_def)
      qed
    next
      case s: tick
      have "sound_world later v"
        using IH sound_world_later [OF _ s(1)] by blast
      with IH s show ?thesis using tick by (auto intro: order_trans)
    next
      case s: (tokens ts)
      with IH show ?thesis using tokens by (simp add: sound_world_def token_state_ledger)
    qed
  qed
  then show ?thesis by blast
qed

lemma any_run_sound:
  assumes "any_run tk fi ca foreign (now, w) (later, w')" "sound_world now w"
  shows "sound_world later w' \<and> now \<le> later \<and>
    (\<forall>i s. lookup_stream w i = Some s \<longrightarrow>
       (\<exists>s'. lookup_stream w' i = Some s' \<and> outlives now s later s'))"
  using assms
proof (induction rule: any_run_induct)
  case refl
  with assms(2) outlives_refl show ?case by auto
next
  case (call e c v v')
  note es = exec_sound(1,2) [OF call.hyps(5,3)]
  have "\<exists>s'. lookup_stream v' i = Some s' \<and> outlives (timestamp e) s (timestamp e) s'"
    if "lookup_stream v i = Some s" for i s
    using ledger_shifts_outlive [OF es(1) sound_worldD(6) [OF call.hyps(3)], of i s] that by simp
  with call.hyps(2) call.IH es(2) show ?case by (meson outlives_trans)
next
  case (tick t t' v)
  have "sound_world t' v"
    using tick.hyps(2,3) by (rule sound_world_later)
  with tick show ?case using outlives_tick [OF tick.hyps(3)] by (meson outlives_trans order_trans)
next
  case (tokens t v ts)
  moreover have "lookup_stream (v\<lparr>token_state := ts\<rparr>) = lookup_stream v"
    using token_state_ledger(1) [of ts v] by (simp add: ledger_of_def)
  ultimately show ?case by (simp add: sound_world_def token_state_ledger)
qed

lemma any_run_control_ok:
  assumes "any_run tk fi ca foreign (now, w) (later, w')" "sound_world now w" "control_ok w"
  shows "control_ok w'"
  using assms(1,2)
proof (induction rule: any_run_induct)
  case (call e c v v')
  show ?case using call.hyps(5,3) call.IH by (rule exec_control_ok)
next
  case (tokens t v ts)
  moreover have "lookup_stream (v\<lparr>token_state := ts\<rparr>) = lookup_stream v"
    using token_state_ledger(1) [of ts v] by (simp add: ledger_of_def)
  ultimately show ?case by (simp add: control_ok_def grants_ok_def halt_ok_def is_halted_def)
qed (use assms(3) in simp_all)

lemma fresh_pool: "pooled_balance (fresh_world ts) = (\<lambda>_. 0)"
  by (simp add: fresh_world_def view_defs fun_eq_iff)

lemma fresh_world_sound: "sound_world now (fresh_world ts)"
proof -
  note d = world_invD [OF world_inv_fresh [of now ts]]
  have "in_i128 (pooled_balance (fresh_world ts) tkn)" for tkn
    by (simp add: fresh_pool in_i128_def i128_min_def i128_max_def)
  with d(1-3,5) wf_sound show ?thesis
    unfolding sound_world_def sound_ledger_def ledger_of_simps by blast
qed

lemma any_reachable_sound: "any_reachable tk fi ca foreign ts now w \<Longrightarrow> sound_world now w"
  unfolding any_reachable_def by (elim exE) (rule any_run_sound [THEN conjunct1, OF _ fresh_world_sound])

text \<open>What a deployed contract starts with and any run keeps, every world it reaches has.\<close>

lemma any_reachable_control_ok:
  assumes "any_reachable tk fi ca foreign ts now w"
  shows "control_ok w"
proof -
  have "control_ok (fresh_world ts)"
    by (simp add: control_ok_def grants_ok_def halt_ok_def is_halted_def fresh_world_def)
  then show ?thesis
    using any_run_control_ok [OF _ fresh_world_sound] assms by (auto simp: any_reachable_def)
qed

text \<open>With an honest token, and nobody else taking from the contract, it stays backed.\<close>

lemma any_run_backed:
  assumes hon: "honest_token tk" and run: "any_run tk fi ca (takes_nothing tk ca) (now, w) (later, w')"
    and inv: "sound_world now w" and b: "backed tk ca w"
  shows "backed tk ca w'"
  using run inv
proof (induction rule: any_run_induct)
  case (call e c v v')
  from exec_backed [OF hon call.hyps(3) _ call.hyps(5)] call.IH call.hyps(4) show ?case by simp
next
  case (tokens t v ts)
  have "pooled_balance (v\<lparr>token_state := ts\<rparr>) = pooled_balance v"
    using token_state_ledger(1) [of ts v] by (simp add: ledger_of_def)
  then show ?case using tokens.IH tokens.hyps(3) by (auto simp: backed_def takes_nothing_def intro: order_trans)
qed (use b in simp_all)

lemma any_reachable_backed:
  assumes "honest_token tk" "\<forall>tkn. 0 \<le> held tk ts tkn ca"
    and "any_reachable tk fi ca (takes_nothing tk ca) ts now w"
  shows "backed tk ca w"
proof -
  have "backed tk ca (fresh_world ts)" using assms(2) by (simp add: backed_def fresh_pool) (simp add: fresh_world_def)
  then show ?thesis
    using any_run_backed [OF assms(1) _ fresh_world_sound] assms(3) by (auto simp: any_reachable_def)
qed

section \<open>Custody\<close>

text \<open>
  A contract in custody: nobody but itself took tokens from it since it was deployed. Foreign
  transfers may only leave its balances as they are or raise them.
\<close>

definition in_custody ::
    "'t token_iface \<Rightarrow> factory_iface \<Rightarrow> address \<Rightarrow> u64 \<Rightarrow> 't world \<Rightarrow> bool" where
  "in_custody tk fi ca now w \<longleftrightarrow>
     (\<exists>ts. (\<forall>tkn. 0 \<le> held tk ts tkn ca) \<and> any_reachable tk fi ca (takes_nothing tk ca) ts now w)"

lemma in_custody_inv:
  assumes "honest_token tk" "in_custody tk fi ca now w"
  shows "sound_world now w" "backed tk ca w"
proof -
  obtain ts where ts: "\<forall>tkn. 0 \<le> held tk ts tkn ca" "any_reachable tk fi ca (takes_nothing tk ca) ts now w"
    using assms(2) by (auto simp: in_custody_def)
  show "sound_world now w" using ts(2) by (rule any_reachable_sound)
  show "backed tk ca w" using assms(1) ts by (rule any_reachable_backed)
qed

section \<open>Building runs\<close>

lemma any_run_call:
  "timestamp e = now \<Longrightarrow> contract_address e = ca \<Longrightarrow>
   any_run tk fi ca foreign (now, w) (now, commit tk fi c e w)"
  unfolding any_run_def by (rule r_into_rtranclp, rule any_call)

lemma any_run_tick: "now \<le> later \<Longrightarrow> any_run tk fi ca foreign (now, w) (later, w)"
  unfolding any_run_def by (rule r_into_rtranclp, rule any_tick)

lemma any_reachable_run:
  "any_reachable tk fi ca foreign ts now w \<Longrightarrow> any_run tk fi ca foreign (now, w) (later, w') \<Longrightarrow>
   any_reachable tk fi ca foreign ts later w'"
  unfolding any_reachable_def any_run_def by (meson rtranclp_trans)

lemma any_reachable_deploy: "any_reachable tk fi ca foreign ts now (fresh_world ts)"
  unfolding any_reachable_def any_run_def by blast

lemma any_reachable_later:
  "any_reachable tk fi ca foreign ts now w \<Longrightarrow> now \<le> later \<Longrightarrow> any_reachable tk fi ca foreign ts later w"
  by (rule any_reachable_run [OF _ any_run_tick])

lemma any_reachable_commit:
  "any_reachable tk fi ca foreign ts now w \<Longrightarrow> now \<le> timestamp e \<Longrightarrow> contract_address e = ca \<Longrightarrow>
   any_reachable tk fi ca foreign ts (timestamp e) (commit tk fi c e w)"
  by (rule any_reachable_run [OF any_reachable_later any_run_call]) simp_all

lemma any_reachable_call:
  "any_reachable tk fi ca foreign ts now w \<Longrightarrow> now \<le> timestamp e \<Longrightarrow> contract_address e = ca \<Longrightarrow>
   exec tk fi c e w = Inr w' \<Longrightarrow> any_reachable tk fi ca foreign ts (timestamp e) w'"
  using any_reachable_commit [of tk fi ca foreign ts now w e c] by (simp add: commit_def)

end
