(* ===== verification/Scenario.thy ===== *)
theory Scenario
  imports Progress Any_Calls
begin

text \<open>
  One concrete deployment, evaluated by the definitions: a sender funds streams in a
  book-keeping token, and the witnesses of the properties are read off the worlds it goes
  through.
\<close>

definition alice :: address where "alice = Address 1"
definition bob :: address where "bob = Address 2"
definition carol :: address where "carol = Address 3"
definition streams_at :: address where "streams_at = Address 4"
definition coin :: address where "coin = Address 5"

lemmas parties = alice_def bob_def carol_def streams_at_def coin_def

definition no_factories :: factory_iface where
  "no_factories = deployed_factories (\<lambda>_. None)"

text \<open>Everybody signs; the ledger closes at the given time.\<close>

definition env_at :: "u64 \<Rightarrow> env" where
  "env_at now = \<lparr>timestamp = now, sequence = 10, max_ttl = 100000, authorized = (\<lambda>_. True),
                 contract_address = streams_at\<rparr>"

definition purse :: "address \<Rightarrow> address \<Rightarrow> int" where
  "purse tkn a = (if tkn = coin \<and> a = alice then 10000 else 0)"

definition world0 :: "(address \<Rightarrow> address \<Rightarrow> int) world" where
  "world0 = fresh_world purse"

definition open_linear :: call where
  "open_linear = Create_stream alice bob coin 400 1000 1400 1000 True True True None"

definition open_step :: call where
  "open_step = Create_stream_with_curve alice bob coin 400 1000 1400 1000 True True True Step"

definition world1 :: "(address \<Rightarrow> address \<Rightarrow> int) world" where
  "world1 = commit book_token no_factories open_linear (env_at 1000) world0"

definition world2 :: "(address \<Rightarrow> address \<Rightarrow> int) world" where
  "world2 = commit book_token no_factories open_step (env_at 1000) world1"

definition linear_stream :: stream where
  "linear_stream = opened_stream alice bob coin 400 1000 1400 1000 Schedule True True True None Linear"

definition step_stream :: stream where
  "step_stream = opened_stream alice bob coin 400 1000 1400 1000 Schedule True True True None Step"

lemmas worlds = world1_def world2_def open_linear_def open_step_def

lemma env_at_simps [simp]:
  "timestamp (env_at t) = t" "authorized (env_at t) a" "contract_address (env_at t) = streams_at"
  by (simp_all add: env_at_def)

lemma book_transfer_ok:
  "0 \<le> n \<Longrightarrow> n \<le> bal tkn a \<Longrightarrow> \<exists>ts. try_transfer book_token bal tkn a b n = (TryOk, ts)"
  by (simp add: book_token_def Let_def)

lemma parties_distinct [simp]:
  "alice \<noteq> bob" "alice \<noteq> streams_at" "bob \<noteq> streams_at" "bob \<noteq> alice" "carol \<noteq> alice"
  "streams_at \<noteq> bob" "streams_at \<noteq> alice" "carol \<noteq> bob"
  by (simp_all add: parties)

lemma valid_400: "valid_request alice bob 400 1000 1400 1000 None"
  by (simp add: valid_request_def in_i128_def i128_min_def i128_max_def)

lemma world0_facts:
  "world_inv t world0" "backed book_token streams_at world0"
  "lookup_stream world0 = Map.empty" "pooled_balance world0 = (\<lambda>_. 0)" "next_id world0 = 0"
  "\<not> is_halted world0" "token_state world0 = purse" "delegate_entries world0 = Map.empty"
proof -
  show "world_inv t world0" unfolding world0_def by (rule world_inv_fresh)
  show p: "pooled_balance world0 = (\<lambda>_. 0)" and "lookup_stream world0 = Map.empty" "next_id world0 = 0"
    "\<not> is_halted world0" and ts: "token_state world0 = purse" and "delegate_entries world0 = Map.empty"
    by (simp_all add: world0_def fresh_world_def view_defs is_halted_def fun_eq_iff)
  show "backed book_token streams_at world0"
    by (simp add: backed_def p ts held_def book_token_def purse_def)
qed

text \<open>The first stream: 400 coins over 400 seconds, linear.\<close>

lemma world1_created:
  "create_stream book_token (env_at 1000) alice bob coin 400 1000 1400 1000 True True True None world0 =
     Inr (0, world1)"
proof -
  let ?e = "env_at 1000"
  obtain ts where "try_transfer book_token (token_state world0) coin alice (contract_address ?e) 400 = (TryOk, ts)"
    using book_transfer_ok [of 400 purse coin alice streams_at] by (auto simp: world0_facts purse_def)
  then obtain w' where run: "create_stream_inner book_token ?e alice bob coin 400 1000 1400 1000
      DEFAULT_cliff_mode True True True None Linear world0 = Inr (next_id world0, w')"
    using create_inner_total [OF book_token_honest valid_400, where e = ?e and tkn = coin and w = world0
      and ts = ts and m = DEFAULT_cliff_mode and cc = True and cp = True and ct = True and crv = Linear]
    by (auto simp: world0_facts u64_max_def in_i128_def i128_min_def i128_max_def)
  then have c: "create_stream book_token ?e alice bob coin 400 1000 1400 1000 True True True None world0 =
      Inr (next_id world0, w')"
    by (simp add: create_stream_def world0_facts)
  then have "world1 = w'" by (simp add: worlds commit_def world_after_def del: create_gate)
  with c show ?thesis by (simp add: world0_facts)
qed

lemma world1_facts:
  "world_inv 1000 world1" "backed book_token streams_at world1"
  "lookup_stream world1 = [0 \<mapsto> linear_stream]" "pooled_balance world1 = (\<lambda>_. 0)(coin := 400)"
  "next_id world1 = 1" "\<not> is_halted world1" "control_of world1 = control_of world0"
proof -
  have run: "create_stream_inner book_token (env_at 1000) alice bob coin 400 1000 1400 1000
      DEFAULT_cliff_mode True True True None Linear world0 = Inr (0, world1)"
    using world1_created by (simp add: create_stream_def)
  have inv: "world_inv (timestamp (env_at 1000)) world0" by (rule world0_facts)
  note eff = create_stream_inner_effect [OF world_sound [OF inv] run]
  show "world_inv 1000 world1" using settles_inv [OF eff(9) inv] by simp
  show "backed book_token streams_at world1"
    using create_inner_backed [OF book_token_honest world_sound [OF inv] _ run] world0_facts(2) by simp
  show "lookup_stream world1 = [0 \<mapsto> linear_stream]" "pooled_balance world1 = (\<lambda>_. 0)(coin := 400)"
    "next_id world1 = 1" and c: "control_of world1 = control_of world0"
    using eff(3-7) by (simp_all add: world0_facts linear_stream_def DEFAULT_cliff_mode_def)
  show "\<not> is_halted world1" using c world0_facts(6) by (simp add: control_of_def is_halted_def)
qed

text \<open>The second one: the same terms on the step curve.\<close>

lemma book_transfer_moves:
  "try_transfer book_token bal tkn a b n = (TryOk, ts) \<Longrightarrow> a \<noteq> b \<Longrightarrow>
     ts tkn a = bal tkn a - n \<and> ts tkn b = bal tkn b + n \<and> n \<le> bal tkn a"
  by (auto simp: book_token_def Let_def split: if_splits)

lemma world1_purse: "token_state world1 coin alice = 9600"
proof -
  have "try_transfer book_token (token_state world0) coin alice streams_at 400 = (TryOk, token_state world1)"
    using create_stream_inner_token [OF world_sound [OF world0_facts(1)], of book_token "env_at 1000" alice bob coin 400
      1000 1400 1000] world1_created by (auto simp: create_stream_def)
  from book_transfer_moves [OF this] show ?thesis by (simp add: world0_facts purse_def)
qed

lemma world2_created:
  "create_stream_with_curve book_token (env_at 1000) alice bob coin 400 1000 1400 1000 True True True Step world1 =
     Inr (1, world2)"
proof -
  let ?e = "env_at 1000"
  obtain ts where "try_transfer book_token (token_state world1) coin alice (contract_address ?e) 400 = (TryOk, ts)"
    using book_transfer_ok [of 400 "token_state world1" coin alice streams_at] by (auto simp: world1_purse)
  then obtain w' where run: "create_stream_inner book_token ?e alice bob coin 400 1000 1400 1000
      DEFAULT_cliff_mode True True True None Step world1 = Inr (next_id world1, w')"
    using create_inner_total [OF book_token_honest valid_400, where e = ?e and tkn = coin and w = world1
      and ts = ts and m = DEFAULT_cliff_mode and cc = True and cp = True and ct = True and crv = Step] world1_facts
    by (auto simp: u64_max_def in_i128_def i128_min_def i128_max_def)
  then have c: "create_stream_with_curve book_token ?e alice bob coin 400 1000 1400 1000 True True True Step world1 =
      Inr (next_id world1, w')"
    by (simp add: create_stream_with_curve_def world1_facts)
  then have "world2 = w'" by (simp add: world2_def open_step_def commit_def world_after_def del: create_gate)
  with c show ?thesis by (simp add: world1_facts)
qed

lemma world2_facts:
  "world_inv 1000 world2" "backed book_token streams_at world2"
  "lookup_stream world2 = [0 \<mapsto> linear_stream, 1 \<mapsto> step_stream]"
  "pooled_balance world2 = (\<lambda>_. 0)(coin := 800)"
  "next_id world2 = 2" "\<not> is_halted world2" "control_of world2 = control_of world0"
proof -
  have run: "create_stream_inner book_token (env_at 1000) alice bob coin 400 1000 1400 1000
      DEFAULT_cliff_mode True True True None Step world1 = Inr (1, world2)"
    using world2_created by simp
  have inv: "world_inv (timestamp (env_at 1000)) world1" using world1_facts(1) by simp
  note eff = create_stream_inner_effect [OF world_sound [OF inv] run]
  show "world_inv 1000 world2" using settles_inv [OF eff(9) inv] by simp
  show "backed book_token streams_at world2"
    using create_inner_backed [OF book_token_honest world_sound [OF inv] _ run] world1_facts(2) by simp
  show "lookup_stream world2 = [0 \<mapsto> linear_stream, 1 \<mapsto> step_stream]"
    "pooled_balance world2 = (\<lambda>_. 0)(coin := 800)" "next_id world2 = 2"
    and c: "control_of world2 = control_of world0"
    using eff(3-7) by (simp_all add: world1_facts step_stream_def DEFAULT_cliff_mode_def)
  show "\<not> is_halted world2" using c world0_facts(6) by (simp add: control_of_def is_halted_def)
qed

lemma world2_purse: "token_state world2 coin alice = 9200"
proof -
  have "try_transfer book_token (token_state world1) coin alice streams_at 400 = (TryOk, token_state world2)"
    using create_stream_inner_token [OF world_sound [OF world1_facts(1)], of book_token "env_at 1000" alice bob coin 400
      1000 1400 1000] world2_created by auto
  from book_transfer_moves [OF this] show ?thesis by (simp add: world1_purse)
qed

lemma system_reaches:
  "system_reachable book_token no_factories 1000 world1" "system_reachable book_token no_factories 1000 world2"
  "system_reachable book_token no_factories 1000 world0"
proof -
  have s1: "system_step book_token no_factories (1000, world0) (1000, world1)"
    unfolding world1_def by (rule system_call) (simp_all add: open_linear_def keeps_curve_def)
  have s2: "system_step book_token no_factories (1000, world1) (1000, world2)"
    unfolding world2_def by (rule system_call) (simp_all add: open_step_def keeps_curve_def)
  show "system_reachable book_token no_factories 1000 world1"
    unfolding system_reachable_def system_run_def using s1 [unfolded world0_def] by blast
  show "system_reachable book_token no_factories 1000 world2"
    unfolding system_reachable_def system_run_def using s1 [unfolded world0_def] s2
    by (meson r_into_rtranclp rtranclp_trans)
  show "system_reachable book_token no_factories 1000 world0"
    unfolding system_reachable_def system_run_def world0_def by blast
qed

lemma scenario_readings:
  "vested linear_stream 1100 = Inr 100" "vested step_stream 1100 = Inr 100"
  "vested_amount linear_stream 1100 = 100" "vested_amount step_stream 1100 = 100"
  "vested_amount linear_stream 1000 = 0" "vested_amount step_stream 1000 = 0"
proof -
  have "vested linear_stream 1100 = Inr 100" "vested step_stream 1100 = Inr 100"
    "vested linear_stream 1000 = Inr 0" "vested step_stream 1000 = Inr 0"
    by (simp_all add: linear_stream_def step_stream_def opened_stream_def vested_def cliff_reached_def
        stream_time_def duration_def elapsed_def saturating_sub_u64_def vested_linear_def vested_step_def
        released_tranches_def div_ceil_def curve_shape_def Let_def checked_mul_i128_def
        checked_div_i128_def in_i128_def i128_min_def i128_max_def sdiv_nonneg smod_nonneg)
  then show "vested linear_stream 1100 = Inr 100" "vested step_stream 1100 = Inr 100"
    "vested_amount linear_stream 1100 = 100" "vested_amount step_stream 1100 = 100"
    "vested_amount linear_stream 1000 = 0" "vested_amount step_stream 1000 = 0"
    by (simp_all add: vested_amount_def)
qed

lemma keeps_curve_open: "keeps_curve open_step w" "keeps_curve open_linear w"
  by (simp_all add: open_step_def open_linear_def keeps_curve_def)

text \<open>These worlds are reached whatever happens to the tokens elsewhere, so in custody.\<close>

lemma any_reaches:
  "any_reachable book_token no_factories streams_at foreign purse 1000 world0"
  "any_reachable book_token no_factories streams_at foreign purse 1000 world1"
  "any_reachable book_token no_factories streams_at foreign purse 1000 world2"
  "any_reachable book_token no_factories streams_at foreign purse 1100 world1"
proof -
  show w0: "any_reachable book_token no_factories streams_at foreign purse 1000 world0"
    unfolding world0_def by (rule any_reachable_deploy)
  from any_reachable_commit [OF this, of "env_at 1000" open_linear]
  show w1: "any_reachable book_token no_factories streams_at foreign purse 1000 world1" by (simp add: world1_def)
  from any_reachable_commit [OF this, of "env_at 1000" open_step]
  show "any_reachable book_token no_factories streams_at foreign purse 1000 world2" by (simp add: world2_def)
  show "any_reachable book_token no_factories streams_at foreign purse 1100 world1"
    using w1 by (rule any_reachable_later) simp
qed

lemma purse_custody:
  "any_reachable book_token no_factories streams_at (takes_nothing book_token streams_at) purse now w \<Longrightarrow>
   in_custody book_token no_factories streams_at now w"
  unfolding in_custody_def by (intro exI [of _ purse]) (simp add: held_def book_token_def purse_def)

lemmas custody_reaches = any_reaches [THEN purse_custody]

lemma book_holds:
  assumes "backed book_token streams_at w" "0 \<le> n" "n \<le> pooled_balance w tkn"
  shows "\<exists>ts. try_transfer book_token (token_state w) tkn streams_at b n = (TryOk, ts)"
  using assms by (intro book_transfer_ok) (auto simp: backed_def held_def book_token_def intro: order_trans)

text \<open>A quarter of the way, the recipient of the first stream collects.\<close>

definition world3 :: "(address \<Rightarrow> address \<Rightarrow> int) world" where
  "world3 = commit book_token no_factories (Withdraw 0 None) (env_at 1100) world1"

lemma world3_withdrawn: "withdraw book_token (env_at 1100) 0 None world1 = Inr (100, world3)"
proof -
  let ?e = "env_at 1100"
  have inv: "sound_world (timestamp ?e) world1" using world_inv_later [OF world1_facts(1)] by (simp add: world_sound)
  have s: "lookup_stream world1 0 = Some linear_stream" by (simp add: world1_facts)
  have f: "withdrawn linear_stream = 0" "token linear_stream = coin" "recipient linear_stream = bob"
    by (simp_all add: linear_stream_def opened_stream_def)
  obtain ts where t: "try_transfer book_token (token_state world1) coin streams_at bob 100 = (TryOk, ts)"
    using book_holds [OF world1_facts(2), of 100 coin bob] by (auto simp: world1_facts)
  have "\<exists>w'. withdraw book_token ?e 0 None world1 = Inr (100, w')"
    by (rule withdraw_total [OF book_token_honest inv _ world1_facts(6) s, of 100 None ts])
      (use world1_facts(2,4) t f scenario_readings in simp_all)
  then show ?thesis by (auto simp: world3_def commit_def world_after_def)
qed

text \<open>Or the sender cancels at that time.\<close>

definition world4 :: "(address \<Rightarrow> address \<Rightarrow> int) world" where
  "world4 = commit book_token no_factories (Cancel 0) (env_at 1100) world1"

lemma world4_cancelled: "cancel book_token (env_at 1100) 0 world1 = Inr ((), world4)"
proof -
  let ?e = "env_at 1100"
  have inv: "sound_world (timestamp ?e) world1" using world_inv_later [OF world1_facts(1)] by (simp add: world_sound)
  have s: "lookup_stream world1 0 = Some linear_stream" by (simp add: world1_facts)
  have f: "deposited linear_stream = 400" "token linear_stream = coin" "sender linear_stream = alice"
    "cancellable linear_stream" "status linear_stream = Active"
    by (simp_all add: linear_stream_def opened_stream_def)
  have "\<exists>ts. try_transfer book_token (token_state world1) coin streams_at alice 300 = (TryOk, ts)"
    using book_holds [OF world1_facts(2), of 300 coin alice] by (simp add: world1_facts)
  then have "\<exists>w'. cancel book_token ?e 0 world1 = Inr ((), w')"
    using cancel_total [OF book_token_honest inv _ world1_facts(6) s] world1_facts(2,4) f scenario_readings by simp
  then show ?thesis by (auto simp: world4_def commit_def world_after_def)
qed

lemma world4_facts:
  "lookup_stream world4 0 = Some (cancelled_stream 1100 linear_stream)"
  "backed book_token streams_at world4" "\<not> is_halted world4" "pooled_balance world4 coin = 100"
proof -
  let ?e = "env_at 1100"
  have inv: "sound_world (timestamp ?e) world1" using world_inv_later [OF world1_facts(1)] by (simp add: world_sound)
  have "lookup_stream world4 0 = Some (cancelled_stream 1100 linear_stream) \<and> pooled_balance world4 coin = 100"
    using world4_cancelled inv
  proof (rule cancel_Inr)
    fix s
    assume s: "lookup_stream world1 0 = Some s"
      and q: "quote_cancel s (timestamp ?e) =
        Inr (vested_amount s (timestamp ?e), deposited s - vested_amount s (timestamp ?e))"
      and run: "settle_cancel book_token ?e 0 s (timestamp ?e) (vested_amount s (timestamp ?e))
        (deposited s - vested_amount s (timestamp ?e)) (extend_stream ?e 0 s world1) = Inr world4"
    have "s = linear_stream" using s by (simp add: world1_facts)
    moreover have "token linear_stream = coin" "deposited linear_stream = 400"
      by (simp_all add: linear_stream_def opened_stream_def)
    ultimately show ?thesis
      using settle_cancel_effect(4,5) [OF _ _ q run] s inv by (simp add: world1_facts scenario_readings)
  qed
  then show "lookup_stream world4 0 = Some (cancelled_stream 1100 linear_stream)"
    "pooled_balance world4 coin = 100" by simp_all
  show "backed book_token streams_at world4"
    using cancel_backed [OF book_token_honest inv _ world4_cancelled] world1_facts(2) by simp
  show "\<not> is_halted world4" using cancel.stays_live [OF inv world4_cancelled] .
qed

lemmas world4_stream = world4_facts(1)

lemma any_reaches_later:
  "any_reachable book_token no_factories streams_at foreign purse 1100 world3"
  "any_reachable book_token no_factories streams_at foreign purse 1100 world4"
  using any_reachable_commit [OF any_reaches(2), of "env_at 1100"] by (simp_all add: world3_def world4_def)

lemmas custody_reaches_later = any_reaches_later [THEN purse_custody]

lemma linear_stream_terms:
  "sender linear_stream = alice" "recipient linear_stream = bob" "token linear_stream = coin"
  "deposited linear_stream = 400" "withdrawn linear_stream = 0" "status linear_stream = Active"
  "cancellable linear_stream" "pausable linear_stream" "transferable linear_stream"
  "curve linear_stream = Linear" "duration linear_stream = 400" "end_time linear_stream = 1400"
  "start_time linear_stream = 1000" "paused_at linear_stream = None" "cliff_mode linear_stream = Schedule"
  "paused_total linear_stream = 0" "stream_time linear_stream t = t"
  by (simp_all add: linear_stream_def opened_stream_def duration_def saturating_sub_u64_def stream_time_def)

text \<open>A top-up of the first stream goes through.\<close>

lemma tops_up: "\<exists>w'. top_up book_token (env_at 1100) 0 200 world1 = Inr ((), w')"
proof -
  let ?e = "env_at 1100" and ?s = linear_stream and ?g = "grown_stream 200 1600 linear_stream"
  have inv: "sound_world (timestamp ?e) world1" using world_inv_later [OF world1_facts(1)] by (simp add: world_sound)
  have s: "lookup_stream world1 0 = Some ?s" by (simp add: world1_facts)
  let ?w = "extend_stream ?e 0 ?s world1"
  obtain ts where "try_transfer book_token (token_state ?w) coin alice (contract_address ?e) 200 = (TryOk, ts)"
    using book_transfer_ok [of 200 "token_state world1" coin alice streams_at] by (auto simp: world1_purse)
  then obtain w2 where pull: "pull_deposit book_token ?e coin alice 200 ?w = Inr w2"
    using pull_deposit_total [OF book_token_honest, of alice ?e ?w coin 200] world1_facts
    by (auto simp: in_i128_def i128_min_def i128_max_def)
  have "backed book_token streams_at ?w" using world1_facts(2) by simp
  with pull_deposit_backed [OF book_token_honest _ pull] have b: "backed book_token streams_at w2" by simp
  have ver: "verify_pool_balance book_token ?e coin w2 = Inr ()"
    using b by (intro verify_total [OF book_token_honest]) simp
  have "lookup_stream w2 0 \<noteq> None" using pull_deposit_fields(5) [OF pull] s by simp
  then obtain w3 where save: "save_stream ?e 0 ?g w2 = Inr w3" using save_stream_existing by blast
  have v: "vested ?s 1100 = Inr 100" "vested ?g 1100 = Inr 100"
    by (simp_all add: scenario_readings)
      (simp add: linear_stream_def grown_stream_def opened_stream_def vested_def cliff_reached_def
        stream_time_def duration_def elapsed_def saturating_sub_u64_def vested_linear_def
        checked_mul_i128_def checked_div_i128_def in_i128_def i128_min_def i128_max_def curve_shape_def Let_def)
  have "top_up book_token ?e 0 200 world1 =
      Inr ((), publish (ToppedUpEvent 0 alice 200 600 1600 bob) w3)"
    using world1_facts(6) pull ver save v
    by (simp add: top_up_def require_not_halted_def load_stream_eq s require_auth_def linear_stream_terms
        top_up_duration_delta_def checked_mul_i128_def checked_div_i128_def checked_add_i128_def
        checked_add_u64_def checked_sub_u64_def in_i128_def i128_min_def i128_max_def u64_max_def
        grown_stream_def emit_topped_up_def Let_def
        del: verify_pool_balance_Inr emit_topped_up_Inr)
  then show ?thesis by blast
qed

text \<open>The sender pauses the first stream, and resumes it later.\<close>

definition world5 :: "(address \<Rightarrow> address \<Rightarrow> int) world" where
  "world5 = commit book_token no_factories (Pause 0) (env_at 1100) world1"

definition world6 :: "(address \<Rightarrow> address \<Rightarrow> int) world" where
  "world6 = commit book_token no_factories (Resume 0) (env_at 1300) world5"

lemma world5_paused:
  "pause (env_at 1100) 0 world1 = Inr ((), world5)" "world_inv 1100 world5" "\<not> is_halted world5"
  "lookup_stream world5 0 = Some (paused_stream 1100 linear_stream)"
proof -
  let ?e = "env_at 1100"
  have inv: "sound_world (timestamp ?e) world1" using world_inv_later [OF world1_facts(1)] by (simp add: world_sound)
  have s: "lookup_stream world1 0 = Some linear_stream" by (simp add: world1_facts)
  have "\<exists>w'. save_stream ?e 0 (paused_stream 1100 linear_stream) (extend_stream ?e 0 linear_stream world1) = Inr w'"
    by (rule save_stream_existing) (simp add: s)
  then have "\<exists>w'. pause ?e 0 world1 = Inr ((), w')"
    using pause_eq [OF inv s world1_facts(6)] by (auto simp: linear_stream_terms)
  then show run: "pause (env_at 1100) 0 world1 = Inr ((), world5)"
    by (auto simp: world5_def commit_def world_after_def)
  show "\<not> is_halted world5" using pause.stays_live [OF inv run] .
  have "settles (timestamp ?e) world1 world5 \<and>
      lookup_stream world5 = (lookup_stream world1)(0 \<mapsto> paused_stream (timestamp ?e) linear_stream)"
    using run inv by (rule pause_Inr) (use s in simp)
  then show "world_inv 1100 world5" "lookup_stream world5 0 = Some (paused_stream 1100 linear_stream)"
    using settles_inv [of 1100 world1 world5] world_inv_later [OF world1_facts(1), of 1100] by simp_all
qed

lemma world6_resumed: "resume (env_at 1300) 0 world5 = Inr ((), world6)"
proof -
  let ?e = "env_at 1300" and ?p = "paused_stream 1100 linear_stream"
  have inv: "sound_world (timestamp ?e) world5" using world_inv_later [OF world5_paused(2)] by (simp add: world_sound)
  have f: "authorized ?e (sender ?p)" "\<not> is_terminal (status ?p)" "paused_at ?p = Some 1100"
    by (simp_all add: paused_stream_def)
  have "\<exists>w'. save_stream ?e 0 (resumed_stream 1300 ?p) (extend_stream ?e 0 ?p world5) = Inr w'"
    by (rule save_stream_existing) (simp add: world5_paused)
  then have "\<exists>w'. resume ?e 0 world5 = Inr ((), w')"
    using resume_eq [OF inv world5_paused(4,3) f(1)] f by auto
  then show ?thesis by (auto simp: world6_def commit_def world_after_def)
qed

text \<open>Two identical requests in one batch.\<close>

definition request_400 :: batch_create_request where
  "request_400 = \<lparr>req_recipient = bob, req_token = coin, req_deposit = 400, req_start_time = 1000,
     req_end_time = 1400, req_cliff_time = 1000, req_cancellable = True, req_pausable = True,
     req_transferable = True\<rparr>"

lemma batch_creates:
  "\<exists>ids w'. batch_create book_token (env_at 1000) alice [request_400, request_400] world0 = Inr (ids, w')"
proof -
  let ?e = "env_at 1000"
  have r: "create_request book_token ?e alice request_400 w =
      create_stream_inner book_token ?e alice bob coin 400 1000 1400 1000 DEFAULT_cliff_mode True True True
        None Linear w" for w
    by (simp add: create_request_def create_stream_unchecked_def request_400_def)
  have one: "create_request book_token ?e alice request_400 world0 = Inr (0, world1)"
    using world1_created by (simp add: r create_stream_def)
  obtain ts where "try_transfer book_token (token_state world1) coin alice (contract_address ?e) 400 = (TryOk, ts)"
    using book_transfer_ok [of 400 "token_state world1" coin alice streams_at] by (auto simp: world1_purse)
  then obtain w' where two: "create_request book_token ?e alice request_400 world1 = Inr (next_id world1, w')"
    using create_inner_total [OF book_token_honest valid_400, where e = ?e and tkn = coin and w = world1
      and ts = ts and m = DEFAULT_cliff_mode and cc = True and cp = True and ct = True and crv = Linear] world1_facts
    by (auto simp: r u64_max_def in_i128_def i128_min_def i128_max_def)
  have "validate_requests alice [request_400, request_400] = Inr ()" by (simp add: request_400_def)
  with one two world0_facts(6) show ?thesis by simp
qed

text \<open>The recipient collects from the first stream by a batch of one.\<close>

lemma batch_withdraws:
  "\<exists>w'. batch_withdraw book_token (env_at 1100) bob [RawU64 0] world1 = Inr (100, w')"
proof -
  let ?e = "env_at 1100" and ?s = linear_stream
  have inv: "sound_world (timestamp ?e) world1" using world_inv_later [OF world1_facts(1)] by (simp add: world_sound)
  have s: "lookup_stream world1 0 = Some ?s" by (simp add: world1_facts)
  have pay: "(0::int) < 100" "100 \<le> vested_amount ?s (timestamp ?e) - withdrawn ?s"
    by (simp_all add: scenario_readings linear_stream_terms)
  have avail: "withdrawable ?s (timestamp ?e) = Inr 100"
    using sound_readings(1) [OF sound_worldD(1) [OF inv s]] by (simp add: scenario_readings linear_stream_terms)
  obtain ts where t: "try_transfer book_token (token_state world1) coin streams_at bob 100 = (TryOk, ts)"
    using book_holds [OF world1_facts(2), of 100 coin bob] by (auto simp: world1_facts)
  have "\<exists>s' w'. apply_withdrawal book_token ?e 0 ?s 100 world1 = Inr (s', w')"
    by (rule apply_withdrawal_total [OF inv _ s pay, of book_token])
      (use t world1_facts(4) in \<open>simp_all add: token_transfer_def linear_stream_terms\<close>)
  then obtain s' w' where run: "apply_withdrawal book_token ?e 0 ?s 100 world1 = Inr (s', w')" by blast
  have "backed book_token (contract_address ?e) w'"
    using apply_withdrawal_backed [OF book_token_honest inv _ s pay run] world1_facts(2) by simp
  then have "verify_pool_balance book_token ?e coin w' = Inr ()" by (rule verify_total [OF book_token_honest])
  with run show ?thesis
    using world1_facts(6) avail s
    by (simp add: batch_withdraw_def require_not_halted_def validate_batch_ids_def MAX_BATCH_SIZE_def
        require_auth_def peek_stream_def read_stream_eq linear_stream_terms checked_add_i128_def
        in_i128_def i128_min_def i128_max_def del: verify_pool_balance_Inr)
qed

text \<open>The sender of the second stream delegates everything a sender may delegate.\<close>

definition world7 :: "(address \<Rightarrow> address \<Rightarrow> int) world" where
  "world7 = commit book_token no_factories (Grant_delegate 1 alice carol sender_ops None) (env_at 1000) world2"

lemma step_stream_terms:
  "sender step_stream = alice" "recipient step_stream = bob" "token step_stream = coin"
  "deposited step_stream = 400" "withdrawn step_stream = 0" "status step_stream = Active"
  "cancellable step_stream" "pausable step_stream" "transferable step_stream"
  "curve step_stream = Step" "duration step_stream = 400" "end_time step_stream = 1400"
  "start_time step_stream = 1000" "paused_at step_stream = None" "cliff_mode step_stream = Schedule"
  "paused_total step_stream = 0" "stream_time step_stream t = t"
  by (simp_all add: step_stream_def opened_stream_def duration_def saturating_sub_u64_def stream_time_def)

lemma world7_facts:
  "grant_delegate (env_at 1000) 1 alice carol sender_ops None world2 = Inr ((), world7)"
  "delegate_entries world7 = [(1, carol) \<mapsto> \<lparr>ops = sender_ops, expires_at = None\<rparr>]"
  "lookup_stream world7 = lookup_stream world2" "ledger_of world7 = ledger_of world2" "\<not> is_halted world7"
  "token_state world7 = token_state world2"
proof -
  have s: "lookup_stream world2 1 = Some step_stream" by (simp add: world2_facts)
  have "and sender_ops sender_ops \<noteq> 0" "and sender_ops recipient_ops = 0"
    by (simp_all add: sender_ops_def recipient_ops_def op_defs)
  with grant_delegate_total [OF s world2_facts(6), of sender_ops alice "env_at 1000" carol None]
  obtain w' where w': "grant_delegate (env_at 1000) 1 alice carol sender_ops None world2 = Inr ((), w')"
    "delegate_entries w' = (delegate_entries world2)((1, carol) \<mapsto> \<lparr>ops = sender_ops, expires_at = None\<rparr>)"
    "lookup_stream w' = lookup_stream world2" "ledger_of w' = ledger_of world2" "is_halted w' = is_halted world2"
    "token_state w' = token_state world2"
    by (auto simp: step_stream_terms)
  then have "world7 = w'" by (simp add: world7_def commit_def world_after_def)
  moreover have "delegate_entries world2 = Map.empty"
    using world2_facts(7) world0_facts(8) by (simp add: control_of_def)
  ultimately show "grant_delegate (env_at 1000) 1 alice carol sender_ops None world2 = Inr ((), world7)"
    "delegate_entries world7 = [(1, carol) \<mapsto> \<lparr>ops = sender_ops, expires_at = None\<rparr>]"
    "lookup_stream world7 = lookup_stream world2" "ledger_of world7 = ledger_of world2" "\<not> is_halted world7"
    "token_state world7 = token_state world2"
    using w' world2_facts(6) by simp_all
qed

lemma world7_reached:
  "system_reachable book_token no_factories 1000 world7"
  "any_reachable book_token no_factories streams_at foreign purse 1000 world7"
  using system_reachable_call [OF system_reaches(2), of "env_at 1000"]
    any_reachable_commit [OF any_reaches(3), of "env_at 1000"]
  by (simp_all add: world7_def keeps_curve_def)

lemma world7_check:
  "p \<in> {op_CANCEL, op_PAUSE, op_RESUME, op_TOP_UP} \<Longrightarrow> check_delegate (env_at t) 1 carol p world7 = Inr ()"
  by (auto simp: check_delegate_def load_delegate_def world7_facts(2) require_auth_def sender_ops_def op_defs)

text \<open>An operator is appointed and halts the contract.\<close>

definition world8 :: "(address \<Rightarrow> address \<Rightarrow> int) world" where
  "world8 = commit book_token no_factories (Set_halt_operator carol) (env_at 1000) world1"

definition world9 :: "(address \<Rightarrow> address \<Rightarrow> int) world" where
  "world9 = commit book_token no_factories Halt (env_at 1100) world8"

lemma world9_facts:
  "lookup_stream world9 0 = Some linear_stream" "token_state world9 = token_state world1" "is_halted world9"
  "pooled_balance world9 coin = 400"
proof -
  have "halt_operator_entry world1 = None"
    using world1_facts(7) by (simp add: control_of_def world0_def fresh_world_def)
  then have w8: "set_halt_operator (env_at 1000) carol world1 = Inr ((), world8)"
    by (simp add: world8_def commit_def world_after_def set_halt_operator_Inr set_halt_operator_def
        require_auth_def halt_operator_def)
  then have e8: "world8 = publish (HaltOperatorSetEvent carol) (store_halt_operator (env_at 1000) carol world1)"
    by (simp add: set_halt_operator_Inr)
  have "halt_operator_entry world8 = Some carol" "\<not> is_halted world8"
    unfolding e8 using world1_facts(6)
    by (simp_all add: is_halted_def publish_def store_halt_operator_def extend_instance_def)
  then have w9: "halt (env_at 1100) world8 = Inr ((), world9)"
    by (simp add: world9_def commit_def world_after_def halt_def halt_operator_def require_auth_def)
  show "lookup_stream world9 0 = Some linear_stream" "token_state world9 = token_state world1"
    "pooled_balance world9 coin = 400"
    using halt_ops_frame [of "env_at 1000" carol world1 "()" world8]
      halt_ops_frame [of "env_at 1100" carol world8 "()" world9] w8 w9 by (auto simp: world1_facts ledger_of_def)
  obtain a where e9: "world9 = publish (ContractHaltedEvent a 1100) (set_halt (env_at 1100) world8)"
    using w9 by (auto simp: halt_Inr)
  show "is_halted world9"
    unfolding e9 by (simp add: is_halted_def publish_def set_halt_def extend_instance_def)
qed

lemma world9_reached: "any_reachable book_token no_factories streams_at foreign purse 1100 world9"
proof -
  have "any_reachable book_token no_factories streams_at foreign purse 1000 world8"
    using any_reachable_commit [OF any_reaches(2), of "env_at 1000"] by (simp add: world8_def)
  from any_reachable_commit [OF this, of "env_at 1100"] show ?thesis by (simp add: world9_def)
qed

text \<open>A factory that alice initialised and on which she listed the coin.\<close>

definition factory1 :: factory_world where
  "factory1 = fresh_factory\<lparr>admin_entry := Some alice, stream_contract_entry := Some streams_at,
     max_deposit_cap_entry := Some 1000000, min_duration_entry := Some 300, batch_cap_enforced_entry := Some True,
     allowlist_entries := [coin \<mapsto> True], factory_live_until := 100010,
     allowlist_live_until := (\<lambda>_. 0)(coin := 100010),
     factory_events := [FactoryInited alice streams_at 1000000 300, AllowlistUpdated coin True]\<rparr>"

lemma factory1_reached:
  "factory_reachable factory1"
  "get_factory_config factory1 = Inr \<lparr>cfg_admin = alice, cfg_stream_contract = streams_at,
     cfg_max_deposit = 1000000, cfg_min_duration = 300, cfg_batch_cap_enforced = True,
     cfg_creation_paused = False, cfg_min_rate_per_second = None, cfg_max_rate_per_second = None\<rparr>"
  "is_allowlisted factory1 coin"
  "admits \<lparr>cfg_admin = alice, cfg_stream_contract = streams_at,
     cfg_max_deposit = 1000000, cfg_min_duration = 300, cfg_batch_cap_enforced = True,
     cfg_creation_paused = False, cfg_min_rate_per_second = None, cfg_max_rate_per_second = None\<rparr> 400 400"
proof -
  obtain f where "factory_exec (Init alice streams_at 1000000 300) (env_at 1000) fresh_factory = Inr f"
    "factory_exec (SetAllowlist coin True) (env_at 1000) f = Inr factory1"
    by (simp add: init_Inr fresh_factory_def MIN_DEPOSIT_CAP_def MAX_MIN_DURATION_SECONDS_def factory1_def
        set_allowlist_def publish_factory_def bump_instance_def env_at_def extended_same word_le_def)
  then show "factory_reachable factory1" using factory_deploy factory_call by blast
qed (simp_all add: factory1_def fresh_factory_def get_factory_config_def load_policy_def is_allowlisted_def admits_def)

end
