(* ===== verification/Incident.thy ===== *)
theory Incident
  imports Scenario
begin

text \<open>
  What the one call does that is no step of the ledger machine, \<open>delegate_top_up\<close> on a stream whose
  curve is not linear. The lemmas run the code, step by step, on the worlds of the scenario; the
  root theory states the outcome.
\<close>

section \<open>A delegated top-up of a curve\<close>

text \<open>
  The grant of the second stream's sender lets a delegate top it up. The recipient collects the
  first tranche; the delegate then adds four coins, which stretches the schedule and closes the
  tranche again; the sender cancels and is refunded everything, the paid tranche included.
\<close>

definition regressed_stream :: stream where
  "regressed_stream = step_stream\<lparr>withdrawn := 100, deposited := 404, end_time := 1404\<rparr>"

lemma regressed_terms:
  "paid_stream 1100 100 step_stream = step_stream\<lparr>withdrawn := 100\<rparr>"
  "vested regressed_stream 1100 = Inr 0" "deposited regressed_stream = 404" "withdrawn regressed_stream = 100"
  "token regressed_stream = coin" "sender regressed_stream = alice" "cancellable regressed_stream"
  "status regressed_stream = Active" "refundable regressed_stream 1100 = Inr 404"
proof -
  show p: "paid_stream 1100 100 step_stream = step_stream\<lparr>withdrawn := 100\<rparr>"
    by (simp add: paid_stream_def step_stream_terms)
  show v: "vested regressed_stream 1100 = Inr 0" and d: "deposited regressed_stream = 404"
    and "withdrawn regressed_stream = 100" "token regressed_stream = coin" "sender regressed_stream = alice"
      "cancellable regressed_stream" "status regressed_stream = Active"
    by (simp_all add: regressed_stream_def step_stream_def opened_stream_def vested_def cliff_reached_def
        stream_time_def duration_def elapsed_def saturating_sub_u64_def vested_step_def released_tranches_def
        div_ceil_def curve_shape_def Let_def)
  then show "refundable regressed_stream 1100 = Inr 404"
    by (simp add: refundable_def checked_sub_i128_def in_i128_def i128_min_def i128_max_def)
qed

lemma tranche_collected:
  obtains w where "withdraw book_token (env_at 1100) 1 None world7 = Inr (100, w)"
    "lookup_stream w = [0 \<mapsto> linear_stream, 1 \<mapsto> step_stream\<lparr>withdrawn := 100\<rparr>]"
    "pooled_balance w = (\<lambda>_. 0)(coin := 700)" "backed book_token streams_at w"
    "held book_token (token_state w) coin alice = 9200" "\<not> is_halted w"
    "delegate_entries w = delegate_entries world7"
proof -
  let ?e = "env_at 1100"
  have inv: "sound_world (timestamp ?e) world7"
    using world_inv_later [OF reachable_world_inv [OF world7_reached(1)]] by (simp add: world_sound)
  have l: "lookup_stream world7 = [0 \<mapsto> linear_stream, 1 \<mapsto> step_stream]"
    using world7_facts(3) by (simp add: world2_facts)
  have pb: "pooled_balance world7 = (\<lambda>_. 0)(coin := 800)"
    using world7_facts(4) world2_facts(4) by (simp add: ledger_of_def)
  have b: "backed book_token streams_at world7"
    using in_custody_inv(2) [OF book_token_honest purse_custody [OF world7_reached(2)]] .
  have s: "lookup_stream world7 1 = Some step_stream" by (simp add: l)
  have pay: "(0::int) < 100" "100 \<le> vested_amount step_stream (timestamp ?e) - withdrawn step_stream"
    by (simp_all add: scenario_readings step_stream_terms)
  obtain ts where t: "try_transfer book_token (token_state world7) coin streams_at bob 100 = (TryOk, ts)"
    using book_holds [OF b, of 100 coin bob] by (auto simp: pb)
  obtain w where run: "withdraw book_token ?e 1 None world7 = Inr (100, w)"
    using withdraw_total [OF book_token_honest inv _ world7_facts(5) s _ pay, of None ts] b t pb
    by (auto simp: step_stream_terms scenario_readings)
  have "apply_withdrawal book_token ?e 1 step_stream 100 (extend_stream ?e 1 step_stream world7) =
      Inr (paid_stream (timestamp ?e) 100 step_stream, w)"
    using inv run by (rule withdraw_Inr) (use s in simp)
  note eff = apply_withdrawal_effect [OF _ _ pay this]
  have wf: "sound (timestamp ?e) step_stream" using inv s by (rule sound_worldD(1))
  have s1: "lookup_stream (extend_stream ?e 1 step_stream world7) 1 = Some step_stream" using s by simp
  show thesis
  proof (rule that [OF run])
    show "lookup_stream w = [0 \<mapsto> linear_stream, 1 \<mapsto> step_stream\<lparr>withdrawn := 100\<rparr>]"
      using eff(2) [OF wf s1] by (simp add: l regressed_terms(1))
    show "pooled_balance w = (\<lambda>_. 0)(coin := 700)"
      using eff(3) [OF wf s1] by (simp add: pb step_stream_terms fun_eq_iff)
    show "backed book_token streams_at w"
      using withdraw_backed [OF book_token_honest inv _ run] b by simp
    have tr: "try_transfer book_token (token_state world7) coin streams_at bob 100 = (TryOk, token_state w)"
      using eff(5) [OF wf s1] by (simp add: step_stream_terms)
    have "held book_token (token_state world7) coin alice = 9200"
      using world2_purse by (simp add: held_def book_token_def world7_facts(6))
    then show "held book_token (token_state w) coin alice = 9200"
      using honest_transfer [OF book_token_honest tr, of coin alice] by simp
    have "control_of w = control_of world7" using withdraw.keeps_control [OF inv run] .
    then show "\<not> is_halted w" "delegate_entries w = delegate_entries world7"
      using world7_facts(5) by (simp_all add: control_of_def is_halted_def)
  qed
qed

lemma tranche_closed:
  assumes l: "lookup_stream w = [0 \<mapsto> linear_stream, 1 \<mapsto> step_stream\<lparr>withdrawn := 100\<rparr>]"
    and p: "pooled_balance w = (\<lambda>_. 0)(coin := 700)" and b: "backed book_token streams_at w"
    and a: "held book_token (token_state w) coin alice = 9200" and live: "\<not> is_halted w"
    and g: "delegate_entries w = delegate_entries world7"
  obtains w' where "delegate_top_up book_token (env_at 1100) 1 carol 4 w = Inr ((), w')"
    "lookup_stream w' = [0 \<mapsto> linear_stream, 1 \<mapsto> regressed_stream]"
    "pooled_balance w' = (\<lambda>_. 0)(coin := 704)" "backed book_token streams_at w'" "\<not> is_halted w'"
proof -
  let ?e = "env_at 1100" and ?s = "step_stream\<lparr>withdrawn := 100\<rparr>"
  have s: "lookup_stream w 1 = Some ?s" by (simp add: l)
  have r: "?s\<lparr>deposited := 404, end_time := 1404\<rparr> = regressed_stream" by (simp add: regressed_stream_def regressed_terms)
  have f: "duration ?s = 400" "stream_time ?s 1100 = 1100" "deposited ?s = 400" "end_time ?s = 1400"
    "start_time ?s = 1000" "sender ?s = alice" "token ?s = coin" "status ?s = Active"
    by (simp_all add: step_stream_terms) (simp_all add: step_stream_def opened_stream_def duration_def
        saturating_sub_u64_def stream_time_def)
  have chk: "check_delegate ?e 1 carol op_TOP_UP w = Inr ()"
    using world7_check [of op_TOP_UP 1100] g by (simp add: check_delegate_def load_delegate_def)
  have ex: "lookup_stream (extend_stream ?e 1 ?s w) 1 \<noteq> None" using s by simp
  then obtain w2 where save: "save_stream ?e 1 regressed_stream (extend_stream ?e 1 ?s w) = Inr w2"
    using save_stream_existing by blast
  note v = ledger_save_stream [OF save ex]
  have "backed book_token streams_at w2"
    using save_money [OF save ex] b money_same_backed by fastforce
  moreover obtain ts where t: "try_transfer book_token (token_state w2) coin alice (contract_address ?e) 4 = (TryOk, ts)"
    using book_transfer_ok [of 4 "token_state w2" coin alice streams_at] a v(5) by (auto simp: held_def book_token_def)
  obtain w3 where pull: "pull_deposit book_token ?e coin alice 4 w2 = Inr w3"
    using pull_deposit_total [OF book_token_honest _ t] v(7) p by (auto simp: in_i128_def i128_min_def i128_max_def)
  ultimately have b3: "backed book_token streams_at w3"
    using pull_deposit_backed [OF book_token_honest _ pull] by simp
  then have ver: "verify_pool_balance book_token ?e coin w3 = Inr ()"
    by (intro verify_total [OF book_token_honest]) simp
  have "delegate_top_up book_token ?e 1 carol 4 w = Inr ((), publish (ToppedUpEvent 1 alice 4 404 1404 bob) w3)"
    using live chk save pull ver
    by (simp add: delegate_top_up_def require_not_halted_def load_stream_eq s require_auth_def f r
        regressed_terms(3-6) checked_mul_i128_def checked_div_i128_def checked_add_i128_def
        checked_add_u64_def checked_sub_u64_def in_i128_def i128_min_def i128_max_def u64_max_def
        emit_topped_up_def Let_def del: verify_pool_balance_Inr emit_topped_up_Inr)
      (simp add: regressed_stream_def regressed_terms(1) step_stream_terms)
  moreover have "lookup_stream w3 = [0 \<mapsto> linear_stream, 1 \<mapsto> regressed_stream]"
    "pooled_balance w3 = (\<lambda>_. 0)(coin := 704)" "is_halted w3 = is_halted w"
    using pull_deposit_fields(2,5,6) [OF pull] v l p
    by (auto simp: control_of_def is_halted_def fun_eq_iff)
  moreover have "is_halted (publish ev w3) = is_halted w3" for ev by (simp add: is_halted_def publish_def)
  ultimately show thesis using that b3 live by simp
qed

end
