(* ===== verification/Curves.thy ===== *)
theory Curves
  imports Stream_Machine
begin

text \<open>
  The shapes of the three curves of \<^verbatim>\<open>contracts/stream/src/accrual.rs\<close> in detail, beyond the
  contract they share: where the tranches of a step stream open, how the front-loaded curve
  compares with the linear one, that no intermediate product leaves the \<open>i128\<close> range, and
  how a pause shifts a schedule.
\<close>

section \<open>Step\<close>

text \<open>The tranches released are the whole quarters of the schedule consumed.\<close>

lemma div_between:
  fixes a b q :: int
  assumes "q * b \<le> a" "a < (q + 1) * b"
  shows "a div b = q"
  by (rule int_div_pos_eq [of a b q "a - b * q"]) (use assms in \<open>simp_all add: algebra_simps\<close>)

lemma released_tranches_quarters:
  assumes "c < T"
  shows "released_tranches c T = 4 * uint c div uint T"
proof -
  have T: "0 < uint T" "uint c < uint T" "0 \<le> uint c"
    using assms by (auto simp: word_less_def intro: uint_less_pos)
  let ?q = "released_tranches c T"
  have "?q * uint T \<le> 4 * uint c" "4 * uint c < (?q + 1) * uint T"
    using T by (auto simp: released_tranches_eq of_bool_def)
  then show ?thesis by (rule div_between [symmetric])
qed

lemma step_is_quarters:
  assumes "0 \<le> D" "c < T"
  shows "vested_step D c T = D * (4 * uint c div uint T) div 4"
  by (simp add: vested_step_eq [OF assms(1)] released_tranches_quarters [OF assms(2)])

section \<open>Front-loaded against linear\<close>

text \<open>On the per-mille grid the curve is at least one step ahead of linear, except at its two ends.\<close>

lemma front_curve_ahead:
  assumes "1 \<le> u" "u \<le> 999"
  shows "u + 1 \<le> front_curve u"
proof -
  have "u * u \<le> u * 999" using assms by (simp add: mult_left_mono)
  then have "u * u div 1000 \<le> (u * 1000 - 1) div 1000" using assms by (intro zdiv_mono1) auto
  also have "\<dots> = u - 1" by (rule div_between) simp_all
  finally show ?thesis using assms by (simp add: front_curve_eq)
qed

text \<open>So the front-loaded curve is ahead of linear as soon as the grid has moved.\<close>

lemma front_loaded_ahead:
  assumes dom: "accrual_domain D T" and "c < T" and moved: "uint T \<le> uint c * 1000"
  shows "D * uint c div uint T \<le> vested_front_loaded D c T"
proof -
  have T: "0 < uint T" using assms(2) by (auto simp: word_less_def intro: uint_less_pos)
  have D: "0 \<le> D" using dom by (simp add: accrual_domain_def)
  let ?u = "front_grid c T"
  have "uint T div uint T \<le> uint c * 1000 div uint T" using moved T by (intro zdiv_mono1) auto
  then have u: "1 \<le> ?u" using T by (simp add: front_grid_def)
  have "uint c * 1000 < (?u + 1) * uint T"
  proof -
    have "uint c * 1000 = ?u * uint T + uint c * 1000 mod uint T"
      unfolding front_grid_def by (rule div_mult_mod_eq [symmetric])
    moreover have "uint c * 1000 mod uint T < uint T" using T by (rule pos_mod_bound)
    ultimately show ?thesis by (simp add: algebra_simps)
  qed
  also have "\<dots> \<le> front_curve ?u * uint T"
    using front_curve_ahead [OF u front_grid_bounds(2) [OF assms(2)]] T by (intro mult_right_mono) auto
  finally have "D * (uint c * 1000) \<le> D * (front_curve ?u * uint T)" using D by (intro mult_left_mono) auto
  then have "D * uint c div uint T \<le> D * front_curve ?u div 1000"
    using T by (intro div_le_div_cross) (auto simp: ac_simps)
  then show ?thesis using D assms(2) by (simp add: vested_front_loaded_eq)
qed

lemma front_loaded_against_linear:
  shows "(accrual_domain D T \<and> c < T \<and> uint T \<le> 1000 * uint c \<longrightarrow>
      (\<exists>v. vested_linear D c T = Inr v \<and> v \<le> vested_front_loaded D c T)) \<and>
    vested_linear 10000000 9 10000 = Inr 9000 \<and> vested_front_loaded 10000000 9 10000 = 0"
proof (intro conjI impI)
  assume "accrual_domain D T \<and> c < T \<and> uint T \<le> 1000 * uint c"
  then show "\<exists>v. vested_linear D c T = Inr v \<and> v \<le> vested_front_loaded D c T"
    using front_loaded_ahead [of D T c] vested_linear_eq [of D T c] by (simp add: mult.commute)
qed (simp_all add: vested_linear_def vested_front_loaded_def front_grid_def front_curve_def checked_i128_defs
    in_i128_def i128_min_def i128_max_def Let_def)

section \<open>No product leaves the range\<close>

lemma step_products:
  assumes "0 \<le> D" "D \<le> i128_max"
  shows "in_i128 (D sdiv 4 * released_tranches c T)" "in_i128 (D smod 4 * released_tranches c T)"
    "in_i128 (vested_step D c T)"
proof -
  note b = released_tranches_bounds [of c T]
  have n: "0 \<le> D div 4" "0 \<le> D mod 4" "D mod 4 \<le> 3" "4 * (D div 4) \<le> D"
    using assms by (simp_all add: pos_imp_zdiv_nonneg_iff)
  have "D div 4 * released_tranches c T \<le> D div 4 * 3" using n(1) b(2) by (rule mult_left_mono [rotated])
  then have "D div 4 * released_tranches c T \<le> i128_max" using n(1,4) assms by linarith
  with n(1) b(1) assms show "in_i128 (D sdiv 4 * released_tranches c T)"
    by (simp add: sdiv_nonneg in_i128_nonneg)
  have "D mod 4 * released_tranches c T \<le> 3 * 3" using n b by (intro mult_mono) auto
  with n(2) b(1) assms show "in_i128 (D smod 4 * released_tranches c T)"
    by (simp add: smod_nonneg in_i128_nonneg i128_max_def)
  have "0 \<le> D * released_tranches c T div 4" "D * released_tranches c T div 4 \<le> D"
    using assms b by (auto intro!: mult_div_le mult_div_nonneg)
  then show "in_i128 (vested_step D c T)" using assms by (simp add: vested_step_eq in_i128_nonneg)
qed

lemma front_products:
  assumes "0 \<le> D" "D \<le> i128_max" "c < T"
  shows "in_i128 (D sdiv 1000 * front_curve (front_grid c T))"
    "in_i128 (D smod 1000 * front_curve (front_grid c T))" "in_i128 (vested_front_loaded D c T)"
    "in_i128 (uint c * 1000)" "in_i128 (front_grid c T * front_grid c T)"
proof -
  note g = front_grid_bounds [OF assms(3)]
  have f: "0 \<le> front_curve (front_grid c T)" "front_curve (front_grid c T) \<le> 1000"
    using g by (auto intro!: front_curve_bounds)
  have n: "0 \<le> D div 1000" "1000 * (D div 1000) \<le> D" "0 \<le> D mod 1000" "D mod 1000 \<le> 999"
    using assms by (simp_all add: pos_imp_zdiv_nonneg_iff)
  have "D div 1000 * front_curve (front_grid c T) \<le> D div 1000 * 1000"
    using n(1) f(2) by (rule mult_left_mono [rotated])
  then show "in_i128 (D sdiv 1000 * front_curve (front_grid c T))"
    using n f assms by (simp add: sdiv_nonneg in_i128_nonneg)
  have "D mod 1000 * front_curve (front_grid c T) \<le> 999 * 1000" using n f by (intro mult_mono) auto
  then show "in_i128 (D smod 1000 * front_curve (front_grid c T))"
    using n f assms by (simp add: smod_nonneg in_i128_nonneg i128_max_def)
  have "0 \<le> D * front_curve (front_grid c T) div 1000" "D * front_curve (front_grid c T) div 1000 \<le> D"
    using assms f by (auto intro!: mult_div_le mult_div_nonneg)
  then show "in_i128 (vested_front_loaded D c T)"
    using assms by (simp add: vested_front_loaded_eq in_i128_nonneg)
  have "uint c * 1000 \<le> u64_max * 1000" by (rule mult_right_mono) simp_all
  then show "in_i128 (uint c * 1000)" by (simp add: in_i128_nonneg u64_max_def i128_max_def)
  have "front_grid c T * front_grid c T \<le> 999 * 999" using g by (intro mult_mono) auto
  then show "in_i128 (front_grid c T * front_grid c T)" using g by (simp add: in_i128_nonneg i128_max_def)
qed

section \<open>Full delivery\<close>

lemma delivered_at_end:
  "cliff_reached s now \<Longrightarrow> end_time s \<le> stream_time s now \<Longrightarrow> vested_amount s now = deposited s"
  by (simp add: vested_amount_def vested_matured matured_def)

section \<open>A pause shifts the schedule\<close>

text \<open>
  A stream paused at \<open>t1\<close> and resumed at \<open>t2\<close> reads at \<open>t2 + d\<close> what it would have read at
  \<open>t1 + d\<close>, when its cliff is on the stream clock.
\<close>

lemma pause_resume_clock:
  assumes p: "pause_ok t1 s" "status s = Active" and t: "t1 \<le> t2"
    and room: "uint t2 + uint d \<le> u64_max"
  shows "stream_time (resumed_stream t2 (paused_stream t1 s)) (t2 + d) = stream_time s (t1 + d)"
proof -
  have n: "paused_at s = None" "paused_total s \<le> t1"
    using p by (auto simp: pause_ok_def split: option.splits)
  have dt: "uint (t2 - t1) = uint t2 - uint t1" using t by (rule uint_diff_u64)
  have "uint (paused_total s) + uint (t2 - t1) \<le> uint t2" using n(2) by (simp add: dt word_le_def)
  then have "uint (paused_total s) + uint (t2 - t1) \<le> u64_max" using uint_u64_bounds(2) by (rule order_trans)
  then have pt: "uint (paused_total s + (t2 - t1)) = uint (paused_total s) + (uint t2 - uint t1)"
    by (simp add: uint_add_u64 dt)
  have le: "uint t1 \<le> uint t2" using t by (simp add: word_le_def)
  then have "uint (t1 + d) = uint t1 + uint d" using room by (intro uint_add_u64) linarith
  moreover have "uint (t2 + d) = uint t2 + uint d" using room by (rule uint_add_u64)
  ultimately show ?thesis
    using n by (simp add: word_uint_eq_iff uint_stream_time resumed_stream_def paused_stream_def
        settle_pause_def pt)
qed

lemma pause_resume_shift:
  assumes "pause_ok t1 s" "status s = Active" "t1 \<le> t2" "uint t2 + uint d \<le> u64_max" "cliff_mode s = Schedule"
  shows "vested (resumed_stream t2 (paused_stream t1 s)) (t2 + d) = vested s (t1 + d)"
proof -
  let ?r = "resumed_stream t2 (paused_stream t1 s)"
  have f: "cliff_mode ?r = cliff_mode s" "cliff_time ?r = cliff_time s" "start_time ?r = start_time s"
    "end_time ?r = end_time s" "deposited ?r = deposited s" "curve ?r = curve s"
    by (simp_all add: resumed_stream_def paused_stream_def)
  note clock = pause_resume_clock [OF assms(1-4)]
  have "cliff_reached ?r (t2 + d) = cliff_reached s (t1 + d)"
    using clock f assms(5) by (simp add: cliff_reached_def)
  moreover have "duration ?r = duration s" "elapsed ?r (t2 + d) = elapsed s (t1 + d)"
    using clock f by (simp_all add: duration_def elapsed_def Let_def)
  ultimately show ?thesis unfolding vested_eq using f by simp
qed

end
