(* ===== verification/Rent.thy ===== *)
theory Rent
  imports Maintenance
begin

text \<open>
  How long the rent of a stream's entries lasts (\<^verbatim>\<open>contracts/stream/src/storage.rs\<close>:
  \<open>seconds_to_ledgers\<close>, \<open>ttl_target_ledgers\<close>, \<open>extend_stream\<close>). The conversion rounds up and
  adds a fifth, so a target that neither saturates nor meets the network maximum covers the
  rest of the schedule and thirty days more, at any pace of at least 25/6 seconds a ledger.
\<close>

section \<open>The conversion\<close>

text \<open>Five seconds a ledger and a fifth on top: a ledger count that is not saturated covers its seconds.\<close>

lemma uint_ucast_u32: "uint x \<le> u32_max \<Longrightarrow> uint (ucast (x :: u64) :: u32) = uint x"
  by (simp add: unsigned_ucast_eq u32_max_def take_bit_int_eq_self)

lemma saturating_add_zero [simp]: "saturating_add_u64 a 0 = a"
  using uint_u64_bounds(2) [of a] by (simp add: saturating_add_u64_def del: uint_u64_bounds)

lemma uint_u32_max: "uint (word_of_int u32_max :: u32) = u32_max"
  by (simp add: u32_max_def)

lemma seconds_to_ledgers_eq:
  "uint (seconds_to_ledgers x) = min u32_max ((min u64_max (uint x * 120) div 100 + 4) div 5)"
proof -
  let ?i = "saturating_mul_u64 x (100 + TTL_SAFETY_MARGIN_PERCENT) div 100"
  have i: "uint ?i = min u64_max (uint x * 120) div 100"
    by (simp add: TTL_SAFETY_MARGIN_PERCENT_def uint_div uint_saturating_mul_u64)
  have "uint ?i + 4 \<le> u64_max"
  proof -
    have "min u64_max (uint x * 120) div 100 \<le> u64_max div 100" by (rule zdiv_mono1) simp_all
    then show ?thesis by (simp add: i u64_max_def)
  qed
  then have "uint (saturating_add_u64 ?i (SECONDS_PER_LEDGER - 1) div SECONDS_PER_LEDGER)
      = (min u64_max (uint x * 120) div 100 + 4) div 5"
    by (simp add: SECONDS_PER_LEDGER_def uint_div uint_saturating_add_u64 min_absorb2 flip: i)
  then show ?thesis
    using uint_u32_max by (auto simp: seconds_to_ledgers_def Let_def uint_ucast_u32 min_def)
qed

lemma rounding:
  fixes y :: int
  shows "6 * y \<le> 5 * (6 * y div 5) + 4" "y \<le> 5 * ((y + 4) div 5)" "6 * z \<le> 25 * y + 4 \<Longrightarrow> z \<le> 25 * y div 6 + 1"
  by linarith+

lemma seconds_to_ledgers_covers:
  assumes "uint (seconds_to_ledgers x) < u32_max"
  shows "6 * uint x \<le> 25 * uint (seconds_to_ledgers x) + 4"
proof -
  let ?m = "min u64_max (uint x * 120)"
  have r: "uint (seconds_to_ledgers x) = (?m div 100 + 4) div 5" and s: "(?m div 100 + 4) div 5 < u32_max"
    using assms unfolding seconds_to_ledgers_eq by linarith+
  have "?m \<noteq> u64_max" using s by (auto simp: u64_max_def u32_max_def)
  then have "?m = uint x * 120" by linarith
  then have "?m div 100 = 6 * uint x div 5" by simp
  then show ?thesis unfolding r using rounding(1) [of "uint x"] rounding(2) [of "6 * uint x div 5"] by simp
qed

section \<open>The target\<close>

lemma MIN_STREAM_TTL_LEDGERS_eq: "MIN_STREAM_TTL_LEDGERS = 622080"
  by (simp add: MIN_STREAM_TTL_LEDGERS_def TTL_BUFFER_SECONDS_def TTL_SAFETY_MARGIN_PERCENT_def
      SECONDS_PER_LEDGER_def)

lemma uint_max_u32: "uint (max a b :: u32) = max (uint a) (uint b)"
  by (simp add: max_def word_le_def)

lemma ttl_target_range:
  "min 622080 (max_ttl e) \<le> ttl_target_ledgers e s" "ttl_target_ledgers e s \<le> max_ttl e"
  by (auto simp: ttl_target_ledgers_def Let_def MIN_STREAM_TTL_LEDGERS_eq min_le_iff_disj le_max_iff_disj)

lemma schedule_consumed:
  fixes a b c n B k need M :: int
  assumes "need = min M (max 0 (min M (a + b) - c) + B)" "need < M" "need \<le> k" "c + k \<le> n + B" "n < M"
  shows "a + b \<le> n"
proof -
  have "max 0 (min M (a + b) - c) + B = need" using assms(1,2) by (simp add: min_def split: if_splits)
  then have "min M (a + b) \<le> n" using assms(3,4) by simp
  then show ?thesis using assms(5) by simp
qed

lemma ttl_target_covers:
  assumes t: "ttl_target_ledgers e s < max_ttl e" and p: "paused_at s = None"
    and n: "uint now < u64_max"
    and c: "uint (timestamp e) + 25 * uint (ttl_target_ledgers e s) div 6 + 1 \<le> uint now + 2592000"
  shows "end_time s \<le> stream_time s now"
proof -
  let ?stop = "saturating_add_u64 (end_time s) (paused_total s)"
  let ?need = "saturating_add_u64 (saturating_sub_u64 ?stop (timestamp e)) TTL_BUFFER_SECONDS"
  have e0: "saturating_add_u64 ?stop 0 = ?stop" by simp
  have T: "ttl_target_ledgers e s = min (max (seconds_to_ledgers ?need) MIN_STREAM_TTL_LEDGERS) (max_ttl e)"
    using p e0 by (simp add: ttl_target_ledgers_def Let_def)
  then have le: "uint (seconds_to_ledgers ?need) \<le> uint (ttl_target_ledgers e s)"
    using t by (auto simp: min_def max_def word_le_def word_less_def split: if_splits)
  have "uint (ttl_target_ledgers e s) < uint (max_ttl e)" using t by (simp add: word_less_def)
  also have "uint (max_ttl e) \<le> u32_max" using uint_lt2p [of "max_ttl e"] by (simp add: u32_max_def)
  finally have tlt: "uint (ttl_target_ledgers e s) < u32_max" .
  then have cov: "6 * uint ?need \<le> 25 * uint (ttl_target_ledgers e s) + 4"
    using seconds_to_ledgers_covers [of ?need] le by simp
  then have "uint ?need \<le> 25 * uint (ttl_target_ledgers e s) div 6 + 1" by (rule rounding(3))
  moreover have "uint ?need = min u64_max (max 0 (min u64_max (uint (end_time s) + uint (paused_total s))
      - uint (timestamp e)) + 2592000)"
    by (simp add: uint_saturating_add_u64 uint_saturating_sub_u64 TTL_BUFFER_SECONDS_def)
  moreover have "uint ?need < u64_max" using cov tlt by (simp add: u64_max_def u32_max_def)
  ultimately have "uint (end_time s) + uint (paused_total s) \<le> uint now"
    using schedule_consumed c n by (metis add.assoc)
  then show ?thesis
    using p by (simp add: stream_time_def uint_saturating_sub_u64 word_le_def)
qed

section \<open>The entries kept alive\<close>

text \<open>The entries that hold a stream: its record, and a side-car for each field that is not a default.\<close>

definition stream_keys :: "u64 \<Rightarrow> stream \<Rightarrow> data_key set" where
  "stream_keys i s = {StreamKey i} \<union> (if curve s \<noteq> Linear then {StreamCurveKey i} else {}) \<union>
     (if cliff_mode s \<noteq> DEFAULT_cliff_mode \<or> reference s \<noteq> None then {StreamMetadataKey i} else {})"

lemma extend_stream_live:
  "k \<in> stream_keys i s \<Longrightarrow>
     sequence e + unat (ttl_target_ledgers e s) \<le> entry_live_until (extend_stream e i s w) k"
  by (auto simp: stream_keys_def extend_stream_def extend_entry_def extended_same Let_def split: if_splits)

lemma extend_stream_keeps: "entry_live_until w k \<le> entry_live_until (extend_stream e i s w) k"
  by (auto simp: extend_stream_def extend_entry_def extended_same Let_def)

lemma extend_stream_ttl_Inr:
  assumes "extend_stream_ttl e i w = Inr (target, w')"
  obtains s where "get_stream w i = Inr s" "\<not> is_terminal (status s)" "target = ttl_target_ledgers e s"
    "w' = publish (TtlExtendedEvent i target) (extend_instance e (extend_stream e i s w))"
  using assms that
  by (auto simp: extend_stream_ttl_def get_stream_def peek_stream_def read_stream_eq emit_ttl_extended_def Let_def
      split: if_splits)

end
