(* ===== verification/Calendar.thy ===== *)
theory Calendar
  imports Prelude
begin

text \<open>
  The timestamp of a provenance manifest (\<^verbatim>\<open>tools/provenance/src/lib.rs\<close>: \<open>format_unix\<close> and
  \<open>civil_from_days\<close>), against the Gregorian calendar. The calendar is given by the length of
  its years and months; the closed form of the code is shown to invert its count of days. The
  code's machine integers never leave their range on these values, so they are
  integers; divisions that truncate are \<open>sdiv\<close>.
\<close>

section \<open>The code\<close>

definition civil_from_days :: "int \<Rightarrow> int \<times> int \<times> int" where
  "civil_from_days z0 =
     (let z = z0 + 719468;
          era = (if z \<ge> 0 then z else z - 146096) sdiv 146097;
          doe = z - era * 146097;
          yoe = (doe - doe div 1460 + doe div 36524 - doe div 146096) div 365;
          y = yoe + era * 400;
          doy = doe - (365 * yoe + yoe div 4 - yoe div 100);
          mp = (5 * doy + 2) div 153;
          d = doy - (153 * mp + 2) div 5 + 1;
          m = (if mp < 10 then mp + 3 else mp - 9)
      in (if m \<le> 2 then y + 1 else y, m, d))"

text \<open>Decimal digits, and a number padded with zeros to a width.\<close>

fun decimal :: "nat \<Rightarrow> string" where
  "decimal n = (if n < 10 then [char_of (48 + n)] else decimal (n div 10) @ [char_of (48 + n mod 10)])"

declare decimal.simps [simp del]

definition padded :: "nat \<Rightarrow> int \<Rightarrow> string" where
  "padded width n = (let digits = decimal (nat n) in replicate (width - length digits) CHR ''0'' @ digits)"

definition format_unix :: "u64 \<Rightarrow> string" where
  "format_unix secs =
     (let days = uint (secs div 86400);
          sod = uint (secs mod 86400);
          (y, m, d) = civil_from_days days
      in padded 4 y @ ''-'' @ padded 2 m @ ''-'' @ padded 2 d @ ''T'' @
         padded 2 (sod div 3600) @ '':'' @ padded 2 (sod mod 3600 div 60) @ '':'' @ padded 2 (sod mod 60) @ ''Z'')"

section \<open>The calendar\<close>

definition leap :: "int \<Rightarrow> bool" where
  "leap y \<longleftrightarrow> 4 dvd y \<and> (100 dvd y \<longrightarrow> 400 dvd y)"

definition month_lengths :: "int \<Rightarrow> int list" where
  "month_lengths y = [31, if leap y then 29 else 28, 31, 30, 31, 30, 31, 31, 30, 31, 30, 31]"

primrec days_to_year :: "nat \<Rightarrow> int" where
  "days_to_year 0 = 0"
| "days_to_year (Suc k) = days_to_year k + (if leap (1970 + int k) then 366 else 365)"

text \<open>Days from 1 January 1970 to a date.\<close>

definition day_number :: "int \<times> int \<times> int \<Rightarrow> int" where
  "day_number date = (case date of (y, m, d) \<Rightarrow>
     days_to_year (nat (y - 1970)) + sum_list (take (nat (m - 1)) (month_lengths y)) + (d - 1))"

definition valid_date :: "int \<times> int \<times> int \<Rightarrow> bool" where
  "valid_date date = (case date of (y, m, d) \<Rightarrow>
     1970 \<le> y \<and> 1 \<le> m \<and> m \<le> 12 \<and> 1 \<le> d \<and> d \<le> month_lengths y ! nat (m - 1))"

lemma valid_date_bounds:
  assumes "valid_date (y, m, d)"
  shows "1970 \<le> y" "1 \<le> m" "m \<le> 12" "1 \<le> d" "d \<le> 31"
proof -
  show b: "1970 \<le> y" "1 \<le> m" "m \<le> 12" "1 \<le> d" using assms by (simp_all add: valid_date_def)
  have "month_lengths y ! nat (m - 1) \<in> set (month_lengths y)"
    using b by (intro nth_mem) (simp add: month_lengths_def)
  then have "month_lengths y ! nat (m - 1) \<le> 31" by (auto simp: month_lengths_def)
  then show "d \<le> 31" using assms by (simp add: valid_date_def)
qed

text \<open>Leap days up to a year; the count of days in closed form.\<close>

definition leap_days :: "int \<Rightarrow> int" where
  "leap_days y = y div 4 - y div 100 + y div 400"

lemma div_eqI: "k * j \<le> y \<Longrightarrow> y < k * j + k \<Longrightarrow> 0 < k \<Longrightarrow> y div k = j" for y k j :: int
  by (rule int_div_pos_eq [of y k j "y - k * j"]) simp_all

lemma div_pred:
  fixes y k :: int
  assumes k: "0 < k"
  shows "(y - 1) div k = y div k - (if k dvd y then 1 else 0)"
proof (cases "k dvd y")
  case True
  then have "k * (y div k) = y" by simp
  then have "(y - 1) div k = y div k - 1" using k by (intro div_eqI) (simp_all add: algebra_simps)
  with True show ?thesis by simp
next
  case False
  then have "0 < y mod k" using k pos_mod_sign [of k y] by (simp add: dvd_eq_mod_eq_0 order_less_le)
  then have "(y - 1) div k = y div k"
    using k pos_mod_bound [of k y] mult_div_mod_eq [of k y] by (intro div_eqI) linarith+
  with False show ?thesis by simp
qed

lemma leap_days_pred: "leap_days (y - 1) = leap_days y - (if leap y then 1 else 0)"
proof -
  have "400 dvd y \<Longrightarrow> 100 dvd y" "100 dvd y \<Longrightarrow> 4 dvd y"
    using dvd_trans [of 100 400 y] dvd_trans [of 4 100 y] by simp_all
  then consider "4 dvd y" "100 dvd y" "400 dvd y" | "4 dvd y" "100 dvd y" "\<not> 400 dvd y"
    | "4 dvd y" "\<not> 100 dvd y" "\<not> 400 dvd y" | "\<not> 4 dvd y" "\<not> 100 dvd y" "\<not> 400 dvd y"
    by blast
  then show ?thesis
    unfolding leap_days_def leap_def
    by cases (simp only: div_pred zero_less_numeral simp_thms if_True if_False; linarith)+
qed

lemma days_to_year_eq: "days_to_year k = 365 * (1970 + int k) + leap_days (1969 + int k) - 719527"
proof (induction k)
  case 0
  show ?case by (simp add: leap_days_def)
next
  case (Suc k)
  have "leap_days (1969 + int k) = leap_days (1970 + int k) - (if leap (1970 + int k) then 1 else 0)"
    using leap_days_pred [of "1970 + int k"] by (simp add: algebra_simps)
  then show ?case using Suc by (simp split: if_splits)
qed

section \<open>The closed form\<close>

text \<open>
  A day of an era of 400 years, counted from 1 March of its first: its century, its period of
  four years in it, and its day there.
\<close>

lemma era_split:
  fixes doe :: int
  assumes "0 \<le> doe" "doe < 146097"
  obtains c q s where "doe = 36524 * c + 1461 * q + s" "0 \<le> c" "c \<le> 3" "0 \<le> q" "q \<le> 24" "0 \<le> s" "s \<le> 1460"
    "q = 24 \<Longrightarrow> s = 1460 \<Longrightarrow> c = 3"
proof -
  define c where "c = min 3 (doe div 36524)"
  define r where "r = doe - 36524 * c"
  define q where "q = min 24 (r div 1461)"
  define s where "s = r - 1461 * q"
  have c: "0 \<le> c" "c \<le> 3" "0 \<le> r" "r \<le> 36524" "c \<noteq> 3 \<Longrightarrow> r < 36524"
    using assms unfolding c_def r_def by linarith+
  have q: "0 \<le> q" "q \<le> 24" "0 \<le> s" "s \<le> 1460" "q = 24 \<Longrightarrow> s = 1460 \<Longrightarrow> r = 36524"
    using c unfolding q_def s_def by linarith+
  show thesis
    by (rule that [of c q s]) (use c q in \<open>auto simp: s_def r_def\<close>)
qed

lemma year_of_era:
  fixes c q s :: int
  assumes doe: "doe = 36524 * c + 1461 * q + s" and b: "0 \<le> c" "c \<le> 3" "0 \<le> q" "q \<le> 24" "0 \<le> s" "s \<le> 1460"
    and e: "q = 24 \<Longrightarrow> s = 1460 \<Longrightarrow> c = 3"
  shows "(doe - doe div 1460 + doe div 36524 - doe div 146096) div 365 = 100 * c + 4 * q + min 3 (s div 365)"
proof -
  define x where "x = (24 * c + q + s) div 1460"
  have "doe div 1460 = 25 * c + q + x"
    unfolding x_def doe using div_mult_self1 [of 1460 "24 * c + q + s" "25 * c + q"] by (simp add: algebra_simps)
  moreover have "doe div 36524 - doe div 146096 = c"
  proof (cases "q = 24 \<and> s = 1460")
    case True
    then show ?thesis using e doe by simp
  next
    case False
    then have "0 \<le> 1461 * q + s" "1461 * q + s < 36524" using b by linarith+
    moreover have "doe < 146096" "0 \<le> doe" using calculation doe b by linarith+
    ultimately show ?thesis using doe by (simp add: div_pos_pos_trivial add.assoc)
  qed
  ultimately have "doe - doe div 1460 + doe div 36524 - doe div 146096 = (s - x) + (100 * c + 4 * q) * 365"
    using doe by simp
  then have "(doe - doe div 1460 + doe div 36524 - doe div 146096) div 365 = 100 * c + 4 * q + (s - x) div 365"
    by simp
  moreover have "(s - x) div 365 = min 3 (s div 365)"
  proof (cases "s < 1095")
    case True
    then have "x = 0" using b unfolding x_def by (intro div_pos_pos_trivial) linarith+
    then show ?thesis using True b by linarith
  next
    case False
    then have "0 \<le> x" "x \<le> 1" "s = 1460 \<Longrightarrow> x = 1" "1460 * x \<le> 96 + s" using b unfolding x_def by linarith+
    then have "(s - x) div 365 = 3" using False b by (intro div_eqI) linarith+
    then show ?thesis using False by linarith
  qed
  ultimately show ?thesis by simp
qed

text \<open>The same day in the code's variables: a March-based year of the era, and its day.\<close>

lemma era_year:
  fixes doe :: int
  assumes "0 \<le> doe" "doe < 146097"
  defines "yoe \<equiv> (doe - doe div 1460 + doe div 36524 - doe div 146096) div 365"
  defines "doy \<equiv> doe - (365 * yoe + yoe div 4 - yoe div 100)"
  shows "0 \<le> yoe" "yoe < 400" "0 \<le> doy" "doy \<le> 365" "doy = 365 \<Longrightarrow> leap (400 * era + yoe + 1)"
proof -
  obtain c q s where doe: "doe = 36524 * c + 1461 * q + s" and b: "0 \<le> c" "c \<le> 3" "0 \<le> q" "q \<le> 24" "0 \<le> s" "s \<le> 1460"
    and e: "q = 24 \<Longrightarrow> s = 1460 \<Longrightarrow> c = 3" by (rule era_split [OF assms(1,2)]) blast
  define a where "a = min 3 (s div 365)"
  have a: "0 \<le> a" "a \<le> 3" "365 * a \<le> s" "s \<le> 365 * a + 365" "s = 365 * a + 365 \<Longrightarrow> a = 3"
    using b unfolding a_def by linarith+
  have y: "yoe = 100 * c + 4 * q + a"
    unfolding yoe_def a_def using doe b e by (rule year_of_era)
  have "yoe div 4 = 25 * c + q" "yoe div 100 = c" using a b by (auto intro!: div_eqI simp: y)
  then have d: "doy = s - 365 * a" by (simp add: doy_def doe y)
  show "0 \<le> yoe" "yoe < 400" "0 \<le> doy" "doy \<le> 365" using a b by (simp_all add: y d)
  assume "doy = 365"
  then have "a = 3" "s = 1460" using a d by simp_all
  then have Y: "400 * era + yoe + 1 = 4 * (100 * era + 25 * c + q + 1)" by (simp add: y)
  show "leap (400 * era + yoe + 1)"
  proof (cases "q = 24")
    case True
    then have "400 * era + yoe + 1 = 400 * (era + 1)" using e \<open>s = 1460\<close> Y by simp
    then show ?thesis unfolding leap_def by (simp add: dvd_mult2)
  next
    case False
    then have "0 < 4 * (q + 1)" "4 * (q + 1) < 100" using b by simp_all
    then have "\<not> 100 dvd 4 * (q + 1)" by (rule zdvd_not_zless)
    then have "\<not> 100 dvd 100 * (4 * era + c) + 4 * (q + 1)"
      by (subst dvd_add_right_iff) simp_all
    moreover have "100 * (4 * era + c) + 4 * (q + 1) = 400 * era + yoe + 1" using y \<open>a = 3\<close> by simp
    ultimately have "\<not> 100 dvd 400 * era + yoe + 1" by (rule back_subst [where P = "\<lambda>x. \<not> 100 dvd x"])
    then show ?thesis unfolding leap_def Y by simp
  qed
qed

text \<open>The month: twelve intervals of the March-based year.\<close>

lemma month_of_year:
  fixes doy :: int
  assumes "0 \<le> doy" "doy \<le> 365"
  defines "mp \<equiv> (5 * doy + 2) div 153"
  shows "mp \<in> {0..11}"
    "153 * mp \<le> 5 * doy + 2" "5 * doy + 2 \<le> 153 * mp + 152"
  using assms(1,2) unfolding mp_def by (simp_all, linarith+)

lemma leap_days_era:
  assumes "0 \<le> yoe" "yoe < 400"
  shows "leap_days (yoe + era * 400) = 97 * era + yoe div 4 - yoe div 100"
proof -
  have "(yoe + era * 400) div 4 = yoe div 4 + 100 * era" "(yoe + era * 400) div 100 = yoe div 100 + 4 * era"
    "(yoe + era * 400) div 400 = era"
    using assms div_mult_self1 [of 4 yoe "100 * era"] div_mult_self1 [of 100 yoe "4 * era"]
    by (simp_all add: mult.commute)
  then show ?thesis by (simp add: leap_days_def)
qed

text \<open>What the code computes of a day: a March-based year, a day of it, and a month of it.\<close>

definition march_date :: "int \<Rightarrow> int \<Rightarrow> int \<Rightarrow> int \<times> int \<times> int" where
  "march_date Y doy mp =
     (if mp < 10 then (Y, mp + 3, doy - (153 * mp + 2) div 5 + 1)
      else (Y + 1, mp - 9, doy - (153 * mp + 2) div 5 + 1))"

definition march_day :: "int \<Rightarrow> int \<Rightarrow> int \<Rightarrow> bool" where
  "march_day Y doy mp \<longleftrightarrow>
     0 \<le> doy \<and> doy \<le> 365 \<and> (doy = 365 \<longrightarrow> leap (Y + 1)) \<and> mp \<in> {0..11} \<and>
     153 * mp \<le> 5 * doy + 2 \<and> 5 * doy + 2 \<le> 153 * mp + 152 \<and> 1969 \<le> Y \<and> (mp < 10 \<longrightarrow> 1970 \<le> Y)"

lemma march_months:
  assumes "march_day Y doy mp"
  shows "mp = 0 \<or> mp = 1 \<or> mp = 2 \<or> mp = 3 \<or> mp = 4 \<or> mp = 5 \<or> mp = 6 \<or> mp = 7 \<or> mp = 8 \<or>
      mp = 9 \<or> mp = 10 \<or> mp = 11"
proof -
  have "mp \<in> {0..11}" using assms by (simp add: march_day_def)
  then show ?thesis by (simp, presburger)
qed

text \<open>The epoch falls late in a March-based year, so no earlier year is reached.\<close>

lemma march_late:
  fixes z doe era yoe doy mp :: int
  assumes "0 \<le> z" "0 \<le> doe" "doe < 146097" "z + 719468 = 146097 * era + doe"
    and yoe: "0 \<le> yoe" "yoe < 400" and doy: "doy = doe - (365 * yoe + yoe div 4 - yoe div 100)"
    and mp: "0 \<le> doy" "doy \<le> 365" "5 * doy + 2 \<le> 153 * mp + 152"
  shows "1969 \<le> yoe + era * 400" "mp < 10 \<Longrightarrow> 1970 \<le> yoe + era * 400"
proof -
  have "4 \<le> era" using assms(1-4) by linarith
  then consider "era = 4" "135080 \<le> doe" | "5 \<le> era" using assms(1,4) by linarith
  then have "1969 \<le> yoe + era * 400 \<and> (mp < 10 \<longrightarrow> 1970 \<le> yoe + era * 400)"
  proof cases
    case 1
    have "doe = 365 * yoe + yoe div 4 - yoe div 100 + doy" by (simp add: doy)
    moreover have "4 * (yoe div 4) \<le> yoe" "yoe - 99 \<le> 100 * (yoe div 100)" by linarith+
    moreover have "doy \<le> 305" if "mp < 10" using mp that by linarith
    ultimately show ?thesis using 1 yoe mp by linarith
  next
    case 2
    then show ?thesis using yoe by simp
  qed
  then show "1969 \<le> yoe + era * 400" "mp < 10 \<Longrightarrow> 1970 \<le> yoe + era * 400" by simp_all
qed

lemma civil_march:
  assumes "0 \<le> z"
  obtains Y doy mp where "civil_from_days z = march_date Y doy mp" "march_day Y doy mp"
    "z = 365 * Y + leap_days Y + doy - 719468"
proof -
  define era where "era = (z + 719468) div 146097"
  define doe where "doe = (z + 719468) mod 146097"
  define yoe where "yoe = (doe - doe div 1460 + doe div 36524 - doe div 146096) div 365"
  define doy where "doy = doe - (365 * yoe + yoe div 4 - yoe div 100)"
  define mp where "mp = (5 * doy + 2) div 153"
  define Y where "Y = yoe + era * 400"
  have doe: "0 \<le> doe" "doe < 146097" "z + 719468 = 146097 * era + doe"
    by (simp_all add: doe_def era_def)
  note ey = era_year(1-4) [OF doe(1,2), folded yoe_def, folded doy_def]
  have leap: "doy = 365 \<Longrightarrow> leap (Y + 1)"
    using era_year(5) [OF doe(1,2), of era, folded yoe_def, folded doy_def] by (simp add: Y_def algebra_simps)
  note my = month_of_year [OF ey(3,4), folded mp_def]
  have n: "z + 719468 \<ge> 0" using assms by simp
  have e: "(z + 719468) sdiv 146097 = era" "z + 719468 - era * 146097 = doe"
    unfolding era_def using n by (simp add: sdiv_nonneg, simp add: doe_def minus_div_mult_eq_mod)
  have "civil_from_days z = (if (if mp < 10 then mp + 3 else mp - 9) \<le> 2 then Y + 1 else Y,
      if mp < 10 then mp + 3 else mp - 9, doy - (153 * mp + 2) div 5 + 1)"
    unfolding civil_from_days_def Let_def if_P [OF n] e yoe_def [symmetric]
    unfolding doy_def [symmetric] mp_def [symmetric] Y_def [symmetric] by (rule refl)
  then have "civil_from_days z = march_date Y doy mp" using my(1) by (auto simp: march_date_def)
  moreover have "march_day Y doy mp"
    using ey my leap march_late [OF assms doe ey(1,2) doy_def ey(3,4) my(3)] by (simp add: march_day_def Y_def)
  moreover have "z = 365 * Y + leap_days Y + doy - 719468"
    using doe(3) leap_days_era [OF ey(1,2), of era] by (simp add: doy_def Y_def)
  ultimately show thesis by (rule that)
qed

text \<open>Such a date is valid, and counts the days of its year and month.\<close>

lemma march_date_valid:
  assumes day: "march_day Y doy mp"
  shows "valid_date (march_date Y doy mp)"
proof -
  note cases = march_months [OF day]
  have b: "0 \<le> doy" "doy \<le> 365" "doy = 365 \<Longrightarrow> leap (Y + 1)" "153 * mp \<le> 5 * doy + 2" "5 * doy + 2 \<le> 153 * mp + 152"
    "1969 \<le> Y" "mp < 10 \<Longrightarrow> 1970 \<le> Y"
    using day by (simp_all add: march_day_def)
  have dim: "mp < 10 \<Longrightarrow> month_lengths Y ! nat (2 + mp) = (if mp \<in> {1, 3, 6, 8} then 30 else 31)"
    "mp = 10 \<Longrightarrow> month_lengths (Y + 1) ! nat (mp - 10) = 31"
    "mp = 11 \<Longrightarrow> month_lengths (Y + 1) ! nat (mp - 10) = (if leap (Y + 1) then 29 else 28)"
    using cases by (elim disjE; simp add: month_lengths_def)+
  have d: "0 \<le> doy - (153 * mp + 2) div 5" "doy - (153 * mp + 2) div 5 \<le> 30"
    "mp \<in> {1, 3, 6, 8} \<Longrightarrow> doy - (153 * mp + 2) div 5 \<le> 29" "mp = 11 \<Longrightarrow> doy - (153 * mp + 2) div 5 = doy - 337"
    using b(4,5) cases by (elim disjE; simp)+
  consider "mp < 10" "0 \<le> mp" | "mp = 10" | "mp = 11" "doy = 365" | "mp = 11" "doy < 365" using cases b(2) by linarith
  then show ?thesis
    using dim d b by cases (auto simp: march_date_def valid_date_def)
qed

lemma march_date_day:
  assumes day: "march_day Y doy mp"
  shows "day_number (march_date Y doy mp) = 365 * Y + leap_days Y + doy - 719468"
proof -
  note cases = march_months [OF day]
  have late: "1969 \<le> Y" "mp < 10 \<Longrightarrow> 1970 \<le> Y" using day by (simp_all add: march_day_def)
  have count: "day_number (Y, m, d) = 365 * Y + leap_days Y - (if leap Y then 1 else 0) - 719527 +
      sum_list (take (nat (m - 1)) (month_lengths Y)) + (d - 1)" if "1970 \<le> Y" for Y m d
    using that leap_days_pred [of Y] by (simp add: day_number_def days_to_year_eq)
  have after: "leap_days (Y + 1) - (if leap (Y + 1) then 1 else 0) = leap_days Y"
    using leap_days_pred [of "Y + 1"] by simp
  show ?thesis
  proof (cases "mp < 10")
    case True
    have "sum_list (take (nat (2 + mp)) (month_lengths Y)) = 59 + (if leap Y then 1 else 0) + (153 * mp + 2) div 5"
      using cases True by (elim disjE) (simp_all add: month_lengths_def)
    then show ?thesis using True late by (simp add: march_date_def count)
  next
    case False
    have "sum_list (take (nat (mp - 10)) (month_lengths (Y + 1))) = (153 * mp + 2) div 5 - 306"
      using cases False by (elim disjE) (simp_all add: month_lengths_def)
    then show ?thesis using False late after by (simp add: march_date_def count)
  qed
qed

theorem civil_from_days_correct:
  assumes "0 \<le> z"
  shows "valid_date (civil_from_days z)" "day_number (civil_from_days z) = z"
  using assms by (rule civil_march, simp add: march_date_valid march_date_day)+

section \<open>Reading a timestamp back\<close>

definition read_number :: "string \<Rightarrow> int" where
  "read_number = foldl (\<lambda>n c. 10 * n + (int (of_char c) - 48)) 0"

lemma read_number_append: "read_number (xs @ [c]) = 10 * read_number xs + (int (of_char c) - 48)"
  by (simp add: read_number_def)

lemma of_char_digit: "n < 10 \<Longrightarrow> int (of_char (char_of (48 + n) :: char)) - 48 = int n"
  by (simp add: of_char_of take_bit_eq_mod)

lemma read_decimal: "read_number (decimal n) = int n"
proof (induction n rule: decimal.induct)
  case (1 n)
  show ?case
  proof (cases "n < 10")
    case True
    then show ?thesis
      using read_number_append [of "[]" "char_of (48 + n)"] of_char_digit [of n]
      by (simp add: decimal.simps [of n] read_number_def)
  next
    case False
    then show ?thesis
      using 1 of_char_digit [of "n mod 10"]
      by (simp add: decimal.simps [of n] read_number_append) presburger
  qed
qed

lemma read_zeros: "read_number (replicate k CHR ''0'' @ xs) = read_number xs"
  by (induction k) (simp_all add: read_number_def)

lemma read_padded: "0 \<le> n \<Longrightarrow> read_number (padded k n) = n"
  by (simp add: padded_def Let_def read_zeros read_decimal)

lemma length_padded_two: "0 \<le> n \<Longrightarrow> n < 100 \<Longrightarrow> length (padded 2 n) = 2"
proof -
  assume n: "0 \<le> n" "n < 100"
  then have "length (decimal (nat n)) \<le> 2" by (auto simp: decimal.simps [of "nat n"] decimal.simps [of "nat n div 10"])
  then show ?thesis by (simp add: padded_def Let_def)
qed

text \<open>
  The reader of a timestamp: the last sixteen characters are the fields of fixed width, with a
  separator in front of each, and the year is what comes before them.
\<close>

definition read_unix :: "string \<Rightarrow> (int \<times> int \<times> int) \<times> int" where
  "read_unix s =
     (let t = length s - 16;
          field = (\<lambda>k. read_number (take 2 (drop (t + 1 + 3 * k) s)))
      in ((read_number (take t s), field 0, field 1), 3600 * field 2 + 60 * field 3 + field 4))"

lemma read_unix_fields:
  assumes "length m = 2" "length d = 2" "length h = 2" "length i = 2" "length s = 2"
  shows "read_unix (y @ CHR ''-'' # m @ CHR ''-'' # d @ CHR ''T'' # h @ CHR '':'' # i @ CHR '':'' # s @ ''Z'') =
    ((read_number y, read_number m, read_number d), 3600 * read_number h + 60 * read_number i + read_number s)"
  using assms by (simp add: read_unix_def Let_def)

lemma read_format_unix:
  "read_unix (format_unix secs) = (civil_from_days (uint (secs div 86400)), uint (secs mod 86400))"
proof -
  let ?t = "uint (secs mod 86400)"
  obtain y m d where c: "civil_from_days (uint (secs div 86400)) = (y, m, d)" by (rule prod_cases3)
  have v: "valid_date (y, m, d)" using civil_from_days_correct(1) [of "uint (secs div 86400)"] c by simp
  have f: "0 \<le> y" "0 \<le> m" "m < 100" "0 \<le> d" "d < 100"
    using valid_date_bounds [OF v] by simp_all
  have t: "0 \<le> ?t" "?t < 86400" by (simp_all add: uint_mod)
  then have b: "0 \<le> ?t div 3600" "?t div 3600 < 100" "0 \<le> ?t mod 3600 div 60" "?t mod 3600 div 60 < 100"
    "0 \<le> ?t mod 60" "?t mod 60 < 100"
    by linarith+
  have "3600 * (?t div 3600) + 60 * (?t mod 3600 div 60) + ?t mod 60 = ?t"
  proof -
    have "?t = 3600 * (?t div 3600) + ?t mod 3600" "?t mod 3600 = 60 * (?t mod 3600 div 60) + ?t mod 3600 mod 60"
      by (rule mult_div_mod_eq [symmetric])+
    moreover have "?t mod 3600 mod 60 = ?t mod 60" by (rule mod_mod_cancel) simp
    ultimately show ?thesis by linarith
  qed
  then show ?thesis
    using f b by (simp add: format_unix_def c Let_def read_unix_fields length_padded_two read_padded)
qed

end
