(* ===== verification/Provenance.thy ===== *)
theory Provenance
  imports Calendar "HOL-Library.List_Lexorder" "HOL-Library.Char_ord"
begin

text \<open>
  The provenance tool, \<^verbatim>\<open>tools/provenance/src/lib.rs\<close>: \<open>generate\<close> records the digest of
  every wasm artifact of a release directory and the inputs of the build, \<open>verify\<close> is the
  release gate that compares both again.

  Texts and byte strings are both \<^typ>\<open>string\<close>, a list of bytes. A path is the list of the
  components of an absolute path without symbolic links; the disk is a list of paths with their
  nodes, in the order a directory is read. What the tool does to the disk is state passing: an
  error leaves the disk as it was at that point. What is not in the repository is the record
  \<open>toolbox\<close>: the digest, the TOML and JSON libraries, the commands that are run, the clock,
  and the paths the operating system refuses. The payloads of library errors are not modelled,
  nor is what is printed.
\<close>

section \<open>Constants and data\<close>

definition SCHEMA :: string where
  "SCHEMA = ''https://slsa.dev/provenance/v1.0''"

definition BUILD_TYPE :: string where
  "BUILD_TYPE = ''https://github.com/Fluxora-Org/Fluxora-Contracts/provenance/v1''"

definition DEFAULT_TARGET :: string where
  "DEFAULT_TARGET = ''wasm32v1-none''"

definition MANIFEST_FILENAME :: string where
  "MANIFEST_FILENAME = ''provenance.json''"

definition SHASUMS_FILENAME :: string where
  "SHASUMS_FILENAME = ''SHASUMS''"

type_synonym path = "string list"

record wasm_subject =
  subject_name :: string
  subject_sha256 :: string

type_synonym 'j profile = "string \<rightharpoonup> 'j"

record 'j build_info =
  info_build_type :: string
  info_target :: string
  info_profile :: "'j profile"
  info_git_revision :: string
  info_git_ref :: "string option"
  info_git_dirty :: bool
  info_toolchain_channel :: "string option"
  info_rustc :: string
  info_cargo :: string
  info_soroban_sdk :: string
  info_host :: string
  info_started_on :: string

record 'j manifest =
  manifest_schema :: string
  manifest_subject :: "wasm_subject list"
  manifest_build :: "'j build_info"

record 'j build_metadata =
  meta_git_revision :: string
  meta_git_ref :: "string option"
  meta_git_dirty :: bool
  meta_toolchain_channel :: "string option"
  meta_rustc :: string
  meta_cargo :: string
  meta_soroban_sdk :: string
  meta_host :: string
  meta_profile :: "'j profile"

datatype tool_error =
    ReleaseDirMissing path | NotADirectory path | NoWasmArtifacts path | WorkspaceRootNotFound path
  | IoError path | Utf8Error | TomlError string | JsonError | GitError string | ToolVersion string string
  | HostParse string | SdkVersionNotFound | ManifestMissing path | MissingArtifact string
  | HashMismatch string string string | UnlistedArtifact string | MetadataMismatch string string string

type_synonym 'a tool_result = "tool_error + 'a"

section \<open>The surroundings\<close>

datatype node = FileNode string | DirNode

type_synonym disk = "(path \<times> node) list"

text \<open>How a command ends: it cannot be started, or it exits with a status and an output.\<close>

datatype command_outcome = NotStarted string | Exited bool string string

record ('v, 'j) toolbox =
  sha256_digest :: "string \<Rightarrow> string"
  hex_encode :: "string \<Rightarrow> string"
  parse_toml :: "string \<Rightarrow> string + 'v"
  toml_get :: "'v \<Rightarrow> string \<Rightarrow> 'v option"
  toml_str :: "'v \<Rightarrow> string option"
  toml_array :: "'v \<Rightarrow> 'v list option"
  toml_table :: "'v \<Rightarrow> (string \<times> 'v) list option"
  toml_to_json :: "'v \<Rightarrow> 'j option"
  manifest_to_json :: "'j manifest \<Rightarrow> string option"
  manifest_from_json :: "string \<Rightarrow> 'j manifest option"
  profile_to_json :: "'j profile \<Rightarrow> string option"
  run_command :: "string list \<Rightarrow> path option \<Rightarrow> command_outcome"
  denied :: "path \<Rightarrow> bool"
  clock :: u64

definition is_file :: "disk \<Rightarrow> path \<Rightarrow> bool" where
  "is_file d p = (case map_of d p of Some (FileNode _) \<Rightarrow> True | _ \<Rightarrow> False)"

definition is_dir :: "disk \<Rightarrow> path \<Rightarrow> bool" where
  "is_dir d p = (p = [] \<or> map_of d p = Some DirNode)"

definition path_exists :: "disk \<Rightarrow> path \<Rightarrow> bool" where
  "path_exists d p = (is_file d p \<or> is_dir d p)"

definition read_bytes :: "('v, 'j) toolbox \<Rightarrow> disk \<Rightarrow> path \<Rightarrow> string tool_result" where
  "read_bytes h d p =
     (if denied h p then Inl (IoError p)
      else case map_of d p of Some (FileNode c) \<Rightarrow> Inr c | _ \<Rightarrow> Inl (IoError p))"

text \<open>\<open>std::fs::write\<close> creates or replaces a file; \<open>std::fs::rename\<close> replaces one.\<close>

definition put_file :: "path \<Rightarrow> string \<Rightarrow> disk \<Rightarrow> disk" where
  "put_file p c d = (p, FileNode c) # filter (\<lambda>(q, _). q \<noteq> p) d"

definition write_file :: "('v, 'j) toolbox \<Rightarrow> path \<Rightarrow> string \<Rightarrow> disk \<Rightarrow> unit tool_result \<times> disk" where
  "write_file h p c d =
     (if denied h p \<or> p = [] \<or> is_dir d p \<or> \<not> is_dir d (butlast p) then (Inl (IoError p), d)
      else (Inr (), put_file p c d))"

definition rename_file :: "('v, 'j) toolbox \<Rightarrow> path \<Rightarrow> path \<Rightarrow> disk \<Rightarrow> unit tool_result \<times> disk" where
  "rename_file h p q d =
     (if denied h q \<or> is_dir d q then (Inl (IoError q), d)
      else case map_of d p of
        Some (FileNode c) \<Rightarrow> (Inr (), put_file q c (filter (\<lambda>(r, _). r \<noteq> p) d))
      | _ \<Rightarrow> (Inl (IoError q), d))"

text \<open>
  The bytes a \<open>String\<close> may hold, by the ranges of well-formed UTF-8; the white space
  \<open>trim\<close> removes at both ends, and the pieces \<open>lines\<close> yields, on ASCII text.
\<close>

definition continuation :: "nat \<Rightarrow> bool" where
  "continuation b \<longleftrightarrow> 128 \<le> b \<and> b < 192"

fun utf8_bytes :: "nat list \<Rightarrow> bool" where
  "utf8_bytes [] = True"
| "utf8_bytes (b # bs) =
     (if b < 128 then utf8_bytes bs
      else case bs of
        [] \<Rightarrow> False
      | c # cs \<Rightarrow>
          if 194 \<le> b \<and> b < 224 then continuation c \<and> utf8_bytes cs
          else case cs of
            [] \<Rightarrow> False
          | e # es \<Rightarrow>
              if 224 \<le> b \<and> b < 240 then
                continuation c \<and> continuation e \<and> (b = 224 \<longrightarrow> 160 \<le> c) \<and> (b = 237 \<longrightarrow> c < 160) \<and> utf8_bytes es
              else case es of
                [] \<Rightarrow> False
              | f # fs \<Rightarrow>
                  240 \<le> b \<and> b < 245 \<and> continuation c \<and> continuation e \<and> continuation f \<and>
                  (b = 240 \<longrightarrow> 144 \<le> c) \<and> (b = 244 \<longrightarrow> c < 144) \<and> utf8_bytes fs)"

definition utf8 :: "string \<Rightarrow> bool" where
  "utf8 s = utf8_bytes (map of_char s)"

definition blank :: "char \<Rightarrow> bool" where
  "blank c = ((of_char c :: nat) \<in> {9, 10, 11, 12, 13, 32})"

definition trim :: "string \<Rightarrow> string" where
  "trim s = rev (dropWhile blank (rev (dropWhile blank s)))"

definition chomp :: "string \<Rightarrow> string" where
  "chomp l = (if l \<noteq> [] \<and> last l = CHR 0x0D then butlast l else l)"

fun split_lines :: "string \<Rightarrow> string \<Rightarrow> string list" where
  "split_lines acc [] = (if acc = [] then [] else [acc])"
| "split_lines acc (c # cs) =
     (if c = CHR 0x0A then chomp acc # split_lines [] cs else split_lines (acc @ [c]) cs)"

text \<open>\<open>Path::extension\<close>: what follows the last dot, unless that dot is the first character.\<close>

definition extension :: "string \<Rightarrow> string option" where
  "extension name =
     (let tail = takeWhile (\<lambda>c. c \<noteq> CHR ''.'') (rev name);
          stem = drop (length tail + 1) (rev name)
      in if tail = rev name \<or> stem = [] \<or> name = ''..'' then None else Some (rev tail))"

section \<open>Small utilities\<close>

definition sha256_hex :: "('v, 'j) toolbox \<Rightarrow> string \<Rightarrow> string" where
  "sha256_hex h bytes = hex_encode h (sha256_digest h bytes)"

definition read_to_string :: "('v, 'j) toolbox \<Rightarrow> disk \<Rightarrow> path \<Rightarrow> string tool_result" where
  "read_to_string h d p =
     and_then (read_bytes h d p) (\<lambda>c. if utf8 c then Inr c else Inl (IoError p))"

definition hash_file :: "('v, 'j) toolbox \<Rightarrow> disk \<Rightarrow> path \<Rightarrow> string tool_result" where
  "hash_file h d p = and_then (read_bytes h d p) (\<lambda>bytes. Inr (sha256_hex h bytes))"

definition write_atomic :: "('v, 'j) toolbox \<Rightarrow> path \<Rightarrow> string \<Rightarrow> disk \<Rightarrow> unit tool_result \<times> disk" where
  "write_atomic h p contents d =
     (let file_name = (if p = [] then ''out'' else last p);
          tmp = butlast p @ [''.'' @ file_name @ ''.tmp'']
      in case write_file h tmp contents d of
           (Inl er, d1) \<Rightarrow> (Inl er, d1)
         | (Inr _, d1) \<Rightarrow> rename_file h tmp p d1)"

definition list_wasm_files :: "('v, 'j) toolbox \<Rightarrow> disk \<Rightarrow> path \<Rightarrow> path list tool_result" where
  "list_wasm_files h d dir =
     (if denied h dir \<or> \<not> is_dir d dir then Inl (IoError dir)
      else
        let entries = filter (\<lambda>p. p \<noteq> [] \<and> butlast p = dir) (map fst d)
        in Inr (sort (filter (\<lambda>p. is_file d p \<and> extension (last p) = Some ''wasm'') entries)))"

definition validate_release_dir :: "disk \<Rightarrow> path \<Rightarrow> unit tool_result" where
  "validate_release_dir d dir =
     (if \<not> path_exists d dir then Inl (ReleaseDirMissing dir)
      else if \<not> is_dir d dir then Inl (NotADirectory dir)
      else Inr ())"

fun joined :: "string list \<Rightarrow> string" where
  "joined [] = []"
| "joined [a] = a"
| "joined (a # as) = a @ '' '' @ joined as"

definition run_git :: "('v, 'j) toolbox \<Rightarrow> string list \<Rightarrow> path \<Rightarrow> string tool_result" where
  "run_git h args cwd =
     (let label = ''git '' @ joined args
      in case run_command h (''git'' # args) (Some cwd) of
           NotStarted e \<Rightarrow> Inl (GitError (''could not run `'' @ label @ ''`: '' @ e))
         | Exited ok exit_text out \<Rightarrow>
             if \<not> ok then Inl (GitError (''`'' @ label @ ''` exited with '' @ exit_text))
             else if utf8 out then Inr (trim out) else Inl Utf8Error)"

definition tool_version :: "('v, 'j) toolbox \<Rightarrow> string \<Rightarrow> string tool_result" where
  "tool_version h tool =
     (case run_command h [tool, ''--version''] None of
        NotStarted e \<Rightarrow> Inl (ToolVersion tool e)
      | Exited ok exit_text out \<Rightarrow>
          if \<not> ok then Inl (ToolVersion tool (''exit '' @ exit_text))
          else if utf8 out then Inr (trim out) else Inl Utf8Error)"

text \<open>The status of \<open>rustc -vV\<close> is not looked at.\<close>

definition host_line :: "string \<Rightarrow> string option" where
  "host_line l = (if take 6 l = ''host: '' then Some (drop 6 l) else None)"

fun first_host :: "string list \<Rightarrow> string option" where
  "first_host [] = None"
| "first_host (l # ls) = (case host_line l of Some v \<Rightarrow> Some (trim v) | None \<Rightarrow> first_host ls)"

definition host_triple :: "('v, 'j) toolbox \<Rightarrow> string tool_result" where
  "host_triple h =
     (case run_command h [''rustc'', ''-vV''] None of
        NotStarted e \<Rightarrow> Inl (ToolVersion ''rustc -vV'' e)
      | Exited ok exit_text out \<Rightarrow>
          if utf8 out then ok_or (HostParse out) (first_host (split_lines [] out)) else Inl Utf8Error)"

section \<open>The inputs of the build\<close>

definition declares_workspace :: "('v, 'j) toolbox \<Rightarrow> disk \<Rightarrow> path \<Rightarrow> bool" where
  "declares_workspace h d dir =
     (let cargo = dir @ [''Cargo.toml'']
      in is_file d cargo \<and>
         (case read_to_string h d cargo of
            Inl _ \<Rightarrow> False
          | Inr text \<Rightarrow>
              (case parse_toml h text of Inl _ \<Rightarrow> False | Inr doc \<Rightarrow> toml_get h doc ''workspace'' \<noteq> None)))"

text \<open>The loop of \<open>find_workspace_root\<close>: \<open>pop\<close> fails at the root of the file system.\<close>

function walk_up :: "('v, 'j) toolbox \<Rightarrow> disk \<Rightarrow> path \<Rightarrow> path option" where
  "walk_up h d dir =
     (if declares_workspace h d dir then Some dir
      else if dir = [] then None
      else walk_up h d (butlast dir))"
  by pat_completeness auto
termination by (relation "measure (\<lambda>(h, d, dir). length dir)") auto

declare walk_up.simps [simp del]

definition find_workspace_root :: "('v, 'j) toolbox \<Rightarrow> disk \<Rightarrow> path \<Rightarrow> path tool_result" where
  "find_workspace_root h d from_dir =
     (if denied h from_dir \<or> \<not> path_exists d from_dir then Inl (IoError from_dir)
      else ok_or (WorkspaceRootNotFound from_dir) (walk_up h d from_dir))"

definition load_toml :: "('v, 'j) toolbox \<Rightarrow> disk \<Rightarrow> path \<Rightarrow> string \<Rightarrow> 'v tool_result" where
  "load_toml h d root name =
     and_then (read_to_string h d (root @ [name])) (\<lambda>text.
     case parse_toml h text of Inl e \<Rightarrow> Inl (TomlError e) | Inr doc \<Rightarrow> Inr doc)"

definition profile_from_workspace :: "('v, 'j) toolbox \<Rightarrow> disk \<Rightarrow> path \<Rightarrow> 'j profile tool_result" where
  "profile_from_workspace h d root =
     and_then (load_toml h d root ''Cargo.toml'') (\<lambda>doc.
     case Option.bind (Option.bind (toml_get h doc ''profile'') (\<lambda>p. toml_get h p ''release'')) (toml_table h) of
       None \<Rightarrow> Inr Map.empty
     | Some release \<Rightarrow>
         fold_result (\<lambda>(key, v) values. and_then (ok_or JsonError (toml_to_json h v)) (\<lambda>j. Inr (values(key \<mapsto> j))))
           release Map.empty)"

fun sdk_of_packages :: "('v, 'j) toolbox \<Rightarrow> 'v list \<Rightarrow> string tool_result" where
  "sdk_of_packages h [] = Inl SdkVersionNotFound"
| "sdk_of_packages h (pkg # pkgs) =
     (if Option.bind (toml_get h pkg ''name'') (toml_str h) = Some ''soroban-sdk''
      then ok_or SdkVersionNotFound (Option.bind (toml_get h pkg ''version'') (toml_str h))
      else sdk_of_packages h pkgs)"

definition soroban_sdk_version :: "('v, 'j) toolbox \<Rightarrow> disk \<Rightarrow> path \<Rightarrow> string tool_result" where
  "soroban_sdk_version h d root =
     and_then (load_toml h d root ''Cargo.lock'') (\<lambda>doc.
     and_then (ok_or SdkVersionNotFound (Option.bind (toml_get h doc ''package'') (toml_array h)))
       (sdk_of_packages h))"

definition toolchain_channel :: "('v, 'j) toolbox \<Rightarrow> disk \<Rightarrow> path \<Rightarrow> string option tool_result" where
  "toolchain_channel h d root =
     (if \<not> is_file d (root @ [''rust-toolchain.toml'']) then Inr None
      else
        and_then (load_toml h d root ''rust-toolchain.toml'') (\<lambda>doc.
        Inr (Option.bind (Option.bind (toml_get h doc ''toolchain'') (\<lambda>t. toml_get h t ''channel'')) (toml_str h))))"

definition git_metadata :: "('v, 'j) toolbox \<Rightarrow> path \<Rightarrow> (string \<times> string option \<times> bool) tool_result" where
  "git_metadata h root =
     and_then (run_git h [''rev-parse'', ''HEAD''] root) (\<lambda>revision.
     let reference =
           (case run_git h [''branch'', ''--show-current''] root of
              Inl _ \<Rightarrow> None
            | Inr r \<Rightarrow> if r = [] then None else Some r)
     in and_then (run_git h [''status'', ''--porcelain''] root) (\<lambda>changes.
        Inr (revision, reference, changes \<noteq> [])))"

definition collect_metadata :: "('v, 'j) toolbox \<Rightarrow> disk \<Rightarrow> path \<Rightarrow> 'j build_metadata tool_result" where
  "collect_metadata h d root =
     and_then (git_metadata h root) (\<lambda>(revision, reference, dirty).
     and_then (toolchain_channel h d root) (\<lambda>channel.
     and_then (tool_version h ''rustc'') (\<lambda>rustc.
     and_then (tool_version h ''cargo'') (\<lambda>cargo.
     and_then (soroban_sdk_version h d root) (\<lambda>sdk.
     and_then (host_triple h) (\<lambda>triple.
     and_then (profile_from_workspace h d root) (\<lambda>prof.
     Inr \<lparr> meta_git_revision = revision, meta_git_ref = reference, meta_git_dirty = dirty,
           meta_toolchain_channel = channel, meta_rustc = rustc, meta_cargo = cargo,
           meta_soroban_sdk = sdk, meta_host = triple, meta_profile = prof \<rparr>)))))))"

section \<open>Generating\<close>

text \<open>Hashing a list of files, by name; the first that cannot be read ends it.\<close>

fun hash_all :: "('v, 'j) toolbox \<Rightarrow> disk \<Rightarrow> path list \<Rightarrow> (string \<times> string) list tool_result" where
  "hash_all h d [] = Inr []"
| "hash_all h d (p # ps) =
     and_then (hash_file h d p) (\<lambda>hash.
     and_then (hash_all h d ps) (\<lambda>rest.
     Inr ((last p, hash) # rest)))"

definition collect_artifacts :: "('v, 'j) toolbox \<Rightarrow> disk \<Rightarrow> path \<Rightarrow> wasm_subject list tool_result" where
  "collect_artifacts h d dir =
     and_then (list_wasm_files h d dir) (\<lambda>files.
     if files = [] then Inl (NoWasmArtifacts dir)
     else
       and_then (hash_all h d files) (\<lambda>hashes.
       Inr (map (\<lambda>(name, hash). \<lparr>subject_name = name, subject_sha256 = hash\<rparr>) hashes)))"

definition shasums_text :: "wasm_subject list \<Rightarrow> string" where
  "shasums_text subjects =
     concat (map (\<lambda>s. subject_sha256 s @ ''  '' @ subject_name s @ [CHR 0x0A]) subjects)"

definition now_rfc3339 :: "('v, 'j) toolbox \<Rightarrow> string" where
  "now_rfc3339 h = format_unix (clock h)"

definition resolve_root :: "('v, 'j) toolbox \<Rightarrow> disk \<Rightarrow> path \<Rightarrow> path option \<Rightarrow> path tool_result" where
  "resolve_root h d release_dir workspace_root =
     (case workspace_root of Some r \<Rightarrow> Inr r | None \<Rightarrow> find_workspace_root h d release_dir)"

definition new_manifest ::
    "('v, 'j) toolbox \<Rightarrow> wasm_subject list \<Rightarrow> 'j build_metadata \<Rightarrow> string \<Rightarrow> 'j manifest" where
  "new_manifest h artifacts meta triple =
     \<lparr> manifest_schema = SCHEMA, manifest_subject = artifacts,
       manifest_build = \<lparr>
         info_build_type = BUILD_TYPE, info_target = triple, info_profile = meta_profile meta,
         info_git_revision = meta_git_revision meta, info_git_ref = meta_git_ref meta,
         info_git_dirty = meta_git_dirty meta, info_toolchain_channel = meta_toolchain_channel meta,
         info_rustc = meta_rustc meta, info_cargo = meta_cargo meta,
         info_soroban_sdk = meta_soroban_sdk meta, info_host = meta_host meta,
         info_started_on = now_rfc3339 h \<rparr> \<rparr>"

text \<open>What \<open>generate\<close> computes before it writes: nothing has changed on disk if it fails here.\<close>

definition prepare_manifest ::
    "('v, 'j) toolbox \<Rightarrow> path \<Rightarrow> path option \<Rightarrow> string \<Rightarrow> disk \<Rightarrow> ('j manifest \<times> string) tool_result" where
  "prepare_manifest h release_dir workspace_root triple d =
     and_then (validate_release_dir d release_dir) (\<lambda>_.
     and_then (resolve_root h d release_dir workspace_root) (\<lambda>root.
     and_then (collect_artifacts h d release_dir) (\<lambda>artifacts.
     and_then (collect_metadata h d root) (\<lambda>meta.
     let m = new_manifest h artifacts meta triple in
     and_then (ok_or JsonError (manifest_to_json h m)) (\<lambda>json.
     Inr (m, json))))))"

definition generate ::
    "('v, 'j) toolbox \<Rightarrow> path \<Rightarrow> path option \<Rightarrow> path option \<Rightarrow> string \<Rightarrow> disk \<Rightarrow> 'j manifest tool_result \<times> disk" where
  "generate h release_dir manifest_path workspace_root triple d =
     (case prepare_manifest h release_dir workspace_root triple d of
        Inl er \<Rightarrow> (Inl er, d)
      | Inr (m, json) \<Rightarrow>
          let p = (case manifest_path of Some p \<Rightarrow> p | None \<Rightarrow> release_dir @ [MANIFEST_FILENAME])
          in case write_atomic h p (json @ [CHR 0x0A]) d of
               (Inl er, d1) \<Rightarrow> (Inl er, d1)
             | (Inr _, d1) \<Rightarrow>
                 (case write_atomic h (release_dir @ [SHASUMS_FILENAME]) (shasums_text (manifest_subject m)) d1 of
                    (Inl er, d2) \<Rightarrow> (Inl er, d2)
                  | (Inr _, d2) \<Rightarrow> (Inr m, d2)))"

section \<open>Verifying\<close>

definition check_field :: "string \<Rightarrow> string \<Rightarrow> string \<Rightarrow> unit tool_result" where
  "check_field field recorded actual =
     (if recorded = actual then Inr () else Inl (MetadataMismatch field recorded actual))"

definition opt_string :: "string option \<Rightarrow> string" where
  "opt_string v = (case v of Some s \<Rightarrow> s | None \<Rightarrow> ''<none>'')"

text \<open>Every recorded artifact exists with its hash; every artifact is recorded.\<close>

fun check_subjects :: "(string \<times> string) list \<Rightarrow> wasm_subject list \<Rightarrow> unit tool_result" where
  "check_subjects current [] = Inr ()"
| "check_subjects current (s # ss) =
     (case map_of current (subject_name s) of
        None \<Rightarrow> Inl (MissingArtifact (subject_name s))
      | Some actual \<Rightarrow>
          if actual \<noteq> subject_sha256 s then Inl (HashMismatch (subject_name s) (subject_sha256 s) actual)
          else check_subjects current ss)"

fun check_listed :: "wasm_subject list \<Rightarrow> string list \<Rightarrow> unit tool_result" where
  "check_listed subjects [] = Inr ()"
| "check_listed subjects (name # names) =
     (if \<not> list_ex (\<lambda>s. subject_name s = name) subjects then Inl (UnlistedArtifact name)
      else check_listed subjects names)"

text \<open>The comparison of the recorded inputs with the current ones.\<close>

definition check_environment ::
    "('v, 'j) toolbox \<Rightarrow> 'j build_info \<Rightarrow> 'j build_metadata \<Rightarrow> string \<Rightarrow> unit tool_result" where
  "check_environment h info meta triple =
     and_then (check_field ''target'' (info_target info) triple) (\<lambda>_.
     and_then (check_field ''git_revision'' (info_git_revision info) (meta_git_revision meta)) (\<lambda>_.
     and_then (check_field ''rustc'' (info_rustc info) (meta_rustc meta)) (\<lambda>_.
     and_then (check_field ''cargo'' (info_cargo info) (meta_cargo meta)) (\<lambda>_.
     and_then (check_field ''soroban_sdk'' (info_soroban_sdk info) (meta_soroban_sdk meta)) (\<lambda>_.
     and_then (check_field ''toolchain_channel'' (opt_string (info_toolchain_channel info))
       (opt_string (meta_toolchain_channel meta))) (\<lambda>_.
     and_then (ok_or JsonError (profile_to_json h (info_profile info))) (\<lambda>recorded.
     and_then (ok_or JsonError (profile_to_json h (meta_profile meta))) (\<lambda>current.
     check_field ''profile'' recorded current))))))))"

definition verify ::
    "('v, 'j) toolbox \<Rightarrow> path \<Rightarrow> path option \<Rightarrow> path option \<Rightarrow> string \<Rightarrow> disk \<Rightarrow> nat tool_result" where
  "verify h release_dir manifest_path workspace_root triple d =
     and_then (validate_release_dir d release_dir) (\<lambda>_.
     let p = (case manifest_path of Some p \<Rightarrow> p | None \<Rightarrow> release_dir @ [MANIFEST_FILENAME]) in
     if \<not> is_file d p then Inl (ManifestMissing p)
     else
       and_then (read_to_string h d p) (\<lambda>text.
       and_then (ok_or JsonError (manifest_from_json h text)) (\<lambda>m.
       and_then (list_wasm_files h d release_dir) (\<lambda>files.
       and_then (hash_all h d files) (\<lambda>current.
       and_then (check_subjects current (manifest_subject m)) (\<lambda>_.
       and_then (check_listed (manifest_subject m) (map fst current)) (\<lambda>_.
       and_then (resolve_root h d release_dir workspace_root) (\<lambda>root.
       and_then (collect_metadata h d root) (\<lambda>meta.
       and_then (check_environment h (manifest_build m) meta triple) (\<lambda>_.
       Inr (length (manifest_subject m))))))))))))"

end
