(* ===== verification/Release_Gate.thy ===== *)
theory Release_Gate
  imports Provenance
begin

text \<open>
  What the release gate decides. A listing of a disk is sorted and names nothing twice, so two
  listings with the same entries are equal; writing the manifest and the checksums disturbs
  neither the artifacts nor the files the build inputs are read from. From these frames,
  \<open>gate\<close>: after a \<open>generate\<close>, \<open>verify\<close> accepts a disk exactly when the digests of
  its artifacts are those that were recorded.
\<close>

section \<open>Reading a disk\<close>

text \<open>A disk is a finite map: no path is listed twice.\<close>

definition proper_disk :: "disk \<Rightarrow> bool" where
  "proper_disk d \<longleftrightarrow> distinct (map fst d)"

definition wasm_digests :: "('v, 'j) toolbox \<Rightarrow> disk \<Rightarrow> path \<Rightarrow> (string \<times> string) list tool_result" where
  "wasm_digests h d dir = and_then (list_wasm_files h d dir) (hash_all h d)"

definition wasm_path :: "path \<Rightarrow> path \<Rightarrow> bool" where
  "wasm_path dir p \<longleftrightarrow> p \<noteq> [] \<and> butlast p = dir \<and> extension (last p) = Some ''wasm''"

lemma wasm_pathD: "wasm_path dir p \<Longrightarrow> p = dir @ [last p]"
  by (auto simp: wasm_path_def)

lemma list_wasm_files_Inr:
  assumes "proper_disk d" "list_wasm_files h d dir = Inr files"
  shows "sorted files" "distinct files" "set files = {p. wasm_path dir p \<and> is_file d p}"
    "distinct (map last files)"
proof -
  show s: "sorted files" and dist: "distinct files"
    using assms by (auto simp: list_wasm_files_def proper_disk_def Let_def distinct_map
        intro!: inj_on_subset)
  have "is_file d p \<Longrightarrow> p \<in> fst ` set d" for p
    by (auto simp: is_file_def split: option.splits dest!: map_of_SomeD intro: rev_image_eqI)
  then show set: "set files = {p. wasm_path dir p \<and> is_file d p}"
    using assms(2) by (auto simp: list_wasm_files_def wasm_path_def Let_def)
  have "inj_on last (set files)"
  proof (rule inj_onI)
    fix p q assume "p \<in> set files" "q \<in> set files" "last p = last q"
    then show "p = q" by (auto simp: set dest!: wasm_pathD intro: trans [OF _ sym])
  qed
  then show "distinct (map last files)" using dist by (simp add: distinct_map)
qed

lemma hash_all_Inr:
  "hash_all h d ps = Inr cur \<longleftrightarrow>
     (\<forall>p \<in> set ps. \<exists>x. hash_file h d p = Inr x) \<and>
     cur = map (\<lambda>p. (last p, projr (hash_file h d p))) ps"
  by (induction ps arbitrary: cur) (auto split: sum.splits)

lemma wasm_digests_Inr:
  assumes "proper_disk d" "wasm_digests h d dir = Inr cur"
  obtains files where "list_wasm_files h d dir = Inr files" "map fst cur = map last files"
    "hash_all h d files = Inr cur" "distinct (map fst cur)"
proof -
  obtain files where f: "list_wasm_files h d dir = Inr files" "hash_all h d files = Inr cur"
    using assms(2) by (auto simp: wasm_digests_def)
  then have "map fst cur = map last files" by (auto simp: hash_all_Inr)
  with f list_wasm_files_Inr(4) [OF assms(1) f(1)] show thesis by (intro that) simp_all
qed

lemma distinct_keys_eq:
  assumes "distinct (map fst xs)" "set xs = set ys" "map fst xs = map fst ys"
  shows "xs = ys"
proof (rule nth_equalityI)
  show l: "length xs = length ys" using assms(3) by (metis length_map)
  fix i assume i: "i < length xs"
  have "fst (xs ! i) = fst (ys ! i)" using assms(3) i l by (metis nth_map)
  moreover have "xs ! i \<in> set xs" "ys ! i \<in> set xs" using i l assms(2) nth_mem [of i xs] nth_mem [of i ys] by auto
  ultimately show "xs ! i = ys ! i" using eq_key_imp_eq_value [OF assms(1)] by (metis prod.collapse)
qed

text \<open>Two listings with the same entries are the same list.\<close>

lemma wasm_digests_unique:
  assumes "proper_disk d1" "proper_disk d2"
    and "wasm_digests h d1 dir = Inr cur1" "wasm_digests h d2 dir = Inr cur2"
    and "set cur1 = set cur2"
  shows "cur1 = cur2"
proof -
  obtain f1 where f1: "list_wasm_files h d1 dir = Inr f1" "map fst cur1 = map last f1" "distinct (map fst cur1)"
    using assms(1,3) by (rule wasm_digests_Inr)
  obtain f2 where f2: "list_wasm_files h d2 dir = Inr f2" "map fst cur2 = map last f2" "distinct (map fst cur2)"
    using assms(2,4) by (rule wasm_digests_Inr)
  note l1 = list_wasm_files_Inr [OF assms(1) f1(1)] and l2 = list_wasm_files_Inr [OF assms(2) f2(1)]
  have dir: "f = map (\<lambda>n. dir @ [n]) (map last f)" if "\<forall>p \<in> set f. wasm_path dir p" for f
    using that by (induction f) (auto dest: wasm_pathD)
  have "set (map last f1) = set (map last f2)" using f1(2) f2(2) assms(5) by (metis list.set_map)
  moreover have e1: "f1 = map (\<lambda>n. dir @ [n]) (map last f1)" using l1(3) by (intro dir) auto
  moreover have e2: "f2 = map (\<lambda>n. dir @ [n]) (map last f2)" using l2(3) by (intro dir) auto
  ultimately have "set f1 = set f2" by (metis list.set_map)
  then have "f1 = f2" using l1(1,2) l2(1,2) by (intro sorted_distinct_set_unique)
  then have "map fst cur1 = map fst cur2" using f1(2) f2(2) by simp
  with f1(3) assms(5) show ?thesis by (rule distinct_keys_eq)
qed

section \<open>The comparison with a manifest\<close>

lemma check_subjects_Inr:
  "check_subjects cur subs = Inr u \<longleftrightarrow> (\<forall>s \<in> set subs. map_of cur (subject_name s) = Some (subject_sha256 s))"
  by (induction subs) (auto split: option.splits)

lemma check_listed_Inr:
  "check_listed subs names = Inr u \<longleftrightarrow> set names \<subseteq> subject_name ` set subs"
  by (induction names) (auto simp: list_ex_iff)

definition subjects_of :: "(string \<times> string) list \<Rightarrow> wasm_subject list" where
  "subjects_of cur = map (\<lambda>(name, hash). \<lparr>subject_name = name, subject_sha256 = hash\<rparr>) cur"

lemma subjects_of_set:
  "subject_name ` set (subjects_of cur) = fst ` set cur"
  "(\<forall>s \<in> set (subjects_of cur). P (subject_name s) (subject_sha256 s)) \<longleftrightarrow> (\<forall>(n, x) \<in> set cur. P n x)"
  by (force simp: subjects_of_def)+

lemma checks_match:
  assumes "distinct (map fst cur)" "distinct (map fst cur')"
  shows "check_subjects cur' (subjects_of cur) = Inr () \<and> check_listed (subjects_of cur) (map fst cur') = Inr ()
    \<longleftrightarrow> set cur = set cur'"
proof -
  have "check_subjects cur' (subjects_of cur) = Inr () \<longleftrightarrow> set cur \<subseteq> set cur'"
    using assms(2) subjects_of_set(2) [of cur "\<lambda>n x. (n, x) \<in> set cur'"] by (auto simp: check_subjects_Inr)
  moreover have "check_listed (subjects_of cur) (map fst cur') = Inr () \<longleftrightarrow> fst ` set cur' \<subseteq> fst ` set cur"
    by (simp add: check_listed_Inr subjects_of_set(1))
  moreover have "set cur' \<subseteq> set cur" if sub: "set cur \<subseteq> set cur'" "fst ` set cur' \<subseteq> fst ` set cur"
  proof
    fix x assume x: "x \<in> set cur'"
    then obtain y where y: "y \<in> set cur" "fst y = fst x" using sub(2) by force
    then have "snd y = snd x"
      using sub(1) x eq_key_imp_eq_value [OF assms(2), of "fst x" "snd y" "snd x"] by (metis prod.collapse subsetD)
    then have "x = y" using y(2) by (simp add: prod_eq_iff)
    with y show "x \<in> set cur" by simp
  qed
  moreover have "set cur = set cur' \<Longrightarrow> fst ` set cur' \<subseteq> fst ` set cur" by simp
  ultimately show ?thesis by blast
qed

lemma collect_artifacts_eq:
  "collect_artifacts h d dir = Inr subs \<longleftrightarrow> (\<exists>cur. wasm_digests h d dir = Inr cur \<and> cur \<noteq> [] \<and> subs = subjects_of cur)"
proof -
  have "hash_all h d fs = Inr cur \<Longrightarrow> fs = [] \<longleftrightarrow> cur = []" for fs cur by (auto simp: hash_all_Inr)
  then show ?thesis by (auto simp: collect_artifacts_def wasm_digests_def subjects_of_def)
qed

section \<open>Frames\<close>

definition same_at :: "disk \<Rightarrow> disk \<Rightarrow> path \<Rightarrow> bool" where
  "same_at d d' p \<longleftrightarrow> map_of d p = map_of d' p"

lemma same_at_reads:
  assumes "same_at d d' p"
  shows "is_file d p = is_file d' p" "is_dir d p = is_dir d' p" "path_exists d p = path_exists d' p"
    "read_to_string h d p = read_to_string h d' p" "hash_file h d p = hash_file h d' p"
  using assms
  by (simp_all add: same_at_def is_file_def is_dir_def path_exists_def read_to_string_def hash_file_def read_bytes_def)

definition build_files :: "string list" where
  "build_files = [''Cargo.toml'', ''Cargo.lock'', ''rust-toolchain.toml'']"

definition same_build_files :: "disk \<Rightarrow> disk \<Rightarrow> bool" where
  "same_build_files d d' \<longleftrightarrow> (\<forall>root. \<forall>f \<in> set build_files. same_at d d' (root @ [f]))"

lemma collect_metadata_frame:
  assumes "same_build_files d d'"
  shows "collect_metadata h d root = collect_metadata h d' root"
proof -
  have "load_toml h d root f = load_toml h d' root f" "is_file d (root @ [f]) = is_file d' (root @ [f])"
    if "f \<in> set build_files" for f
  proof -
    have "same_at d d' (root @ [f])" using assms that by (simp add: same_build_files_def)
    then show "load_toml h d root f = load_toml h d' root f" "is_file d (root @ [f]) = is_file d' (root @ [f])"
      by (simp_all add: load_toml_def same_at_reads [of d d'])
  qed
  then show ?thesis
    by (simp add: collect_metadata_def toolchain_channel_def soroban_sdk_version_def profile_from_workspace_def
        build_files_def)
qed

lemma walk_up_frame: "same_build_files d d' \<Longrightarrow> walk_up h d dir = walk_up h d' dir"
proof (induction h d dir rule: walk_up.induct)
  case (1 h d dir)
  have "same_at d d' (dir @ [''Cargo.toml''])" using 1(2) by (simp add: same_build_files_def build_files_def)
  then have "declares_workspace h d dir = declares_workspace h d' dir"
    by (simp add: declares_workspace_def same_at_reads [of d d'] Let_def)
  with 1 show ?case by (simp add: walk_up.simps [of h d] walk_up.simps [of h d'])
qed

lemma resolve_root_frame:
  assumes "same_build_files d d'" "same_at d d' dir"
  shows "resolve_root h d dir ws = resolve_root h d' dir ws"
  using walk_up_frame [OF assms(1), of h dir] same_at_reads(3) [OF assms(2)]
  by (simp add: resolve_root_def find_workspace_root_def split: option.split)

section \<open>Writing\<close>

lemma map_of_drop: "map_of (filter (\<lambda>(q, _). q \<noteq> p) d) = (map_of d)(p := None)"
  by (rule ext, induction d) auto

lemma map_of_put [simp]: "map_of (put_file p c d) = (map_of d)(p \<mapsto> FileNode c)"
  by (simp add: put_file_def map_of_drop)

lemma proper_put: "proper_disk d \<Longrightarrow> proper_disk (put_file p c d)"
  and proper_drop: "proper_disk d \<Longrightarrow> proper_disk (filter (\<lambda>(q, _). q \<noteq> p) d)"
  by (auto simp: proper_disk_def put_file_def distinct_map intro: inj_on_subset)

definition tmp_of :: "path \<Rightarrow> path" where
  "tmp_of p = butlast p @ [''.'' @ last p @ ''.tmp'']"

text \<open>An atomic write that succeeds replaces its file and nothing else that the directory listing keeps.\<close>

lemma write_atomic_Inr:
  assumes "write_atomic h p c d = (Inr u, d')" "proper_disk d"
  shows "proper_disk d'" "map_of d' = (map_of d)(tmp_of p := None, p \<mapsto> FileNode c)" "p \<noteq> []"
    "\<not> denied h p"
proof -
  define t where "t = tmp_of p"
  have p: "p \<noteq> []"
  proof
    assume "p = []"
    then show False using assms(1)
      by (auto simp: write_atomic_def write_file_def rename_file_def is_dir_def Let_def split: if_splits)
  qed
  have w: "write_file h t c d = (Inr (), put_file t c d)"
    "d' = put_file p c (filter (\<lambda>(r, _). r \<noteq> t) (put_file t c d))"
    using assms(1) p
    by (auto simp: write_atomic_def write_file_def rename_file_def t_def tmp_of_def Let_def
        split: if_splits option.splits node.splits)
  show "p \<noteq> []" by (rule p)
  show "\<not> denied h p" using assms(1) by (auto simp: write_atomic_def rename_file_def Let_def split: prod.splits sum.splits if_splits)
  show "proper_disk d'" unfolding w by (intro proper_put proper_drop assms(2))
  show "map_of d' = (map_of d)(tmp_of p := None, p \<mapsto> FileNode c)"
    by (simp add: w map_of_drop t_def [symmetric])
qed

lemma prepare_manifest_Inr:
  assumes "prepare_manifest h dir ws triple d = Inr (m, json)"
  obtains root cur meta where "is_dir d dir" "resolve_root h d dir ws = Inr root"
    "wasm_digests h d dir = Inr cur" "cur \<noteq> []" "collect_metadata h d root = Inr meta"
    "m = new_manifest h (subjects_of cur) meta triple" "manifest_to_json h m = Some json"
  using assms
  by (auto simp: prepare_manifest_def validate_release_dir_def collect_artifacts_eq Let_def split: if_splits)

lemma generate_Inr:
  assumes "generate h dir None ws triple d = (Inr m, d')" "proper_disk d"
  obtains json where "prepare_manifest h dir ws triple d = Inr (m, json)" "proper_disk d'"
    "map_of d' (dir @ [MANIFEST_FILENAME]) = Some (FileNode (json @ [CHR 0x0A]))"
    "\<And>p. p \<notin> {dir @ [MANIFEST_FILENAME], dir @ [SHASUMS_FILENAME], dir @ [''.provenance.json.tmp''],
       dir @ [''.SHASUMS.tmp'']} \<Longrightarrow> same_at d d' p"
    "\<not> denied h (dir @ [MANIFEST_FILENAME])"
proof -
  obtain json d1 where g: "prepare_manifest h dir ws triple d = Inr (m, json)"
    "write_atomic h (dir @ [MANIFEST_FILENAME]) (json @ [CHR 0x0A]) d = (Inr (), d1)"
    "write_atomic h (dir @ [SHASUMS_FILENAME]) (shasums_text (manifest_subject m)) d1 = (Inr (), d')"
    using assms(1)
    by (auto simp: generate_def Let_def split: sum.splits prod.splits)
  note w1 = write_atomic_Inr [OF g(2) assms(2)]
  note w2 = write_atomic_Inr [OF g(3) w1(1)]
  have t: "tmp_of (dir @ [''provenance.json'']) = dir @ [''.provenance.json.tmp'']"
    "tmp_of (dir @ [''SHASUMS'']) = dir @ [''.SHASUMS.tmp'']"
    by (simp_all add: tmp_of_def)
  show thesis
    by (rule that [OF g(1) w2(1) _ _ w1(4)])
      (auto simp: w2(2) w1(2) t same_at_def MANIFEST_FILENAME_def SHASUMS_FILENAME_def)
qed

section \<open>The gate\<close>

lemma check_environment_same:
  "profile_to_json h (meta_profile meta) = Some x \<Longrightarrow>
     check_environment h (manifest_build (new_manifest h subs meta triple)) meta triple = Inr ()"
  by (simp add: check_environment_def check_field_def new_manifest_def)

text \<open>What the tool writes is neither an artifact nor an input of the build.\<close>

lemma wasm_path_append: "wasm_path dir (root @ [f]) \<longleftrightarrow> root = dir \<and> extension f = Some ''wasm''"
  by (auto simp: wasm_path_def)

lemma extensions [simp]:
  "extension ''provenance.json'' = Some ''json''" "extension ''SHASUMS'' = None"
  "extension ''.provenance.json.tmp'' = Some ''tmp''" "extension ''.SHASUMS.tmp'' = Some ''tmp''"
  "extension ''Cargo.toml'' = Some ''toml''" "extension ''Cargo.lock'' = Some ''lock''"
  "extension ''rust-toolchain.toml'' = Some ''toml''"
  by (simp_all add: extension_def)

lemma not_wasm:
  "\<not> wasm_path dir dir" "f \<in> set build_files \<Longrightarrow> \<not> wasm_path dir (root @ [f])"
  "\<not> wasm_path dir (dir @ [MANIFEST_FILENAME])"
  by (auto simp: wasm_path_append build_files_def MANIFEST_FILENAME_def)
    (metis append_self_conv wasm_pathD not_Cons_self2)

lemma wasm_digests_frame:
  assumes "proper_disk d" "proper_disk d'" "\<And>p. wasm_path dir p \<Longrightarrow> same_at d d' p" "is_dir d dir = is_dir d' dir"
  shows "wasm_digests h d dir = wasm_digests h d' dir"
proof (cases "denied h dir \<or> \<not> is_dir d dir")
  case True
  then show ?thesis using assms(4) by (auto simp: wasm_digests_def list_wasm_files_def)
next
  case False
  then obtain f f' where f: "list_wasm_files h d dir = Inr f" "list_wasm_files h d' dir = Inr f'"
    using assms(4) by (auto simp: list_wasm_files_def)
  note l = list_wasm_files_Inr [OF assms(1) f(1)] and l' = list_wasm_files_Inr [OF assms(2) f(2)]
  have "set f = set f'" using assms(3) same_at_reads(1) by (auto simp: l(3) l'(3))
  then have "f = f'" using l(1,2) l'(1,2) by (intro sorted_distinct_set_unique)
  moreover have "hash_all h d ps = hash_all h d' ps" if "set ps \<subseteq> set f" for ps
    using that
  proof (induction ps)
    case (Cons p ps)
    then have "same_at d d' p" using assms(3) l(3) by auto
    with Cons show ?case by (simp add: same_at_reads(5) [of d d'])
  qed simp
  ultimately show ?thesis using f by (simp add: wasm_digests_def)
qed

text \<open>The two checks of the subjects together are equality of what was recorded and what is there.\<close>

lemma subjects_checked:
  assumes "proper_disk d" "proper_disk d2" "wasm_digests h d dir = Inr cur" "wasm_digests h d2 dir = Inr cur'"
    and "is_dir d dir"
  shows "check_subjects cur' (subjects_of cur) = Inr () \<and> check_listed (subjects_of cur) (map fst cur') = Inr () \<longleftrightarrow>
    cur' = cur"
proof -
  have "distinct (map fst cur)" "distinct (map fst cur')"
    using wasm_digests_Inr [OF assms(1,3)] wasm_digests_Inr [OF assms(2,4)] by metis+
  from checks_match [OF this] show ?thesis
    using wasm_digests_unique [OF assms(2,1,4,3)] by auto
qed

text \<open>After generating, nothing the build reads has changed but for artifacts.\<close>

lemma later_build:
  assumes off: "\<And>p. p \<notin> {dir @ [MANIFEST_FILENAME], dir @ [SHASUMS_FILENAME], dir @ [''.provenance.json.tmp''],
       dir @ [''.SHASUMS.tmp'']} \<Longrightarrow> same_at d d1 p"
    and later: "\<And>p. wasm_path dir p \<or> same_at d1 d2 p"
  shows "same_at d d2 dir" "same_build_files d d2"
proof -
  have step: "same_at d d2 p" if "\<not> wasm_path dir p" "same_at d d1 p" for p
    using later [of p] that by (simp add: same_at_def)
  show "same_at d d2 dir" by (rule step [OF not_wasm(1) off]) simp
  show "same_build_files d d2"
    unfolding same_build_files_def
  proof (intro allI ballI)
    fix root f assume f: "f \<in> set build_files"
    show "same_at d d2 (root @ [f])"
      by (rule step [OF not_wasm(2) [OF f] off])
        (use f in \<open>auto simp: build_files_def MANIFEST_FILENAME_def SHASUMS_FILENAME_def\<close>)
  qed
qed

lemma gate:
  assumes "proper_disk d" and gen: "generate h dir None ws triple d = (Inr m, d1)"
    and json: "\<And>body. manifest_to_json h m = Some body \<Longrightarrow>
      utf8 (body @ [CHR 0x0A]) \<and> manifest_from_json h (body @ [CHR 0x0A]) = Some m"
    and prof: "profile_to_json h (info_profile (manifest_build m)) = Some x"
    and later: "proper_disk d2" "\<And>p. wasm_path dir p \<or> same_at d1 d2 p"
  shows "verify h dir None ws triple d2 = Inr n \<longleftrightarrow>
    wasm_digests h d2 dir = wasm_digests h d dir \<and> n = length (manifest_subject m)"
proof -
  obtain body where pre: "prepare_manifest h dir ws triple d = Inr (m, body)" and d1: "proper_disk d1"
    and mf: "map_of d1 (dir @ [MANIFEST_FILENAME]) = Some (FileNode (body @ [CHR 0x0A]))"
    and off: "\<And>p. p \<notin> {dir @ [MANIFEST_FILENAME], dir @ [SHASUMS_FILENAME], dir @ [''.provenance.json.tmp''],
       dir @ [''.SHASUMS.tmp'']} \<Longrightarrow> same_at d d1 p"
    and ok: "\<not> denied h (dir @ [MANIFEST_FILENAME])"
    by (rule generate_Inr [OF gen assms(1)], rule that)
  obtain root cur meta where p: "is_dir d dir" "resolve_root h d dir ws = Inr root"
    "wasm_digests h d dir = Inr cur" "cur \<noteq> []" "collect_metadata h d root = Inr meta"
    "m = new_manifest h (subjects_of cur) meta triple" "manifest_to_json h m = Some body"
    using pre by (rule prepare_manifest_Inr)
  note dir = later_build(1) [OF off later(2)] and build = later_build(2) [OF off later(2)]
  have "map_of d2 (dir @ [MANIFEST_FILENAME]) = Some (FileNode (body @ [CHR 0x0A]))"
    using mf later(2) [of "dir @ [MANIFEST_FILENAME]"] not_wasm(3) [of dir] by (simp add: same_at_def)
  then have stored: "is_file d2 (dir @ [MANIFEST_FILENAME])"
    "read_to_string h d2 (dir @ [MANIFEST_FILENAME]) = Inr (body @ [CHR 0x0A])"
    using ok json [OF p(7)] by (simp_all add: is_file_def read_to_string_def read_bytes_def)
  have env: "resolve_root h d2 dir ws = Inr root" "collect_metadata h d2 root = Inr meta"
    using resolve_root_frame [OF build dir, of h ws] collect_metadata_frame [OF build, of h root] p(2,5) by simp_all
  have "profile_to_json h (meta_profile meta) = Some x" using prof p(6) by (simp add: new_manifest_def)
  note same = check_environment_same [OF this, of "subjects_of cur" triple, folded p(6)]
  have subs: "manifest_subject m = subjects_of cur" by (simp add: p(6) new_manifest_def)
  have "verify h dir None ws triple d2 = Inr n \<longleftrightarrow>
      (\<exists>cur'. wasm_digests h d2 dir = Inr cur' \<and> check_subjects cur' (subjects_of cur) = Inr () \<and>
         check_listed (subjects_of cur) (map fst cur') = Inr ()) \<and> n = length (subjects_of cur)"
    using p(1) dir stored env same json [OF p(7)]
    by (auto simp: verify_def validate_release_dir_def path_exists_def same_at_reads [of d d2] wasm_digests_def subs Let_def)
  also have "\<dots> \<longleftrightarrow> (\<exists>cur'. wasm_digests h d2 dir = Inr cur' \<and> cur' = cur) \<and> n = length (subjects_of cur)"
    using subjects_checked [OF assms(1) later(1) p(3) _ p(1)] by blast
  finally show ?thesis using p(3) subs by auto
qed

text \<open>Generating does not change what it recorded.\<close>

lemma generate_digests:
  assumes gen: "generate h dir None ws triple d = (Inr m, d1)" and d: "proper_disk d"
  shows "wasm_digests h d1 dir = wasm_digests h d dir"
proof (rule generate_Inr [OF gen d])
  fix json
  assume d1: "proper_disk d1" and off: "\<And>p. p \<notin> {dir @ [MANIFEST_FILENAME], dir @ [SHASUMS_FILENAME],
      dir @ [''.provenance.json.tmp''], dir @ [''.SHASUMS.tmp'']} \<Longrightarrow> same_at d d1 p"
  have "same_at d d1 p" if "wasm_path dir p" for p
    by (rule off) (use that in \<open>auto simp: wasm_path_append MANIFEST_FILENAME_def SHASUMS_FILENAME_def\<close>)
  moreover have "is_dir d dir = is_dir d1 dir" by (rule same_at_reads(2) [OF off]) simp
  ultimately show ?thesis using wasm_digests_frame [OF d d1] by metis
qed

end
