(* ===== verification/Command_Line.thy ===== *)
theory Command_Line
  imports Release_Gate "HOL-Library.Sublist"
begin

text \<open>
  The command line of the provenance tool, \<^verbatim>\<open>tools/provenance/src/main.rs\<close>: reading the
  arguments, the two commands and the exit code. The loop over the arguments and the loop of
  \<open>find_workspace_root\<close> are given as they are written, as partial functions, and shown to
  return what the recursions return that the rest of the model uses.
\<close>

section \<open>Options\<close>

record tool_options =
  opt_release_dir :: "string option"
  opt_manifest :: "string option"
  opt_workspace_root :: "string option"
  opt_target :: string

definition no_options :: tool_options where
  "no_options = \<lparr>opt_release_dir = None, opt_manifest = None, opt_workspace_root = None, opt_target = DEFAULT_TARGET\<rparr>"

text \<open>How reading the arguments ends: help was asked for, a usage error, or the options.\<close>

datatype arguments =
  HelpAsked | ValueMissing string | UnknownOption string | UnexpectedArgument string | Options tool_options

text \<open>\<open>split_once\<close> at the first equals sign.\<close>

definition split_key :: "string \<Rightarrow> string \<times> string option" where
  "split_key arg =
     (if CHR ''='' \<in> set arg
      then (takeWhile (\<lambda>c. c \<noteq> CHR ''='') arg, Some (drop 1 (dropWhile (\<lambda>c. c \<noteq> CHR ''='') arg)))
      else (arg, None))"

definition takes_value :: "string \<Rightarrow> bool" where
  "takes_value key = (key \<in> {''--manifest'', ''--workspace-root'', ''--target''})"

definition set_option :: "string \<Rightarrow> string \<Rightarrow> tool_options \<Rightarrow> tool_options" where
  "set_option key v opts =
     (if key = ''--manifest'' then opts\<lparr>opt_manifest := Some v\<rparr>
      else if key = ''--workspace-root'' then opts\<lparr>opt_workspace_root := Some v\<rparr>
      else opts\<lparr>opt_target := v\<rparr>)"

definition option_like :: "string \<Rightarrow> bool" where
  "option_like key = (key \<noteq> [] \<and> hd key = CHR ''-'')"

text \<open>The loop as it is written, over an index into the arguments.\<close>

partial_function (option) argument_loop :: "string list \<Rightarrow> nat \<Rightarrow> tool_options \<Rightarrow> arguments option" where
  "argument_loop rest i opts =
     (if i < length rest then
        (let arg = rest ! i in
         if arg = ''-h'' \<or> arg = ''--help'' then Some HelpAsked
         else
           (let (key, inline) = split_key arg in
            if takes_value key then
              (case inline of
                 Some v \<Rightarrow> argument_loop rest (i + 1) (set_option key v opts)
               | None \<Rightarrow>
                   (if i + 1 < length rest
                    then argument_loop rest (i + 1 + 1) (set_option key (rest ! (i + 1)) opts)
                    else Some (ValueMissing key)))
            else if option_like key then Some (UnknownOption key)
            else if opt_release_dir opts \<noteq> None then Some (UnexpectedArgument key)
            else argument_loop rest (i + 1) (opts\<lparr>opt_release_dir := Some key\<rparr>)))
      else Some (Options opts))"

text \<open>The same by recursion on the arguments.\<close>

fun read_arguments :: "string list \<Rightarrow> tool_options \<Rightarrow> arguments" where
  "read_arguments [] opts = Options opts"
| "read_arguments (arg # rest) opts =
     (if arg = ''-h'' \<or> arg = ''--help'' then HelpAsked
      else
        let (key, inline) = split_key arg in
        if takes_value key then
          (case inline of
             Some v \<Rightarrow> read_arguments rest (set_option key v opts)
           | None \<Rightarrow>
               (case rest of
                  v # rest' \<Rightarrow> read_arguments rest' (set_option key v opts)
                | [] \<Rightarrow> ValueMissing key))
        else if option_like key then UnknownOption key
        else if opt_release_dir opts \<noteq> None then UnexpectedArgument key
        else read_arguments rest (opts\<lparr>opt_release_dir := Some key\<rparr>))"

section \<open>Commands and exit codes\<close>

definition EXIT_SUCCESS :: nat where "EXIT_SUCCESS = 0"
definition EXIT_FAILURE :: nat where "EXIT_FAILURE = 1"
definition EXIT_USAGE :: nat where "EXIT_USAGE = 2"

text \<open>\<open>resolve\<close> is the operating system's reading of a path text.\<close>

definition dispatch ::
    "('v, 'j) toolbox \<Rightarrow> (string \<Rightarrow> path) \<Rightarrow> string list \<Rightarrow> bool \<Rightarrow> disk \<Rightarrow> nat \<times> disk" where
  "dispatch h resolve rest is_generate d =
     (case read_arguments rest no_options of
        HelpAsked \<Rightarrow> (EXIT_SUCCESS, d)
      | ValueMissing _ \<Rightarrow> (EXIT_USAGE, d)
      | UnknownOption _ \<Rightarrow> (EXIT_USAGE, d)
      | UnexpectedArgument _ \<Rightarrow> (EXIT_USAGE, d)
      | Options opts \<Rightarrow>
          (case opt_release_dir opts of
             None \<Rightarrow> (EXIT_USAGE, d)
           | Some dir \<Rightarrow>
               if is_generate then
                 (case generate h (resolve dir) (map_option resolve (opt_manifest opts))
                         (map_option resolve (opt_workspace_root opts)) (opt_target opts) d of
                    (Inr _, d') \<Rightarrow> (EXIT_SUCCESS, d')
                  | (Inl _, d') \<Rightarrow> (EXIT_FAILURE, d'))
               else
                 (case verify h (resolve dir) (map_option resolve (opt_manifest opts))
                         (map_option resolve (opt_workspace_root opts)) (opt_target opts) d of
                    Inr _ \<Rightarrow> (EXIT_SUCCESS, d)
                  | Inl _ \<Rightarrow> (EXIT_FAILURE, d))))"

definition main_tool :: "('v, 'j) toolbox \<Rightarrow> (string \<Rightarrow> path) \<Rightarrow> string list \<Rightarrow> disk \<Rightarrow> nat \<times> disk" where
  "main_tool h resolve argv d =
     (case argv of
        [] \<Rightarrow> (EXIT_USAGE, d)
      | cmd # rest \<Rightarrow>
          if cmd \<in> {''-h'', ''--help'', ''help''} then (EXIT_SUCCESS, d)
          else if cmd = ''generate'' then dispatch h resolve rest True d
          else if cmd = ''verify'' then dispatch h resolve rest False d
          else (EXIT_USAGE, d))"

section \<open>The loops return\<close>

text \<open>Every iteration takes an argument or two, so the loop is the recursion.\<close>

lemma argument_loop_returns: "argument_loop rest i opts = Some (read_arguments (drop i rest) opts)"
proof (induction "length rest - i" arbitrary: i opts rule: less_induct)
  case less
  show ?case
  proof (cases "i < length rest")
    case True
    obtain key inline where k: "split_key (rest ! i) = (key, inline)" by (cases "split_key (rest ! i)")
    have d: "drop i rest = rest ! i # drop (Suc i) rest" using True by (simp add: Cons_nth_drop_Suc)
    have one: "argument_loop rest (Suc i) o' = Some (read_arguments (drop (Suc i) rest) o')" for o'
      using less [of "Suc i" o'] True by simp
    have two: "argument_loop rest (Suc (Suc i)) o' = Some (read_arguments (drop (Suc (Suc i)) rest) o')" for o'
      using less [of "Suc (Suc i)" o'] True by simp
    have "drop (Suc i) rest = (if Suc i < length rest then rest ! Suc i # drop (Suc (Suc i)) rest else [])"
      by (simp add: Cons_nth_drop_Suc)
    then show ?thesis
      unfolding argument_loop.simps [of rest i opts] d read_arguments.simps Let_def k prod.case
      by (cases inline; cases "Suc i < length rest") (simp_all add: True one two)
  next
    case False
    then show ?thesis by (simp add: argument_loop.simps [of rest i opts])
  qed
qed

text \<open>The search for the workspace root as it is written.\<close>

partial_function (option) walk_loop :: "('v, 'j) toolbox \<Rightarrow> disk \<Rightarrow> path \<Rightarrow> path option option" where
  "walk_loop h d dir =
     (if declares_workspace h d dir then Some (Some dir)
      else if dir = [] then Some None
      else walk_loop h d (butlast dir))"

lemma walk_loop_returns: "walk_loop h d dir = Some (walk_up h d dir)"
  by (induction h d dir rule: walk_up.induct) (simp add: walk_loop.simps walk_up.simps)

text \<open>It stops at the nearest ancestor that declares a workspace.\<close>

lemma walk_up_nearest:
  "walk_up h d dir = Some r \<longleftrightarrow>
     prefix r dir \<and> declares_workspace h d r \<and>
     (\<forall>q. prefix q dir \<longrightarrow> length r < length q \<longrightarrow> \<not> declares_workspace h d q)"
proof (induction h d dir rule: walk_up.induct)
  case (1 h d dir)
  consider "declares_workspace h d dir" | "\<not> declares_workspace h d dir" "dir = []"
    | xs x where "\<not> declares_workspace h d dir" "dir = xs @ [x]"
    by (cases dir rule: rev_cases) auto
  then show ?case
  proof cases
    case 1
    have "prefix r dir \<Longrightarrow> \<not> length r < length dir \<Longrightarrow> r = dir" by (auto simp: prefix_def)
    then show ?thesis using 1 by (auto simp: walk_up.simps [of h d dir] dest: prefix_length_le)
  next
    case 2
    then show ?thesis using walk_up.simps [of h d dir] by auto
  next
    case 3
    then have IH: "walk_up h d xs = Some r \<longleftrightarrow> prefix r xs \<and> declares_workspace h d r \<and>
        (\<forall>q. prefix q xs \<longrightarrow> length r < length q \<longrightarrow> \<not> declares_workspace h d q)"
      using 1(1) by simp
    have "walk_up h d dir = walk_up h d xs" using 3 by (subst walk_up.simps) simp
    then show ?thesis using 3 by (auto simp: IH)
  qed
qed

section \<open>Exit codes\<close>

lemma dispatch_verify:
  "dispatch h resolve rest False d = (code, d') \<Longrightarrow> d' = d"
  by (auto simp: dispatch_def split: arguments.splits option.splits sum.splits)

text \<open>
  The exit code is the verdict: a usage error writes nothing, \<open>verify\<close> never writes, and each command
  exits with 0 exactly when the library call it makes succeeds.
\<close>

lemma exit_code_is_verdict:
  assumes "main_tool h resolve argv d = (code, d')"
  shows "code \<in> {0, 1, 2} \<and> (code = 2 \<longrightarrow> d' = d) \<and>
    (\<forall>rest opts dir. read_arguments rest no_options = Options opts \<longrightarrow> opt_release_dir opts = Some dir \<longrightarrow>
      (argv = ''verify'' # rest \<longrightarrow> d' = d \<and>
         code = (if \<exists>n. verify h (resolve dir) (map_option resolve (opt_manifest opts))
           (map_option resolve (opt_workspace_root opts)) (opt_target opts) d = Inr n then 0 else 1)) \<and>
      (argv = ''generate'' # rest \<longrightarrow>
         code = (if \<exists>m. generate h (resolve dir) (map_option resolve (opt_manifest opts))
           (map_option resolve (opt_workspace_root opts)) (opt_target opts) d = (Inr m, d') then 0 else 1)))"
  using assms
  by (auto simp: main_tool_def dispatch_def EXIT_SUCCESS_def EXIT_FAILURE_def EXIT_USAGE_def
      split: list.splits if_splits arguments.splits option.splits prod.splits sum.splits)

end
