(* ===== verification/Release_Sample.thy ===== *)
theory Release_Sample
  imports Command_Line
begin

text \<open>
  A release directory with one artifact and a toolbox, on which \<open>generate\<close> succeeds. The
  TOML values of the toolbox are the keys that lead to them, and its JSON library knows one
  manifest, the one that is generated.
\<close>

definition sample_meta :: "unit build_metadata" where
  "sample_meta = \<lparr> meta_git_revision = ''07fd236b'', meta_git_ref = None, meta_git_dirty = False,
     meta_toolchain_channel = None, meta_rustc = ''1.97.1'', meta_cargo = ''1.97.1'',
     meta_soroban_sdk = ''27.0.5'', meta_host = ''x86_64'', meta_profile = Map.empty \<rparr>"

definition sample_subjects :: "wasm_subject list" where
  "sample_subjects = [\<lparr>subject_name = ''a.wasm'', subject_sha256 = ''bytes''\<rparr>]"

definition sample_commands :: "string list \<Rightarrow> path option \<Rightarrow> command_outcome" where
  "sample_commands argv cwd =
     (if argv = [''git'', ''rev-parse'', ''HEAD''] then Exited True '''' ''07fd236b''
      else if argv = [''rustc'', ''-vV''] then Exited True '''' ''host: x86_64''
      else if hd argv = ''git'' then Exited True '''' ''''
      else Exited True '''' ''1.97.1'')"

definition blank_tools :: "(string, unit) toolbox" where
  "blank_tools = \<lparr> sha256_digest = (\<lambda>b. b), hex_encode = (\<lambda>b. b),
     parse_toml = Inr, toml_get = (\<lambda>v k. Some k),
     toml_str = (\<lambda>v. if v = ''name'' then Some ''soroban-sdk'' else if v = ''version'' then Some ''27.0.5'' else None),
     toml_array = (\<lambda>v. Some [v]), toml_table = (\<lambda>v. None), toml_to_json = (\<lambda>v. Some ()),
     manifest_to_json = (\<lambda>m. Some ''{}''), manifest_from_json = (\<lambda>s. None),
     profile_to_json = (\<lambda>p. Some ''{}''), run_command = sample_commands, denied = (\<lambda>p. False), clock = 0 \<rparr>"

definition sample_manifest :: "unit manifest" where
  "sample_manifest = new_manifest blank_tools sample_subjects sample_meta DEFAULT_TARGET"

definition sample_tools :: "(string, unit) toolbox" where
  "sample_tools = blank_tools\<lparr>manifest_from_json := (\<lambda>s. Some sample_manifest)\<rparr>"

definition sample_disk :: disk where
  "sample_disk =
     [([''ws''], DirNode), ([''ws'', ''Cargo.toml''], FileNode ''''), ([''ws'', ''Cargo.lock''], FileNode ''''),
      ([''ws'', ''out''], DirNode), ([''ws'', ''out'', ''a.wasm''], FileNode ''bytes''),
      ([''ws'', ''out'', ''notes.txt''], FileNode '''')]"

text \<open>The metadata the tool collects there.\<close>

lemma sample_metadata: "collect_metadata sample_tools sample_disk [''ws''] = Inr sample_meta"
proof -
  have t: "run_command sample_tools = sample_commands" "denied sample_tools = (\<lambda>p. False)"
    "parse_toml sample_tools = Inr" "toml_get sample_tools = (\<lambda>v k. Some k)" "toml_table sample_tools = (\<lambda>v. None)"
    "toml_array sample_tools = (\<lambda>v. Some [v])"
    "toml_str sample_tools ''name'' = Some ''soroban-sdk''" "toml_str sample_tools ''version'' = Some ''27.0.5''"
    by (simp_all add: sample_tools_def blank_tools_def)
  have git: "run_git sample_tools [''rev-parse'', ''HEAD''] [''ws''] = Inr ''07fd236b''"
    "run_git sample_tools [''branch'', ''--show-current''] [''ws''] = Inr []"
    "run_git sample_tools [''status'', ''--porcelain''] [''ws''] = Inr []"
    by (simp_all add: run_git_def t(1) sample_commands_def utf8_def trim_def blank_def)
  have vers: "tool_version sample_tools ''rustc'' = Inr ''1.97.1''" "tool_version sample_tools ''cargo'' = Inr ''1.97.1''"
    by (simp_all add: tool_version_def t(1) sample_commands_def utf8_def trim_def blank_def)
  have triple: "host_triple sample_tools = Inr ''x86_64''"
    by (simp add: host_triple_def t(1) sample_commands_def utf8_def trim_def blank_def host_line_def)
  have toml: "load_toml sample_tools sample_disk [''ws''] ''Cargo.toml'' = Inr []"
    "load_toml sample_tools sample_disk [''ws''] ''Cargo.lock'' = Inr []"
    by (simp_all add: load_toml_def read_to_string_def read_bytes_def t(2,3) sample_disk_def utf8_def)
  have channel: "toolchain_channel sample_tools sample_disk [''ws''] = Inr None"
    by (simp add: toolchain_channel_def is_file_def sample_disk_def)
  have sdk: "soroban_sdk_version sample_tools sample_disk [''ws''] = Inr ''27.0.5''"
    "profile_from_workspace sample_tools sample_disk [''ws''] = Inr Map.empty"
    by (simp_all add: soroban_sdk_version_def profile_from_workspace_def toml t)
  show ?thesis
    by (simp add: collect_metadata_def git_metadata_def git vers triple channel sdk sample_meta_def)
qed

lemma sample_prepared:
  "\<exists>d. generate sample_tools [''ws'', ''out''] None None DEFAULT_TARGET sample_disk = (Inr sample_manifest, d)"
proof -
  have "declares_workspace sample_tools sample_disk [''ws'']" "\<not> declares_workspace sample_tools sample_disk [''ws'', ''out'']"
    by (simp_all add: declares_workspace_def sample_disk_def is_file_def read_to_string_def read_bytes_def utf8_def
        sample_tools_def blank_tools_def)
  then have root: "resolve_root sample_tools sample_disk [''ws'', ''out''] None = Inr [''ws'']"
    by (simp add: resolve_root_def find_workspace_root_def walk_up.simps path_exists_def is_dir_def is_file_def)
      (simp add: sample_disk_def sample_tools_def blank_tools_def)
  have dig: "wasm_digests sample_tools sample_disk [''ws'', ''out''] = Inr [(''a.wasm'', ''bytes'')]"
    by (simp add: wasm_digests_def list_wasm_files_def sample_disk_def sample_tools_def blank_tools_def is_dir_def is_file_def
        extension_def hash_file_def read_bytes_def sha256_hex_def Let_def)
  note meta = sample_metadata
  have subs: "subjects_of [(''a.wasm'', ''bytes'')] = sample_subjects" by (simp add: subjects_of_def sample_subjects_def)
  have art: "collect_artifacts sample_tools sample_disk [''ws'', ''out''] = Inr sample_subjects"
    using dig subs by (auto simp: collect_artifacts_eq)
  have "new_manifest sample_tools sample_subjects sample_meta DEFAULT_TARGET = sample_manifest"
    by (simp add: sample_manifest_def new_manifest_def now_rfc3339_def sample_tools_def blank_tools_def)
  then have prep: "prepare_manifest sample_tools [''ws'', ''out''] None DEFAULT_TARGET sample_disk = Inr (sample_manifest, ''{}'')"
    using root art meta
    by (simp add: prepare_manifest_def validate_release_dir_def path_exists_def Let_def)
      (simp add: is_dir_def is_file_def sample_disk_def sample_tools_def blank_tools_def)
  show ?thesis
    by (simp add: generate_def prep Let_def write_atomic_def write_file_def rename_file_def)
      (simp add: sample_disk_def is_dir_def put_file_def sample_tools_def blank_tools_def MANIFEST_FILENAME_def SHASUMS_FILENAME_def)
qed

end
