(* ===== verification/Event_Log.thy ===== *)
theory Event_Log
  imports Any_Calls
begin

text \<open>
  The events of \<^verbatim>\<open>contracts/stream/src/events.rs\<close> as a book of account. An auditor who sees only
  the events keeps a copy of the streams, the grants and the halt (\<open>books\<close>), enters each event
  (\<open>enter\<close>), and rejects one that does not fit: an id opened twice, a payment whose running total
  is off, a party that is not the stream's. Every entry point is shown to publish events that the
  auditor accepts and that bring the copy to the contract's own state (\<open>logged\<close>); a locale
  carries the contract from the entry points to the calls of the system.
\<close>

section \<open>The auditor\<close>

record books =
  b_streams :: "u64 \<rightharpoonup> stream"
  b_grants :: "u64 \<times> address \<rightharpoonup> delegate_grant"
  b_operator :: "address option"
  b_halted :: "u64 option"

definition blank_books :: books where
  "blank_books = \<lparr>b_streams = Map.empty, b_grants = Map.empty, b_operator = None, b_halted = None\<rparr>"

definition amend :: "u64 \<Rightarrow> (stream \<Rightarrow> bool) \<Rightarrow> (stream \<Rightarrow> stream) \<Rightarrow> books \<Rightarrow> books option" where
  "amend i fits change b =
     (case b_streams b i of
        None \<Rightarrow> None
      | Some s \<Rightarrow> if fits s then Some (b\<lparr>b_streams := (b_streams b)(i \<mapsto> change s)\<rparr>) else None)"

fun enter :: "event \<Rightarrow> books \<Rightarrow> books option" where
  "enter (StreamCreatedEvent i a r tkn d st en cl cc cp ct crv mode ref) b =
     (if b_streams b i \<noteq> None then None
      else Some (b\<lparr>b_streams := (b_streams b)(i \<mapsto> opened_stream a r tkn d st en cl mode cc cp ct ref crv)\<rparr>))"
| "enter (WithdrawnEvent i r amount so_far d st a pa pt) b =
     amend i (\<lambda>s. recipient s = r \<and> sender s = a \<and> deposited s = d \<and> 0 < amount \<and> so_far = withdrawn s + amount)
       (\<lambda>s. s\<lparr>withdrawn := withdrawn s + amount, status := st, paused_at := pa, paused_total := pt\<rparr>) b"
| "enter (CancelledEvent i a r refund vested_now taken en pa pt) b =
     amend i (\<lambda>s. recipient s = r \<and> sender s = a \<and> withdrawn s = taken \<and> 0 \<le> refund \<and>
         vested_now = deposited s - refund)
       (\<lambda>s. s\<lparr>deposited := deposited s - refund, end_time := en, paused_at := pa, paused_total := pt,
              status := Cancelled\<rparr>) b"
| "enter (PausedEvent i a at pt r) b =
     amend i (\<lambda>s. recipient s = r \<and> sender s = a \<and> status s = Active \<and> paused_total s = pt)
       (\<lambda>s. s\<lparr>paused_at := Some at, status := Paused\<rparr>) b"
| "enter (ResumedEvent i a length_of_pause pt r) b =
     amend i (\<lambda>s. recipient s = r \<and> sender s = a \<and> status s = Paused \<and> pt = paused_total s + length_of_pause)
       (\<lambda>s. s\<lparr>paused_total := pt, paused_at := None, status := Active\<rparr>) b"
| "enter (ToppedUpEvent i a amount d en r) b =
     amend i (\<lambda>s. recipient s = r \<and> sender s = a \<and> 0 < amount \<and> d = deposited s + amount \<and> end_time s \<le> en)
       (\<lambda>s. s\<lparr>deposited := deposited s + amount, end_time := en\<rparr>) b"
| "enter (RecipientTransferredEvent i old new a) b =
     amend i (\<lambda>s. recipient s = old \<and> sender s = a \<and> new \<noteq> old) (\<lambda>s. s\<lparr>recipient := new\<rparr>) b"
| "enter (DelegateGrantedEvent i g d m x) b =
     (case b_streams b i of
        None \<Rightarrow> None
      | Some s \<Rightarrow>
          if one_sided m \<and> g = (if and m sender_ops \<noteq> 0 then sender s else recipient s)
          then Some (b\<lparr>b_grants := (b_grants b)((i, d) \<mapsto> \<lparr>ops = m, expires_at = x\<rparr>)\<rparr>) else None)"
| "enter (DelegateRevokedEvent i g d) b =
     (case b_streams b i of
        None \<Rightarrow> None
      | Some s \<Rightarrow>
          if g = sender s \<or> g = recipient s then Some (b\<lparr>b_grants := (b_grants b)((i, d) := None)\<rparr>) else None)"
| "enter (TtlExtendedEvent i ledgers) b = amend i (\<lambda>s. \<not> is_terminal (status s)) (\<lambda>s. s) b"
| "enter (HaltOperatorSetEvent a) b =
     (if b_operator b \<noteq> None then None else Some (b\<lparr>b_operator := Some a\<rparr>))"
| "enter (ContractHaltedEvent a at) b =
     (if b_operator b = Some a \<and> b_halted b = None then Some (b\<lparr>b_halted := Some at\<rparr>) else None)"
| "enter (ContractResumedEvent a at length_of_halt) b =
     (case b_halted b of
        None \<Rightarrow> None
      | Some since \<Rightarrow>
          if b_operator b = Some a \<and> length_of_halt = saturating_sub_u64 at since
          then Some (b\<lparr>b_halted := None\<rparr>) else None)"

primrec audit :: "event list \<Rightarrow> books \<Rightarrow> books option" where
  "audit [] b = Some b"
| "audit (ev # evs) b = Option.bind (enter ev b) (audit evs)"

lemma audit_append: "audit (xs @ ys) b = Option.bind (audit xs b) (audit ys)"
proof (induction xs arbitrary: b)
  case (Cons ev xs)
  then show ?case by (cases "enter ev b") simp_all
qed simp

section \<open>What an accepted log says of the money\<close>

text \<open>The payments, top-ups and refunds of one stream in a log.\<close>

fun payment_of :: "u64 \<Rightarrow> event \<Rightarrow> int" where
  "payment_of i (WithdrawnEvent j r amount so_far d st a pa pt) = (if i = j then amount else 0)"
| "payment_of i ev = 0"

fun funding_of :: "u64 \<Rightarrow> event \<Rightarrow> int" where
  "funding_of i (StreamCreatedEvent j a r tkn d st en cl cc cp ct crv mode ref) = (if i = j then d else 0)"
| "funding_of i (ToppedUpEvent j a amount d en r) = (if i = j then amount else 0)"
| "funding_of i (CancelledEvent j a r refund vested_now taken en pa pt) = (if i = j then - refund else 0)"
| "funding_of i ev = 0"

definition booked :: "(stream \<Rightarrow> int) \<Rightarrow> books \<Rightarrow> u64 \<Rightarrow> int" where
  "booked f b i = (case b_streams b i of Some s \<Rightarrow> f s | None \<Rightarrow> 0)"

lemma amend_Some:
  "amend i fits change b = Some b' \<longleftrightarrow>
     (\<exists>s. b_streams b i = Some s \<and> fits s \<and> b' = b\<lparr>b_streams := (b_streams b)(i \<mapsto> change s)\<rparr>)"
  by (auto simp: amend_def split: option.splits if_splits)

lemma enter_money:
  assumes "enter ev b = Some b'"
  shows "booked withdrawn b' i = booked withdrawn b i + payment_of i ev"
    "booked deposited b' i = booked deposited b i + funding_of i ev"
  using assms
  by (cases ev; auto simp: booked_def amend_Some opened_stream_def split: option.splits if_splits)+

lemma audit_money:
  assumes "audit evs b = Some b'"
  shows "booked withdrawn b' i = booked withdrawn b i + (\<Sum>ev\<leftarrow>evs. payment_of i ev) \<and>
    booked deposited b' i = booked deposited b i + (\<Sum>ev\<leftarrow>evs. funding_of i ev)"
  using assms
proof (induction evs arbitrary: b)
  case (Cons ev evs)
  then obtain c where c: "enter ev b = Some c" "audit evs c = Some b'" by (auto simp: bind_eq_Some_conv)
  show ?case using Cons.IH [OF c(2)] enter_money [OF c(1), of i] by simp
qed simp

section \<open>The contract's own books\<close>

definition books_of :: "'t world \<Rightarrow> books" where
  "books_of w = \<lparr>b_streams = lookup_stream w, b_grants = delegate_entries w,
     b_operator = halt_operator_entry w, b_halted = halted_at_entry w\<rparr>"

definition logged :: "'t world \<Rightarrow> 't world \<Rightarrow> bool" where
  "logged w w' \<longleftrightarrow> (\<exists>evs. events w' = events w @ evs \<and> audit evs (books_of w) = Some (books_of w'))"

lemma books_of_simps [simp]:
  "b_streams (books_of w) = lookup_stream w" "b_grants (books_of w) = delegate_entries w"
  "b_operator (books_of w) = halt_operator_entry w" "b_halted (books_of w) = halted_at_entry w"
  by (simp_all add: books_of_def)

lemma logged_silent: "events w' = events w \<Longrightarrow> books_of w' = books_of w \<Longrightarrow> logged w w'"
  unfolding logged_def by (intro exI [of _ "[]"]) simp

lemma logged_event: "events w' = events w @ [ev] \<Longrightarrow> enter ev (books_of w) = Some (books_of w') \<Longrightarrow> logged w w'"
  unfolding logged_def by (intro exI [of _ "[ev]"]) simp

lemma logged_trans:
  assumes "logged w1 w2" "logged w2 w3"
  shows "logged w1 w3"
proof -
  obtain xs ys where "events w2 = events w1 @ xs" "audit xs (books_of w1) = Some (books_of w2)"
    "events w3 = events w2 @ ys" "audit ys (books_of w2) = Some (books_of w3)"
    using assms by (auto simp: logged_def)
  then show ?thesis unfolding logged_def by (intro exI [of _ "xs @ ys"]) (simp add: audit_append)
qed

text \<open>One event that changes the streams only.\<close>

lemma control_books:
  "control_of w' = control_of w \<Longrightarrow> books_of w' = (books_of w)\<lparr>b_streams := lookup_stream w'\<rparr>"
  by (simp add: books_of_def control_of_def)

lemma logged_act:
  assumes "events w' = events w @ [ev]" "control_of w' = control_of w"
    and "enter ev (books_of w) = Some ((books_of w)\<lparr>b_streams := lookup_stream w'\<rparr>)"
  shows "logged w w'"
  using assms(1) by (rule logged_event) (simp add: assms(3) control_books [OF assms(2)])

lemma books_of_view:
  assumes "view w' = view w"
  shows "books_of w' = books_of w"
  unfolding books_of_def view_eqD [OF assms] ..

lemma books_of_rent [simp]:
  "books_of (extend_stream e i s w) = books_of w"
  "books_of (extend_instance e w) = books_of w"
  "books_of (publish ev w) = books_of w"
  by (rule books_of_view, simp)+

lemma logged_rent: "logged (extend_stream e i s w) w' = logged w w'"
  by (simp add: logged_def)

section \<open>Every entry point keeps its log\<close>

text \<open>The contract of an entry point: what it publishes is accepted and accounts for what it did.\<close>

locale logging =
  fixes run :: "env \<Rightarrow> 't world \<Rightarrow> ('r \<times> 't world) result"
  assumes logs: "sound_world (timestamp e) w \<Longrightarrow> run e w = Inr (r, w') \<Longrightarrow> logged w w'"
begin

lemma log_grows: "sound_world (timestamp e) w \<Longrightarrow> run e w = Inr (r, w') \<Longrightarrow>
    take (length (events w)) (events w') = events w"
  using logs [of e w r w'] by (auto simp: logged_def)

end

subsection \<open>Creation\<close>

lemma create_inner_logged:
  assumes "sound_world now w"
    "create_stream_inner tk e a b tkn deposit start end_at cliff mode cc cp ct ref crv w = Inr (i, w')"
  shows "logged w w'"
proof -
  note eff = create_stream_inner_effect [OF assms]
  have "lookup_stream w i = None" using sound_worldD(2) [OF assms(1), of i] eff(1) by simp
  then show ?thesis using eff(3) by (intro logged_act [OF eff(8,7)]) simp
qed

lemma create_all_logged:
  assumes "sound_world now w" "create_all tk e a requests w = Inr (ids, w')"
  shows "logged w w'"
  using assms(2,1) by (rule create_all_chain) (auto intro: logged_silent logged_trans create_inner_logged)

interpretation create_log: logging
  "\<lambda>e. create_stream_with_cliff_mode tk e a b tkn deposit start end_at cliff mode cc cp ct ref"
  for tk a b tkn deposit start end_at cliff mode cc cp ct ref
  by unfold_locales (auto intro: create_inner_logged)

interpretation create_curve_log: logging
  "\<lambda>e. create_stream_with_curve tk e a b tkn deposit start end_at cliff cc cp ct crv"
  for tk a b tkn deposit start end_at cliff cc cp ct crv
  by unfold_locales (auto intro: create_inner_logged)

interpretation create_batch_log: logging "\<lambda>e. batch_create tk e a requests" for tk a requests
  by unfold_locales (auto intro: create_all_logged)

interpretation via_factory_log: logging
  "\<lambda>e. create_stream_via_factory tk fi e fac a b tkn deposit start end_at cliff cc cp ct"
  for tk fi fac a b tkn deposit start end_at cliff cc cp ct
  by unfold_locales (auto elim!: via_factory_Inr intro: create_inner_logged)

subsection \<open>Settlement\<close>

lemma paid_stream_entry:
  "s\<lparr>withdrawn := withdrawn s + n, status := status (paid_stream now n s),
     paused_at := paused_at (paid_stream now n s), paused_total := paused_total (paid_stream now n s)\<rparr> =
   paid_stream now n s"
  by (cases s) (simp add: paid_stream_def settle_pause_def Let_def split: option.splits)

lemma paid_stream_parties [simp]:
  "sender (paid_stream now n s) = sender s" "recipient (paid_stream now n s) = recipient s"
  "deposited (paid_stream now n s) = deposited s" "withdrawn (paid_stream now n s) = withdrawn s + n"
  by (simp_all add: paid_stream_def settle_pause_def Let_def split: option.splits)

lemma apply_withdrawal_logged:
  assumes "sound_world (timestamp e) w" "lookup_stream w i = Some s"
    and "0 < payout" "payout \<le> vested_amount s (timestamp e) - withdrawn s"
    and "apply_withdrawal tk e i s payout w = Inr (s', w')"
  shows "logged w w'"
proof -
  note eff = apply_withdrawal_effect [OF sound_worldD(1) [OF assms(1,2)] assms(2-5)]
  have "control_of w' = control_of w" using eff(6) by (simp add: settles_def)
  then show ?thesis
    using eff(1,2) assms(2,3)
    by (intro logged_act [OF eff(4)])
      (simp_all add: withdrawn_event_def amend_def paid_stream_entry)
qed

lemma settle_cancel_logged:
  assumes "sound_world (timestamp e) w" "lookup_stream w i = Some s"
    and "quote_cancel s (timestamp e) = Inr (vn, refund)"
    and "settle_cancel tk e i s (timestamp e) vn refund w = Inr w'"
  shows "logged w w'"
proof -
  note eff = settle_cancel_effect [OF assms]
  have "control_of w' = control_of w" using eff(7) by (simp add: settles_def)
  then show ?thesis
    using eff(1-4) assms(2)
    by (intro logged_act [OF eff(6)]) (simp_all add: cancelled_event_def amend_def cancelled_stream_def)
qed

interpretation withdraw_log: logging "\<lambda>e. withdraw tk e i amount" for tk i amount
proof
  show "logged w w'"
    if "sound_world (timestamp e) w" "withdraw tk e i amount w = Inr (r, w')" for e w r w'
    using that
  proof (rule withdraw_Inr)
    fix s
    assume "lookup_stream w i = Some s" "0 < r" "r \<le> vested_amount s (timestamp e) - withdrawn s"
      "apply_withdrawal tk e i s r (extend_stream e i s w) = Inr (paid_stream (timestamp e) r s, w')"
    then show ?thesis
      using apply_withdrawal_logged [of e "extend_stream e i s w" i s r] that(1) by (simp add: logged_rent)
  qed
qed

interpretation cancel_log: logging "\<lambda>e. cancel tk e i" for tk i
proof
  show "logged w w'"
    if "sound_world (timestamp e) w" "cancel tk e i w = Inr (r, w')" for e w r w'
    using that(2,1)
  proof (rule cancel_Inr)
    fix s
    assume s: "lookup_stream w i = Some s"
      and q: "quote_cancel s (timestamp e) =
       Inr (vested_amount s (timestamp e), deposited s - vested_amount s (timestamp e))"
      and run: "settle_cancel tk e i s (timestamp e) (vested_amount s (timestamp e))
       (deposited s - vested_amount s (timestamp e)) (extend_stream e i s w) = Inr w'"
    show ?thesis
      using settle_cancel_logged [OF _ _ q run] s that(1) by (simp add: logged_rent)
  qed
qed

interpretation dust_log: logging "\<lambda>e. reclaim_dust tk e i" for tk i
proof
  show "logged w w'"
    if inv: "sound_world (timestamp e) w" and run: "reclaim_dust tk e i w = Inr (r, w')" for e w r w'
  proof -
    obtain s where s: "lookup_stream w i = Some s" "authorized e (sender s)"
      using run by (auto simp: reclaim_dust_def)
    then have "w' = extend_stream e i s w" using reclaim_dust_eq [OF inv s] run by simp
    then show ?thesis by (simp add: logged_silent)
  qed
qed

interpretation top_up_log: logging "\<lambda>e. top_up tk e i amount" for tk i amount
proof
  show "logged w w'"
    if "sound_world (timestamp e) w" "top_up tk e i amount w = Inr (r, w')" for e w r w'
    using that(2,1)
  proof (rule top_up_Inr)
    fix s new_end w2 w3
    assume s: "lookup_stream w i = Some s" and step: "stream_step (timestamp e) s (grown_stream amount new_end s)"
      and pull: "pull_deposit tk e (token s) (sender s) amount (extend_stream e i s w) = Inr w2"
      and save: "save_stream e i (grown_stream amount new_end s) w2 = Inr w3"
      and g: "0 < amount" "end_time s \<le> new_end"
      and w': "w' = publish (ToppedUpEvent i (sender s) amount (deposited s + amount) new_end (recipient s)) w3"
    note eff = top_up_effect [OF pull save s step]
    show ?thesis
      by (rule logged_act [of w' w "ToppedUpEvent i (sender s) amount (deposited s + amount) new_end (recipient s)"])
        (use eff s g in \<open>simp_all add: w' settles_def amend_def grown_stream_def\<close>)
  qed
qed

subsection \<open>Control\<close>

text \<open>An event of an operation that settles, on a stream it knows.\<close>

lemma logged_settled:
  assumes "settles now w w'" "events w' = events w @ [ev]"
    and "enter ev (books_of w) = Some ((books_of w)\<lparr>b_streams := lookup_stream w'\<rparr>)"
  shows "logged w w'"
  using assms(1) by (intro logged_act [OF assms(2) _ assms(3)]) (simp add: settles_def)

lemma pause_logged: "pause e i w = Inr (u, w') \<Longrightarrow> sound_world (timestamp e) w \<Longrightarrow> logged w w'"
  by (erule (1) pause_Inr, rule logged_settled, assumption+) (simp add: amend_def paused_stream_def)

lemma resume_logged:
  assumes "resume e i w = Inr (u, w')" "sound_world (timestamp e) w"
  shows "logged w w'"
  using assms
  by (rule resume_Inr, intro logged_settled)
    (assumption+, simp add: amend_def resumed_stream_def settle_pause_def)

lemma transfer_logged:
  assumes "transfer_recipient e i a w = Inr (u, w')" "sound_world (timestamp e) w"
  shows "logged w w'"
  using assms
  by (rule transfer_recipient_Inr, intro logged_settled) (assumption+, simp add: amend_def)

interpretation pause_log: logging "\<lambda>e. pause e i" for i
  by unfold_locales (rule pause_logged)

interpretation resume_log: logging "\<lambda>e. resume e i" for i
  by unfold_locales (rule resume_logged)

interpretation transfer_log: logging "\<lambda>e. transfer_recipient e i a" for i a
  by unfold_locales (rule transfer_logged)

subsection \<open>Batches\<close>

lemma pay_all_logged:
  assumes "pay_all tk e items w = Inr w'" "sound_world (timestamp e) w"
    "distinct (map fst items)" "\<forall>item\<in>set items. priced (timestamp e) w item"
  shows "logged w w'"
  by (rule pay_all_chain [OF assms]) (auto intro: logged_silent logged_trans apply_withdrawal_logged)

lemma settle_all_logged:
  assumes "settle_all tk e (timestamp e) items w = Inr w'" "sound_world (timestamp e) w"
    "distinct (map fst items)" "\<forall>item\<in>set items. quoted (timestamp e) w item"
  shows "logged w w'"
  by (rule settle_all_chain [OF assms]) (auto intro: logged_silent logged_trans settle_cancel_logged)

interpretation batch_withdraw_log: logging "\<lambda>e. batch_withdraw tk e payee raws" for tk payee raws
proof
  show "logged w w'"
    if "sound_world (timestamp e) w" "batch_withdraw tk e payee raws w = Inr (r, w')" for e w r w'
    using that(2,1) by (rule batch_withdraw_Inr) (rule pay_all_logged [OF _ that(1)])
qed

interpretation batch_cancel_log: logging "\<lambda>e. batch_cancel tk e owner raws" for tk owner raws
proof
  show "logged w w'"
    if "sound_world (timestamp e) w" "batch_cancel tk e owner raws w = Inr (r, w')" for e w r w'
    using that(2)
  proof (cases rule: batch_cancel_Inr)
    case refused
    then show ?thesis by (simp add: logged_silent)
  next
    case settled
    then show ?thesis using settle_all_logged that(1) by blast
  qed
qed

subsection \<open>Delegation\<close>

lemma behind_check_logged:
  assumes "behind_check e i d permission owner direct w = Inr (r, w')" "sound_world (timestamp e) w"
    and "\<And>e w r w'. sound_world (timestamp e) w \<Longrightarrow> direct e w = Inr (r, w') \<Longrightarrow> logged w w'"
  shows "logged w w'"
  using assms(1,2) assms(3) [of "signed_by e _" w r w'] by (auto simp: behind_check_Inr)

lemma delegated_logged:
  assumes inv: "sound_world (timestamp e) w"
  shows "delegate_withdraw tk e i d n w = Inr (r, w') \<Longrightarrow> logged w w'"
    "delegate_cancel tk e i d w = Inr (u, w') \<Longrightarrow> logged w w'"
    "delegate_pause e i d w = Inr (u, w') \<Longrightarrow> logged w w'"
    "delegate_resume e i d w = Inr (u, w') \<Longrightarrow> logged w w'"
    "delegate_transfer_recipient e i d a w = Inr (u, w') \<Longrightarrow> logged w w'"
  unfolding delegate_withdraw_eq delegate_cancel_eq delegate_pause_eq [OF inv] delegate_resume_eq [OF inv]
    delegate_transfer_recipient_eq [OF inv]
  by (erule behind_check_logged [OF _ inv];
      rule withdraw_log.logs cancel_log.logs pause_log.logs resume_log.logs transfer_log.logs; assumption)+

interpretation delegate_withdraw_log: logging "\<lambda>e. delegate_withdraw tk e i d amount" for tk i d amount
  by unfold_locales (rule delegated_logged)

interpretation delegate_cancel_log: logging "\<lambda>e. delegate_cancel tk e i d" for tk i d
  by unfold_locales (rule delegated_logged)

interpretation delegate_pause_log: logging "\<lambda>e. delegate_pause e i d" for i d
  by unfold_locales (rule delegated_logged)

interpretation delegate_resume_log: logging "\<lambda>e. delegate_resume e i d" for i d
  by unfold_locales (rule delegated_logged)

interpretation delegate_transfer_log: logging "\<lambda>e. delegate_transfer_recipient e i d a" for i d a
  by unfold_locales (rule delegated_logged)

interpretation delegate_top_up_log: logging "\<lambda>e. delegate_top_up tk e i d amount" for tk i d amount
proof
  show "logged w w'"
    if "sound_world (timestamp e) w" "delegate_top_up tk e i d amount w = Inr (r, w')" for e w r w'
    using that(2,1)
  proof (rule delegate_top_up_Inr)
    fix s new_end w2 w3
    assume s: "lookup_stream w i = Some s" and g: "0 < amount" "end_time s \<le> new_end"
      and save: "save_stream e i (grown_stream amount new_end s) (extend_stream e i s w) = Inr w2"
      and pull: "pull_deposit tk e (token s) (sender s) amount w2 = Inr w3"
      and w': "w' = publish (ToppedUpEvent i (sender s) amount (deposited s + amount) new_end (recipient s)) w3"
    note f = save_pull_effect [OF save pull s]
    show ?thesis
      by (rule logged_act [of w' w "ToppedUpEvent i (sender s) amount (deposited s + amount) new_end (recipient s)"])
        (use f s g in \<open>simp_all add: w' amend_def grown_stream_def\<close>)
  qed
qed

lemma books_of_grants: "view w' = (view w)\<lparr>v_grants := G\<rparr> \<Longrightarrow> books_of w' = (books_of w)\<lparr>b_grants := G\<rparr>"
  by (drule view_same_ledger) (simp add: books_of_def)

interpretation grant_log: logging "\<lambda>e. grant_delegate e i g d m x" for i g d m x
proof
  show "logged w w'" if "grant_delegate e i g d m x w = Inr (r, w')" for e and w :: "'t world" and r w'
    using that
  proof (cases rule: grant_delegate_Inr)
    case (noop s)
    then show ?thesis by (simp add: logged_silent)
  next
    case (stored s w2)
    have "books_of w2 = (books_of w)\<lparr>b_grants := (delegate_entries w)((i, d) \<mapsto> \<lparr>ops = m, expires_at = x\<rparr>)\<rparr>"
      using save_delegate_view(1) [OF stored(7)] by (intro books_of_grants) simp
    then show ?thesis
      using save_delegate_view(2) [OF stored(7)] stored(1,4,5,8)
      by (intro logged_event [of _ _ "DelegateGrantedEvent i g d m x"]) simp_all
  qed
qed

interpretation revoke_log: logging "\<lambda>e. revoke_delegate e i g d" for i g d
proof
  show "logged w w'" if run: "revoke_delegate e i g d w = Inr (r, w')" for e and w :: "'t world" and r w'
  proof -
    obtain s where s: "lookup_stream w i = Some s" "g = sender s \<or> g = recipient s"
      and w': "w' = publish (DelegateRevokedEvent i g d) (remove_delegate i d (extend_stream e i s w))"
      using run by (auto simp: revoke_delegate_Inr)
    have "books_of w' = (books_of w)\<lparr>b_grants := (delegate_entries w)((i, d) := None)\<rparr>"
      by (rule books_of_grants) (simp add: w' remove_delegate_view)
    then show ?thesis
      using s by (intro logged_event [of _ _ "DelegateRevokedEvent i g d"]) (simp_all add: w' remove_delegate_view)
  qed
qed

subsection \<open>Rent and the halt\<close>

lemma ttl_event:
  "lookup_stream w i = Some s \<Longrightarrow> \<not> is_terminal (status s) \<Longrightarrow>
     enter (TtlExtendedEvent i n) (books_of w) = Some (books_of w)"
  by (simp add: amend_def books_of_def fun_upd_idem)

interpretation extend_ttl_log: logging "\<lambda>e. extend_stream_ttl e i" for i
proof
  show "logged w w'" if run: "extend_stream_ttl e i w = Inr (r, w')" for e and w :: "'t world" and r w'
  proof -
    obtain s where s: "lookup_stream w i = Some s" "\<not> is_terminal (status s)"
      and w': "w' = publish (TtlExtendedEvent i r) (extend_instance e (extend_stream e i s w))"
      using run by (auto simp: extend_stream_ttl_def Let_def emit_ttl_extended_def split: if_splits)
    show ?thesis
      using ttl_event [OF s] by (intro logged_event [of _ _ "TtlExtendedEvent i r"]) (simp_all add: w')
  qed
qed

lemma extend_each_logged: "extend_each e ids n w = Inr (m, w') \<Longrightarrow> logged w w'"
proof (induction ids arbitrary: n w)
  case (Cons i ids)
  show ?case
  proof (cases "lookup_stream w i")
    case None
    then have "peek_stream w i = Inl (Err StreamNotFound)" by (simp add: peek_stream_Inl)
    with Cons show ?thesis by simp
  next
    case (Some s)
    let ?w1 = "publish (TtlExtendedEvent i (ttl_target_ledgers e s)) (extend_stream e i s w)"
    have "peek_stream w i = Inr s" using Some by simp
    with Cons.prems have run: "\<not> is_terminal (status s)" "extend_each e ids (n + 1) ?w1 = Inr (m, w')"
      by (auto simp: Let_def emit_ttl_extended_def simp del: peek_stream_Inr split: if_splits)
    have "logged w ?w1"
      using ttl_event [OF Some run(1)]
      by (intro logged_event [of _ _ "TtlExtendedEvent i (ttl_target_ledgers e s)"]) simp_all
    with Cons.IH [OF run(2)] show ?thesis by (blast intro: logged_trans)
  qed
qed (simp add: logged_silent)

interpretation batch_ttl_log: logging "\<lambda>e. batch_extend_ttl e raws" for raws
proof
  show "logged w w'" if run: "batch_extend_ttl e raws w = Inr (r, w')" for e and w :: "'t world" and r w'
  proof -
    obtain ids w1 where w1: "extend_each e ids 0 w = Inr (r, w1)" "w' = extend_instance e w1"
      using run by (auto simp: batch_extend_ttl_def)
    have "logged w1 w'" by (rule logged_silent) (simp_all add: w1(2))
    with extend_each_logged [OF w1(1)] show ?thesis by (rule logged_trans)
  qed
qed

lemma books_of_halt:
  "view w' = (view w)\<lparr>v_operator := a\<rparr> \<Longrightarrow> books_of w' = (books_of w)\<lparr>b_operator := a\<rparr>"
  "view w' = (view w)\<lparr>v_halted := h\<rparr> \<Longrightarrow> books_of w' = (books_of w)\<lparr>b_halted := h\<rparr>"
  by (simp_all add: view_def books_of_def)

lemma halt_events [simp]:
  "events (store_halt_operator e a w) = events w" "events (set_halt e w) = events w"
  "events (clear_halt e w) = events w"
  by (simp_all add: store_halt_operator_def set_halt_def clear_halt_def)

lemma halt_ops_logged:
  "set_halt_operator e a w = Inr (u, w') \<Longrightarrow> logged w w'"
  "halt e w = Inr (u, w') \<Longrightarrow> logged w w'"
  "resume_contract e w = Inr (u, w') \<Longrightarrow> logged w w'"
  using books_of_halt(1) [OF halt_view(1) [of e a w]] books_of_halt(2) [OF halt_view(2) [of e w]]
    books_of_halt(2) [OF halt_view(3) [of e w]]
  by (auto simp: set_halt_operator_Inr halt_Inr resume_contract_Inr is_halted_def intro!: logged_event)

interpretation set_operator_log: logging "\<lambda>e. set_halt_operator e a" for a
  by unfold_locales (rule halt_ops_logged(1))

interpretation halt_log: logging halt
  by unfold_locales (rule halt_ops_logged(2))

interpretation resume_contract_log: logging resume_contract
  by unfold_locales (rule halt_ops_logged(3))

section \<open>The log of the system\<close>

lemma exec_logged:
  assumes "exec tk fi c e w = Inr w'" "sound_world (timestamp e) w"
  shows "logged w w'"
  using assms(1)
  by (cases c)
    (auto simp: create_stream_def simp del: create_gate
      intro: create_log.logs [OF assms(2)] create_curve_log.logs [OF assms(2)]
        create_batch_log.logs [OF assms(2)] via_factory_log.logs [OF assms(2)] top_up_log.logs [OF assms(2)]
        withdraw_log.logs [OF assms(2)] batch_withdraw_log.logs [OF assms(2)] cancel_log.logs [OF assms(2)]
        batch_cancel_log.logs [OF assms(2)] dust_log.logs [OF assms(2)] pause_log.logs [OF assms(2)]
        resume_log.logs [OF assms(2)] transfer_log.logs [OF assms(2)]
        delegate_withdraw_log.logs [OF assms(2)] delegate_cancel_log.logs [OF assms(2)]
        delegate_pause_log.logs [OF assms(2)] delegate_resume_log.logs [OF assms(2)]
        delegate_transfer_log.logs [OF assms(2)] delegate_top_up_log.logs [OF assms(2)]
        grant_log.logs [OF assms(2)] revoke_log.logs [OF assms(2)] extend_ttl_log.logs [OF assms(2)]
        batch_ttl_log.logs [OF assms(2)] set_operator_log.logs [OF assms(2)] halt_log.logs [OF assms(2)]
        resume_contract_log.logs [OF assms(2)])

lemma any_run_logged:
  assumes "any_run tk fi ca foreign (now, w) (later, w')" "sound_world now w"
  shows "logged w w'"
  using assms
proof (induction rule: any_run_induct)
  case (call e c v v')
  from call.IH exec_logged [OF call.hyps(5,3)] show ?case by (rule logged_trans)
next
  case (tokens t v ts)
  have "books_of (v\<lparr>token_state := ts\<rparr>) = books_of v"
    using view_token_state [of ts v] by (simp add: books_of_def view_def)
  then have "logged v (v\<lparr>token_state := ts\<rparr>)" by (simp add: logged_silent)
  with tokens.IH show ?case by (rule logged_trans)
qed (simp_all add: logged_silent)

text \<open>The log of a deployed contract, from the first event on.\<close>

lemma any_reachable_audit:
  assumes "any_reachable tk fi ca foreign ts now w"
  shows "audit (events w) blank_books = Some (books_of w)"
proof -
  obtain d where "any_run tk fi ca foreign (d, fresh_world ts) (now, w)"
    using assms by (auto simp: any_reachable_def)
  then have "logged (fresh_world ts) w" using fresh_world_sound by (rule any_run_logged)
  moreover have "books_of (fresh_world ts) = blank_books" "events (fresh_world ts) = []"
    by (simp_all add: books_of_def blank_books_def) (simp_all add: fresh_world_def view_defs fun_eq_iff)
  ultimately show ?thesis by (simp add: logged_def)
qed

end
