(* ===== verification/Freeze.thy ===== *)
theory Freeze
  imports Event_Log
begin

text \<open>
  What stays as it is between two events of the log: a contract that is halted until a
  \<open>ContractResumedEvent\<close>, and a delegation that is revoked until the next
  \<open>DelegateGrantedEvent\<close>. Both are read off the auditor's books and carried over runs of any length.
\<close>

section \<open>The halted contract\<close>

text \<open>The calls that succeed while the contract is halted.\<close>

definition passes_halt :: "call \<Rightarrow> bool" where
  "passes_halt c =
     (case c of Resume_contract \<Rightarrow> True | Batch_cancel owner raws \<Rightarrow> True | Reclaim_dust i \<Rightarrow> True | _ \<Rightarrow> False)"

lemma halted_calls:
  assumes ok: "control_ok w" and h: "is_halted w" and run: "exec tk fi c e w = Inr w'"
  shows "passes_halt c"
proof -
  have op: "halt_operator_entry w \<noteq> None" using ok h by (simp add: control_ok_def halt_ok_def)
  have c: "create_stream tk e a b t d st en cl cc cp ct ref w = Inl (Err ContractHalted)" for a b t d st en cl cc cp ct ref
    using create.refuses [OF h] by (simp add: create_stream_def)
  show ?thesis
    using run op h c create.refuses [OF h] create_curve.refuses [OF h] create_batch.refuses [OF h] via_factory.refuses [OF h]
      top_up.refuses [OF h] withdraw.refuses [OF h] batch_withdraw.refuses [OF h] cancel.refuses [OF h]
      pause.refuses [OF h] resume.refuses [OF h] transfer.refuses [OF h] delegate_withdraw.refuses [OF h]
      delegate_cancel.refuses [OF h] delegate_pause.refuses [OF h] delegate_resume.refuses [OF h]
      delegate_transfer.refuses [OF h] delegate_refuses(4) [OF h] extend_ttl.refuses [OF h] batch_ttl.refuses [OF h]
    by (cases c) (auto simp: passes_halt_def grant_delegate_def revoke_delegate_def require_not_halted_def
        set_halt_operator_Inr halt_Inr simp del: create_gate)
qed

text \<open>All that a halt lets through: streams may be cancelled, each at an instant of the halt.\<close>

definition frozen :: "u64 \<Rightarrow> 't world \<Rightarrow> u64 \<Rightarrow> 't world \<Rightarrow> bool" where
  "frozen now w later w' \<longleftrightarrow>
     control_of w' = control_of w \<and>
     (\<forall>i. lookup_stream w i = None \<longrightarrow> lookup_stream w' i = None) \<and>
     (\<forall>i s. lookup_stream w i = Some s \<longrightarrow> (\<exists>s'. lookup_stream w' i = Some s' \<and>
        (s' = s \<or> cancellable s \<and> \<not> is_terminal (status s) \<and>
           (\<exists>t. now \<le> t \<and> t \<le> later \<and> s' = cancelled_stream t s))))"

lemma frozen_same: "control_of w' = control_of w \<Longrightarrow> lookup_stream w' = lookup_stream w \<Longrightarrow> frozen now w later w'"
  by (simp add: frozen_def)

lemma cancelled_terminal [simp]: "is_terminal (status (cancelled_stream t s))"
  by (simp add: cancelled_stream_def)

lemma frozen_trans:
  assumes "frozen t1 w1 t2 w2" "frozen t2 w2 t3 w3" "t1 \<le> t2" "t2 \<le> t3"
  shows "frozen t1 w1 t3 w3"
  unfolding frozen_def
proof (intro conjI allI impI)
  show "control_of w3 = control_of w1" using assms(1,2) by (simp add: frozen_def)
  show "lookup_stream w3 i = None" if "lookup_stream w1 i = None" for i
    using assms(1,2) that by (simp add: frozen_def)
  fix i s assume "lookup_stream w1 i = Some s"
  then obtain s2 where s2: "lookup_stream w2 i = Some s2"
    "s2 = s \<or> cancellable s \<and> \<not> is_terminal (status s) \<and> (\<exists>t. t1 \<le> t \<and> t \<le> t2 \<and> s2 = cancelled_stream t s)"
    using assms(1) unfolding frozen_def by blast
  then obtain s3 where l: "lookup_stream w3 i = Some s3"
    and s3: "s3 = s2 \<or> cancellable s2 \<and> \<not> is_terminal (status s2) \<and> (\<exists>t. t2 \<le> t \<and> t \<le> t3 \<and> s3 = cancelled_stream t s2)"
    using assms(2) unfolding frozen_def by blast
  have "s3 = s \<or> cancellable s \<and> \<not> is_terminal (status s) \<and> (\<exists>t. t1 \<le> t \<and> t \<le> t3 \<and> s3 = cancelled_stream t s)"
  proof (cases "s2 = s")
    case True
    then show ?thesis using s3 order_trans [OF assms(3)] by blast
  next
    case False
    then obtain t where t: "cancellable s" "\<not> is_terminal (status s)" "t1 \<le> t" "t \<le> t2" "s2 = cancelled_stream t s"
      using s2(2) by blast
    then have "s3 = s2" using s3 by simp
    then show ?thesis using t order_trans [OF t(4) assms(4)] by blast
  qed
  with l show "\<exists>s'. lookup_stream w3 i = Some s' \<and>
      (s' = s \<or> cancellable s \<and> \<not> is_terminal (status s) \<and> (\<exists>t. t1 \<le> t \<and> t \<le> t3 \<and> s' = cancelled_stream t s))"
    by blast
qed

lemma settle_all_frozen:
  assumes run: "settle_all tk e (timestamp e) items w = Inr w'" and inv: "sound_world (timestamp e) w"
    and d: "distinct (map fst items)" and q: "\<forall>item\<in>set items. quoted (timestamp e) w item"
  shows "frozen (timestamp e) w (timestamp e) w'"
  unfolding frozen_def
proof (intro conjI allI impI)
  note all = settle_all_members [OF run inv d q]
  have it: "lookup_stream w i = Some s \<and> cancellable s \<and> \<not> is_terminal (status s)" if "(i, s, v, r) \<in> set items" for i s v r
    using q that sound_worldD(1) [OF inv] quote_cancel_verdict(2) by (fastforce simp: quoted_def)
  have m: "i \<notin> fst ` set items \<or> (\<exists>s v r. (i, s, v, r) \<in> set items)" for i by force
  show "control_of w' = control_of w" using settle_all_effect [OF run inv d q] by (simp add: settles_def)
  show "lookup_stream w' i = None" if "lookup_stream w i = None" for i
    using m [of i] all(2) [of i] it that by auto
  show "\<exists>s'. lookup_stream w' i = Some s' \<and> (s' = s \<or> cancellable s \<and> \<not> is_terminal (status s) \<and>
      (\<exists>t. timestamp e \<le> t \<and> t \<le> timestamp e \<and> s' = cancelled_stream t s))" if s: "lookup_stream w i = Some s" for i s
    using m [of i]
  proof
    assume "i \<notin> fst ` set items"
    then show ?thesis using all(2) s by simp
  next
    assume "\<exists>s v r. (i, s, v, r) \<in> set items"
    then obtain s0 v r where i: "(i, s0, v, r) \<in> set items" by blast
    with all(1) [OF i] it [OF i] s show ?thesis by auto
  qed
qed

text \<open>One call on a halted contract, \<open>resume_contract\<close> apart.\<close>

lemma exec_frozen:
  assumes inv: "sound_world (timestamp e) w" and ok: "control_ok w" and h: "is_halted w" and c: "c \<noteq> Resume_contract"
    and run: "exec tk fi c e w = Inr w'"
  shows "frozen (timestamp e) w (timestamp e) w'"
proof -
  from halted_calls [OF ok h run] c consider owner raws where "c = Batch_cancel owner raws" | i where "c = Reclaim_dust i"
    by (auto simp: passes_halt_def split: call.splits)
  then show ?thesis
  proof cases
    case 1
    then obtain out where "batch_cancel tk e owner raws w = Inr (out, w')" using run by auto
    then show ?thesis
    proof (cases rule: batch_cancel_Inr)
      case refused
      then show ?thesis by (simp add: frozen_same)
    next
      case (settled items)
      then show ?thesis using settle_all_frozen [OF settled(1) inv settled(4,8)] by simp
    qed
  next
    case 2
    then obtain r where r: "reclaim_dust tk e i w = Inr (r, w')" using run by auto
    then obtain s where s: "lookup_stream w i = Some s" "authorized e (sender s)" by (auto simp: reclaim_dust_def)
    then have "w' = extend_stream e i s w" using reclaim_dust_eq [OF inv s] r by simp
    then show ?thesis by (simp add: frozen_same)
  qed
qed

definition resumes :: "event \<Rightarrow> bool" where
  "resumes ev = (case ev of ContractResumedEvent a at n \<Rightarrow> True | _ \<Rightarrow> False)"

lemma exec_resumes:
  assumes "exec tk fi Resume_contract e w = Inr w'" "events w' = events w @ evs"
  shows "\<not> list_all (\<lambda>ev. \<not> resumes ev) evs"
  using assms by (auto simp: resume_contract_Inr resumes_def)

lemma run_frozen:
  assumes run: "any_run tk fi ca foreign (now, w) (later, w')" and inv: "sound_world now w"
    and ok: "control_ok w" and h: "is_halted w"
    and evs: "events w' = events w @ evs" "list_all (\<lambda>ev. \<not> resumes ev) evs"
  shows "frozen now w later w'"
proof -
  have "\<forall>evs. events w' = events w @ evs \<longrightarrow> list_all (\<lambda>ev. \<not> resumes ev) evs \<longrightarrow> frozen now w later w'"
    using run inv
  proof (induction rule: any_run_induct)
    case refl
    show ?case by (simp add: frozen_same)
  next
    case (call e c v v')
    show ?case
    proof (intro allI impI)
      fix evs assume e: "events v' = events w @ evs" and q: "list_all (\<lambda>ev. \<not> resumes ev) evs"
      obtain xs where xs: "events v = events w @ xs"
        using any_run_logged [OF call.hyps(1) inv] by (auto simp: logged_def)
      obtain ys where ys: "events v' = events v @ ys"
        using exec_logged [OF call.hyps(5,3)] by (auto simp: logged_def)
      have split: "evs = xs @ ys" using e xs ys by simp
      have IH: "frozen now w (timestamp e) v" using call.IH xs q by (simp add: split)
      then have hv: "is_halted v" using h by (simp add: frozen_def control_of_def is_halted_def)
      have "c \<noteq> Resume_contract" using exec_resumes [of tk fi e v v' ys] call.hyps(5) ys q by (auto simp: split)
      from exec_frozen [OF call.hyps(3) any_run_control_ok [OF call.hyps(1) inv ok] hv this call.hyps(5)] IH
      show "frozen now w (timestamp e) v'" using call.hyps(2) by (auto intro: frozen_trans)
    qed
  next
    case (tick t t' v)
    then show ?case using frozen_trans [OF _ frozen_same] by blast
  next
    case (tokens t v ts)
    have "lookup_stream (v\<lparr>token_state := ts\<rparr>) = lookup_stream v"
      using view_token_state [of ts v] by (simp add: view_def)
    then have "frozen t v t (v\<lparr>token_state := ts\<rparr>)" by (intro frozen_same) (simp_all add: control_of_def)
    with tokens show ?case by (auto intro: frozen_trans)
  qed
  with evs show ?thesis by blast
qed

section \<open>The revoked delegation\<close>

definition grants_to :: "u64 \<Rightarrow> address \<Rightarrow> event \<Rightarrow> bool" where
  "grants_to i d ev = (case ev of DelegateGrantedEvent j g d' m x \<Rightarrow> j = i \<and> d' = d | _ \<Rightarrow> False)"

lemma enter_revoked:
  assumes "enter ev b = Some b'" "\<not> grants_to i d ev" "b_grants b (i, d) = None"
  shows "b_grants b' (i, d) = None"
  using assms by (cases ev) (auto simp: amend_Some grants_to_def split: option.splits if_splits)

lemma audit_revoked:
  "audit evs b = Some b' \<Longrightarrow> list_all (\<lambda>ev. \<not> grants_to i d ev) evs \<Longrightarrow> b_grants b (i, d) = None \<Longrightarrow>
     b_grants b' (i, d) = None"
proof (induction evs arbitrary: b)
  case (Cons ev evs)
  then obtain c where "enter ev b = Some c" "audit evs c = Some b'" by (auto simp: bind_eq_Some_conv)
  with Cons enter_revoked show ?case by simp
qed simp

lemma run_revoked:
  assumes "any_run tk fi ca foreign (now, w) (later, w')" "sound_world now w" "delegate_entries w (i, d) = None"
    and "events w' = events w @ evs" "list_all (\<lambda>ev. \<not> grants_to i d ev) evs"
  shows "delegate_entries w' (i, d) = None"
  using any_run_logged [OF assms(1,2)] audit_revoked [of evs "books_of w" "books_of w'" i d] assms(3-5)
  by (auto simp: logged_def)

text \<open>Without a grant every delegated operation is refused, for the halt or for the permission.\<close>

lemma no_grant_refused:
  assumes "delegate_entries w (i, d) = None"
  defines "refused \<equiv> Err (if is_halted w then ContractHalted else DelegateNotPermitted)"
  shows "delegate_withdraw tk e i d amount w = Inl refused" "delegate_cancel tk e i d w = Inl refused"
    "delegate_pause e i d w = Inl refused" "delegate_resume e i d w = Inl refused"
    "delegate_top_up tk e i d n w = Inl refused" "delegate_transfer_recipient e i d a w = Inl refused"
proof -
  have "check_delegate e i d p w = Inl (Err DelegateNotPermitted)" for p
    using assms(1) by (simp add: check_delegate_def load_delegate_def)
  then show "delegate_withdraw tk e i d amount w = Inl refused" "delegate_cancel tk e i d w = Inl refused"
    "delegate_pause e i d w = Inl refused" "delegate_resume e i d w = Inl refused"
    "delegate_top_up tk e i d n w = Inl refused" "delegate_transfer_recipient e i d a w = Inl refused"
    by (simp_all add: delegate_withdraw_def delegate_cancel_def delegate_pause_def delegate_resume_def
        delegate_top_up_def delegate_transfer_recipient_def require_not_halted_def refused_def)
qed

end
