(* ===== verification/Batch_Sequence.thy ===== *)
theory Batch_Sequence
  imports Progress
begin

text \<open>
  A batch of withdrawals against the withdrawals one by one. \<open>withdraw_each\<close> is the reference: for
  each stream in order, a plain \<open>withdraw\<close> of everything, unless there is nothing. The batched
  code prices all streams first, pays from the copies it read, and reconciles the tokens once at
  the end; the lemmas show that on a backed world it cannot be told from the reference, but for rent.
\<close>

section \<open>The reference\<close>

primrec withdraw_each ::
    "'t token_iface \<Rightarrow> env \<Rightarrow> u64 list \<Rightarrow> int \<Rightarrow> 't world \<Rightarrow> (int \<times> 't world) result" where
  "withdraw_each tk e [] paid_so_far w = Inr (paid_so_far, w)"
| "withdraw_each tk e (i # ids) paid_so_far w =
     and_then (withdrawable_of e w i) (\<lambda>available.
     if available = 0 then withdraw_each tk e ids paid_so_far w
     else
       and_then (withdraw tk e i None w) (\<lambda>(payout, w1).
       withdraw_each tk e ids (paid_so_far + payout) w1))"

text \<open>Worlds that differ in rent only, and outcomes that do.\<close>

definition same_but_rent :: "'t world \<Rightarrow> 't world \<Rightarrow> bool" where
  "same_but_rent w w' \<longleftrightarrow> view w' = view w \<and> events w' = events w"

definition alike :: "('r \<times> 't world) result \<Rightarrow> ('r \<times> 't world) result \<Rightarrow> bool" where
  "alike a b \<longleftrightarrow>
     (case a of Inl f \<Rightarrow> b = Inl f | Inr (r, w) \<Rightarrow> \<exists>w'. b = Inr (r, w') \<and> same_but_rent w w')"

lemma same_but_rentD:
  assumes "same_but_rent w w'"
  shows "lookup_stream w' = lookup_stream w" "token_state w' = token_state w" "is_halted w' = is_halted w"
    "sound_world now w' = sound_world now w" "backed tk ca w' = backed tk ca w" "events w' = events w"
    "pooled_balance w' = pooled_balance w"
proof -
  have v: "view w' = view w" and "events w' = events w" using assms by (simp_all add: same_but_rent_def)
  note d = view_eqD [OF v] and l = view_ledger [OF v]
  show "lookup_stream w' = lookup_stream w" "token_state w' = token_state w" "events w' = events w" by fact+
  show "is_halted w' = is_halted w" by (simp add: is_halted_def d)
  show "sound_world now w' = sound_world now w" by (simp add: sound_world_def l)
  show "backed tk ca w' = backed tk ca w" "pooled_balance w' = pooled_balance w" by (simp_all add: backed_def d)
qed

section \<open>One payment\<close>

text \<open>The payment of a whole claim, decided by the token alone.\<close>

definition transfer_error :: "try_outcome \<Rightarrow> error" where
  "transfer_error outcome = (if outcome = TryAbort then TokenMissing else TokenTransferFailed)"

lemma token_transfer_eq:
  "token_transfer tk tkn a b n w =
    (case try_transfer tk (token_state w) tkn a b n of
       (outcome, ts) \<Rightarrow> if outcome = TryOk then Inr (w\<lparr>token_state := ts\<rparr>) else Inl (Err (transfer_error outcome)))"
  by (auto simp: token_transfer_def transfer_error_def split: prod.splits try_outcome.splits)

definition paid_view :: "u64 \<Rightarrow> u64 \<Rightarrow> stream \<Rightarrow> int \<Rightarrow> 't \<Rightarrow> 't view \<Rightarrow> 't view" where
  "paid_view now i s p ts v = v\<lparr>v_streams := (v_streams v)(i \<mapsto> paid_stream now p s),
     v_pool := (v_pool v)(token s := v_pool v (token s) - p), v_tokens := ts\<rparr>"

lemma debit_overflow:
  assumes "\<not> in_i128 (pooled_balance w tkn - n)"
  shows "debit_pool e tkn n w = Inl (Err Overflow)"
  using assms by (simp add: debit_pool_def checked_sub_i128_def)

lemma apply_withdrawal_outcome:
  assumes inv: "sound_world (timestamp e) w" and s: "lookup_stream w i = Some s"
    and pay: "0 < p" "p \<le> vested_amount s (timestamp e) - withdrawn s"
    and t: "try_transfer tk (token_state w) (token s) (contract_address e) (recipient s) p = (outcome, ts)"
  shows "\<not> in_i128 (pooled_balance w (token s) - p) \<Longrightarrow> apply_withdrawal tk e i s p w = Inl (Err Overflow)"
    "in_i128 (pooled_balance w (token s) - p) \<Longrightarrow> outcome \<noteq> TryOk \<Longrightarrow>
       apply_withdrawal tk e i s p w = Inl (Err (transfer_error outcome))"
    "in_i128 (pooled_balance w (token s) - p) \<Longrightarrow> outcome = TryOk \<Longrightarrow>
       \<exists>w'. apply_withdrawal tk e i s p w = Inr (paid_stream (timestamp e) p s, w') \<and>
         view w' = paid_view (timestamp e) i s p ts (view w) \<and>
         events w' = events w @ [withdrawn_event i (paid_stream (timestamp e) p s) p]"
proof -
  let ?p = "paid_stream (timestamp e) p s"
  have so: "sound (timestamp e) s" using inv s by (rule sound_worldD(1))
  have book: "book_withdrawal e s p = Inr ?p"
    using free_withdraw(1) [OF so pay] by (rule book_withdrawal_eq) (use pay in simp_all)
  show "apply_withdrawal tk e i s p w = Inl (Err Overflow)" if "\<not> in_i128 (pooled_balance w (token s) - p)"
    using debit_overflow [OF that, of e] by (simp add: apply_withdrawal_def book)
  {
    assume "in_i128 (pooled_balance w (token s) - p)"
    then obtain w1 where d: "debit_pool e (token s) p w = Inr w1" using debit_pool_total by blast
    have ex: "lookup_stream w1 i \<noteq> None" using ledger_debit_pool(6) [OF d] s by simp
    then obtain w2 where v: "save_stream e i ?p w1 = Inr w2" using save_stream_existing by blast
    have ts: "token_state w2 = token_state w" and ev: "events w2 = events w"
      using ledger_save_stream(4,5) [OF v ex] ledger_debit_pool(4,5) [OF d] by simp_all
    have "view w2 = (view w1)\<lparr>v_streams := (lookup_stream w1)(i \<mapsto> ?p)\<rparr>"
      by (rule save_stream_view(1) [OF v ex])
    moreover have "view w1 = (view w)\<lparr>v_pool := (pooled_balance w)(token s := pooled_balance w (token s) - p)\<rparr>"
      using debit_pool_view(1) [OF d] .
    ultimately have vw: "view (w2\<lparr>token_state := ts\<rparr>) = paid_view (timestamp e) i s p ts (view w)"
      using ledger_debit_pool(6) [OF d] by (simp add: view_token_state paid_view_def)
    have run: "apply_withdrawal tk e i s p w =
      (if outcome = TryOk then Inr (?p, publish (withdrawn_event i ?p p) (w2\<lparr>token_state := ts\<rparr>))
       else Inl (Err (transfer_error outcome)))"
      using t pay(1) ts
      by (simp add: apply_withdrawal_def book d v token_transfer_eq emit_withdrawn_def withdrawn_event_def
          del: emit_withdrawn_Inr)
    show "outcome \<noteq> TryOk \<Longrightarrow> apply_withdrawal tk e i s p w = Inl (Err (transfer_error outcome))"
      using run by simp
    show "outcome = TryOk \<Longrightarrow> \<exists>w'. apply_withdrawal tk e i s p w = Inr (?p, w') \<and>
         view w' = paid_view (timestamp e) i s p ts (view w) \<and> events w' = events w @ [withdrawn_event i ?p p]"
      using run vw ev by simp
  }
qed

text \<open>The booking of a claim and a withdrawal of everything, on worlds that differ in rent.\<close>

lemma apply_withdrawal_alike:
  assumes same: "same_but_rent w v" and inv: "sound_world (timestamp e) w" and s: "lookup_stream w i = Some s"
    and pay: "0 < p" "p \<le> vested_amount s (timestamp e) - withdrawn s"
  shows "alike (apply_withdrawal tk e i s p w) (apply_withdrawal tk e i s p v)"
proof -
  obtain outcome ts where t: "try_transfer tk (token_state w) (token s) (contract_address e) (recipient s) p
      = (outcome, ts)" by (rule prod.exhaust)
  have v: "sound_world (timestamp e) v" "lookup_stream v i = Some s" "token_state v = token_state w"
      "pooled_balance v = pooled_balance w"
    using same_but_rentD [OF same] inv s by simp_all
  have tv: "try_transfer tk (token_state v) (token s) (contract_address e) (recipient s) p = (outcome, ts)"
    using t v(3) by simp
  note a = apply_withdrawal_outcome [OF inv s pay t] and b = apply_withdrawal_outcome [OF v(1,2) pay tv]
  show ?thesis
    using a b v(4) same
    by (cases "in_i128 (pooled_balance w (token s) - p)"; cases "outcome = TryOk") (auto simp: alike_def same_but_rent_def)
qed

lemma withdraw_everything:
  assumes hon: "honest_token tk" and inv: "sound_world (timestamp e) w"
    and b: "backed tk (contract_address e) w" and live: "\<not> is_halted w"
    and s: "lookup_stream w i = Some s" and auth: "authorized e (recipient s)"
    and p: "p = vested_amount s (timestamp e) - withdrawn s" "0 < p"
  shows "withdraw tk e i None w =
    and_then (apply_withdrawal tk e i s p (extend_stream e i s w)) (\<lambda>(s', w'). Inr (p, w'))"
proof -
  let ?w = "extend_stream e i s w"
  have w1: "sound_world (timestamp e) ?w" "lookup_stream ?w i = Some s" "backed tk (contract_address e) ?w"
    using inv s b by simp_all
  have ver: "verify_pool_balance tk e (token s') w' = Inr ()" if run: "apply_withdrawal tk e i s p ?w = Inr (s', w')"
    for s' w'
    using apply_withdrawal_backed [OF hon w1(1,3,2) p(2) _ run] p(1) by (intro verify_total [OF hon]) simp
  have avail: "withdrawable s (timestamp e) = Inr p" using sound_readings(1) [OF sound_worldD(1) [OF inv s]] p by simp
  have "withdraw tk e i None w =
    and_then (apply_withdrawal tk e i s p ?w) (\<lambda>(s', w2).
       and_then (verify_pool_balance tk e (token s') w2) (\<lambda>_. Inr (p, w2)))"
    using live auth p(2)
    by (simp add: withdraw_def require_not_halted_def require_auth_def load_stream_eq s avail Let_def)
  also have "\<dots> = and_then (apply_withdrawal tk e i s p ?w) (\<lambda>(s', w'). Inr (p, w'))"
    using ver by (intro and_then_cong) (auto simp del: verify_pool_balance_Inr)
  finally show ?thesis .
qed

section \<open>The batch\<close>

text \<open>Paying the priced items, with the sum as its result.\<close>

definition pay_sum ::
    "'t token_iface \<Rightarrow> env \<Rightarrow> (u64 \<times> stream \<times> int) list \<Rightarrow> int \<Rightarrow> 't world \<Rightarrow> (int \<times> 't world) result" where
  "pay_sum tk e items acc w =
     and_then (pay_all tk e items w) (\<lambda>w'. Inr (acc + (\<Sum>item\<leftarrow>items. snd (snd item)), w'))"

lemma pay_sum_alike:
  assumes "honest_token tk" "sound_world (timestamp e) w" "backed tk (contract_address e) w" "\<not> is_halted w"
    and "authorized e payee" "distinct (map fst items)" "same_but_rent w v"
    and "\<forall>item\<in>set items. priced (timestamp e) w item \<and> recipient (fst (snd item)) = payee"
  shows "alike (pay_sum tk e items acc w) (withdraw_each tk e (map fst items) acc v)"
  using assms(2-)
proof (induction items arbitrary: w v acc)
  case Nil
  then show ?case by (simp add: pay_sum_def alike_def)
next
  case (Cons item items)
  obtain i s p where item: "item = (i, s, p)" by (cases item)
  have pr: "lookup_stream w i = Some s" "p = max 0 (vested_amount s (timestamp e) - withdrawn s)"
    "recipient s = payee" and d: "distinct (map fst items)"
    and rest: "\<forall>item\<in>set items. priced (timestamp e) w item \<and> recipient (fst (snd item)) = payee"
    using Cons.prems(5,7) by (auto simp: item priced_def)
  note sm = same_but_rentD [OF Cons.prems(6)]
  have v: "lookup_stream v i = Some s" "sound_world (timestamp e) v" "backed tk (contract_address e) v"
    "\<not> is_halted v" using sm Cons.prems pr(1) by simp_all
  have av: "withdrawable_of e v i = Inr p" using sound_views(2) [OF v(2,1)] pr(2) by simp
  show ?case
  proof (cases "p = 0")
    case True
    have "same_but_rent (extend_stream e i s w) v" using Cons.prems(6) by (simp add: same_but_rent_def)
    then have "alike (pay_sum tk e items acc (extend_stream e i s w)) (withdraw_each tk e (map fst items) acc v)"
      using Cons.prems d rest by (intro Cons.IH) (simp_all add: priced_def)
    then show ?thesis using True av by (simp add: item pay_sum_def)
  next
    case False
    then have p: "0 < p" "p = vested_amount s (timestamp e) - withdrawn s"
      "p \<le> vested_amount s (timestamp e) - withdrawn s" using pr(2) by (simp_all add: max_def split: if_splits)
    have "same_but_rent w (extend_stream e i s v)" using Cons.prems(6) by (simp add: same_but_rent_def)
    note ap = apply_withdrawal_alike [OF this Cons.prems(1) pr(1) p(1,3), of tk]
    have wd: "withdraw tk e i None v =
        and_then (apply_withdrawal tk e i s p (extend_stream e i s v)) (\<lambda>(s', w'). Inr (p, w'))"
      by (rule withdraw_everything [OF assms(1) v(2,3,4,1) _ p(2,1)]) (simp add: pr(3) Cons.prems(4))
    show ?thesis
    proof (cases "apply_withdrawal tk e i s p w")
      case (Inl f)
      then show ?thesis using ap False av wd by (simp add: alike_def item pay_sum_def)
    next
      case (Inr x)
      obtain s' w1 where run: "apply_withdrawal tk e i s p w = Inr (s', w1)" using Inr by (cases x) simp
      then obtain v1 where v1: "apply_withdrawal tk e i s p (extend_stream e i s v) = Inr (s', v1)"
        "same_but_rent w1 v1" using ap by (auto simp: alike_def)
      note eff = apply_withdrawal_effect [OF sound_worldD(1) [OF Cons.prems(1) pr(1)] pr(1) p(1,3) run]
      have "\<not> is_halted w1"
        using eff(6) Cons.prems(3) by (simp add: settles_def control_of_def is_halted_def)
      moreover have "\<forall>it\<in>set items. priced (timestamp e) w1 it \<and> recipient (fst (snd it)) = payee"
        using rest Cons.prems(5) eff(2) by (force simp: priced_def item)
      ultimately have "alike (pay_sum tk e items (acc + p) w1) (withdraw_each tk e (map fst items) (acc + p) v1)"
        using settles_sound [OF eff(6) Cons.prems(1)]
          apply_withdrawal_backed [OF assms(1) Cons.prems(1,2) pr(1) p(1,3) run] Cons.prems(4) d v1(2)
        by (intro Cons.IH)
      then show ?thesis using False av wd v1(1) run by (simp add: item pay_sum_def add.assoc)
    qed
  qed
qed

text \<open>Pricing cannot fail within the range of the sum, nor reconciliation on a backed world.\<close>

lemma price_withdrawals_total:
  assumes inv: "sound_world (timestamp e) w"
    and "\<forall>i\<in>set ids. \<exists>s. lookup_stream w i = Some s \<and> recipient s = payee"
    and "0 \<le> acc"
    and "acc + (\<Sum>i\<leftarrow>ids. case withdrawable_of e w i of Inr a \<Rightarrow> a | Inl f \<Rightarrow> 0) \<le> i128_max"
  shows "\<exists>items. price_withdrawals e payee w ids acc =
    Inr (items, acc + (\<Sum>i\<leftarrow>ids. case withdrawable_of e w i of Inr a \<Rightarrow> a | Inl f \<Rightarrow> 0))"
  using assms(2-)
proof (induction ids arbitrary: acc)
  case (Cons i ids)
  let ?f = "\<lambda>i. case withdrawable_of e w i of Inr a \<Rightarrow> a | Inl f \<Rightarrow> 0"
  have nn: "0 \<le> ?f j" if "lookup_stream w j = Some r" for j r
    using sound_views(2) [OF inv that] by simp
  obtain s where s: "lookup_stream w i = Some s" "recipient s = payee" using Cons.prems(1) by auto
  have a: "withdrawable s (timestamp e) = Inr (?f i)"
    using sound_views(2) [OF inv s(1)] sound_readings(1) [OF sound_worldD(1) [OF inv s(1)]] by simp
  have "0 \<le> (\<Sum>i\<leftarrow>ids. ?f i)" using Cons.prems(1) nn by (intro sum_list_nonneg) auto
  then have r: "in_i128 (acc + ?f i)" "0 \<le> acc + ?f i"
    using Cons.prems(2,3) nn [OF s(1)] by (auto simp: in_i128_nonneg)
  obtain items where "price_withdrawals e payee w ids (acc + ?f i) = Inr (items, acc + ?f i + (\<Sum>i\<leftarrow>ids. ?f i))"
    using Cons.IH [of "acc + ?f i"] Cons.prems(1,3) r(2) by (auto simp: add.assoc)
  moreover have "peek_stream w i = Inr s" using s(1) by simp
  ultimately show ?case
    using a r(1) s(2) by (simp add: checked_add_i128_def add.assoc)
qed simp

text \<open>The batch as a whole.\<close>

lemma batch_withdraw_alike:
  assumes hon: "honest_token tk" and inv: "sound_world (timestamp e) w"
    and b: "backed tk (contract_address e) w" and live: "\<not> is_halted w" and auth: "authorized e payee"
    and ids: "ids \<noteq> []" "length ids \<le> MAX_BATCH_SIZE" "distinct ids"
    and mine: "\<forall>i\<in>set ids. \<exists>s. lookup_stream w i = Some s \<and> recipient s = payee"
    and sum: "(\<Sum>i\<leftarrow>ids. case withdrawable_of e w i of Inr a \<Rightarrow> a | Inl f \<Rightarrow> 0) \<le> i128_max"
  shows "alike (batch_withdraw tk e payee (map RawU64 ids) w) (withdraw_each tk e ids 0 w)"
proof -
  obtain items final where pr: "price_withdrawals e payee w ids 0 = Inr (items, final)"
    using price_withdrawals_total [OF inv mine, of 0] sum by auto
  note items = price_withdrawals_Inr [OF pr inv]
  have rec: "reconcile_tokens tk e w' [] (map (\<lambda>(i, s, p). token s) items) = Inr ()"
    if "pay_all tk e items w = Inr w'" for w'
    using pay_all_backed [OF hon that inv b] items(1,2) ids(3) verify_total [OF hon]
    by (simp add: reconcile_tokens_Inr del: verify_pool_balance_Inr)
  have "batch_withdraw tk e payee (map RawU64 ids) w =
    and_then (pay_all tk e items w) (\<lambda>w1.
       and_then (reconcile_tokens tk e w1 [] (map (\<lambda>(i, s, p). token s) items)) (\<lambda>_. Inr (final, w1)))"
    using live auth ids pr
    by (simp add: batch_withdraw_def require_not_halted_def require_auth_def validate_batch_ids_def decode_ids_total
        reject_duplicate_ids_Inr [of ids "()", THEN iffD2])
  also have "\<dots> = pay_sum tk e items 0 w"
    unfolding pay_sum_def using rec items(4) by (intro and_then_cong) auto
  finally show ?thesis
    using pay_sum_alike [OF hon inv b live auth, of items w 0] items ids(3) by (simp add: same_but_rent_def)
qed

end
