(* ===== verification/Protocol_Limits.thy ===== *)
theory Protocol_Limits
  imports Calendar
begin

text \<open>
  The resource ceilings of \<^verbatim>\<open>contracts/stream/src/protocol_limits.rs\<close>: the table that maps a
  protocol version to its calibrated ceilings, the error that names a version without any, and the
  pinned entry, whose evaluation at compile time is what keeps the pin and the table together.
\<close>

section \<open>The code\<close>

definition SOROBAN_PROTOCOL_VERSION :: u32 where
  "SOROBAN_PROTOCOL_VERSION = 21"

record protocol_budget_limits =
  single_withdraw_cpu_max :: u64
  single_withdraw_mem_max :: u64
  batch_withdraw_10_cpu_max :: u64
  batch_withdraw_10_mem_max :: u64
  create_streams_5_cpu_max :: u64
  create_streams_5_mem_max :: u64

datatype unsupported_protocol_version = UnsupportedProtocolVersion (requested_version: u32)

definition unsupported_text :: "unsupported_protocol_version \<Rightarrow> string" where
  "unsupported_text er =
     ''Soroban protocol version '' @ decimal (unat (requested_version er)) @
     '' has no calibrated resource ceilings; add a match arm in protocol_budget_limits''"

definition budget_limits_of :: "u32 \<Rightarrow> unsupported_protocol_version + protocol_budget_limits" where
  "budget_limits_of version =
     (if version = 21 then Inr \<lparr>
        single_withdraw_cpu_max = 1000000,
        single_withdraw_mem_max = 500000,
        batch_withdraw_10_cpu_max = 5000000,
        batch_withdraw_10_mem_max = 2000000,
        create_streams_5_cpu_max = 3000000,
        create_streams_5_mem_max = 1500000\<rparr>
      else Inl (UnsupportedProtocolVersion version))"

text \<open>The constant; a panic here is a build that fails.\<close>

definition LIMITS :: "'e fault + protocol_budget_limits" where
  "LIMITS =
     (case budget_limits_of SOROBAN_PROTOCOL_VERSION of
        Inr limits \<Rightarrow> Inr limits
      | Inl _ \<Rightarrow> Inl Trap)"

section \<open>The pin is calibrated, and errors name their version\<close>

lemma LIMITS_calibrated: "\<exists>limits. LIMITS = Inr limits \<and> budget_limits_of SOROBAN_PROTOCOL_VERSION = Inr limits"
  by (simp add: LIMITS_def budget_limits_of_def SOROBAN_PROTOCOL_VERSION_def)

lemma budget_limits_of_total:
  "budget_limits_of v = Inl er \<longleftrightarrow> v \<noteq> SOROBAN_PROTOCOL_VERSION \<and> requested_version er = v"
  by (cases er) (auto simp: budget_limits_of_def SOROBAN_PROTOCOL_VERSION_def)

text \<open>Batching is calibrated to pay: ten withdrawals or five creations cost less than one by one.\<close>

lemma batches_pay:
  assumes "budget_limits_of v = Inr limits"
  shows "batch_withdraw_10_cpu_max limits < 10 * single_withdraw_cpu_max limits"
    "batch_withdraw_10_mem_max limits < 10 * single_withdraw_mem_max limits"
  using assms by (auto simp: budget_limits_of_def split: if_splits)

end
