(* ===== verification/Archival_Probe.thy ===== *)
theory Archival_Probe
  imports Prelude
begin

text \<open>
  The archival probe (\<^verbatim>\<open>contracts/archival-probe/src/lib.rs\<close>): one persistent entry that is written
  and never extended. The host's rent is a field of the world here, so that what the probe leaves
  out, the extension that \<open>extend_stream\<close> of the product never omits, is visible: a first write
  leaves the entry with the network's minimum, and no later operation adds to it.
\<close>

datatype probe_key = Canary

datatype probe_error = NotPlanted

definition probe_discriminant :: "probe_error \<Rightarrow> u32" where
  "probe_discriminant er = (case er of NotPlanted \<Rightarrow> 1)"

record probe_world =
  canary_entries :: "probe_key \<rightharpoonup> string"
  canary_live_until :: "probe_key \<Rightarrow> nat"

text \<open>
  \<open>persistent().set\<close> as the host documents it: a new entry lives for the minimum of the network,
  counted with the current ledger, an old one keeps its rent.
\<close>

definition persistent_set :: "nat \<Rightarrow> nat \<Rightarrow> probe_key \<Rightarrow> string \<Rightarrow> probe_world \<Rightarrow> probe_world" where
  "persistent_set min_ttl seq k v w =
     w\<lparr>canary_entries := (canary_entries w)(k \<mapsto> v),
       canary_live_until := (if canary_entries w k = None
         then (canary_live_until w)(k := seq + min_ttl - 1) else canary_live_until w)\<rparr>"

definition plant :: "nat \<Rightarrow> nat \<Rightarrow> string \<Rightarrow> probe_world \<Rightarrow> probe_world" where
  "plant min_ttl seq note w = persistent_set min_ttl seq Canary note w"

definition read :: "probe_world \<Rightarrow> probe_error fault + string" where
  "read w = ok_or (Err NotPlanted) (canary_entries w Canary)"

definition planted :: "probe_world \<Rightarrow> bool" where
  "planted w = (canary_entries w Canary \<noteq> None)"

section \<open>What the probe measures\<close>

lemma read_planted:
  "read (plant min_ttl seq note w) = Inr note" "planted (plant min_ttl seq note w)"
  "planted w \<longleftrightarrow> (\<exists>note. read w = Inr note)"
  by (auto simp: read_def plant_def planted_def persistent_set_def)

text \<open>Planting again never buys rent, however often and whenever it is done.\<close>

lemma plants_never_extend:
  assumes "planted w"
  shows "canary_live_until (fold (\<lambda>(seq, note). plant min_ttl seq note) plants w) = canary_live_until w"
  using assms
proof (induction plants arbitrary: w)
  case (Cons p plants)
  obtain seq sym where p: "p = (seq, sym)" by (cases p)
  have "canary_live_until (plant min_ttl seq sym w) = canary_live_until w"
    using Cons.prems by (auto simp: planted_def plant_def persistent_set_def)
  with Cons.IH [OF read_planted(2) [of min_ttl seq sym w]] show ?case by (simp add: p)
qed simp

end
