(* ===== verification/Messages.thy ===== *)
theory Messages
  imports Command_Line
begin

text \<open>
  What the provenance tool prints: the \<open>Display\<close> of its errors (\<^verbatim>\<open>tools/provenance/src/lib.rs\<close>), the
  usage text and the messages of the command line (\<^verbatim>\<open>tools/provenance/src/main.rs\<close>). The texts of
  paths, and those of the errors of the libraries, are a parameter. Characters are bytes, so a
  dash of the usage text is three of them, and the eight first characters of a revision eight bytes.
\<close>

section \<open>Errors\<close>

record wording =
  path_text :: "path \<Rightarrow> string"
  library_text :: "tool_error \<Rightarrow> string"
  debug_text :: "string \<Rightarrow> string"

fun display_error :: "wording \<Rightarrow> tool_error \<Rightarrow> string" where
  "display_error t (ReleaseDirMissing p) = ''release dir does not exist: '' @ path_text t p"
| "display_error t (NotADirectory p) = ''release path is not a directory: '' @ path_text t p"
| "display_error t (NoWasmArtifacts p) = ''no *.wasm artifacts found in '' @ path_text t p"
| "display_error t (WorkspaceRootNotFound p) =
     ''could not find a workspace Cargo.toml (with [workspace]) walking up from '' @ path_text t p"
| "display_error t (IoError p) = path_text t p @ '': '' @ library_text t (IoError p)"
| "display_error t Utf8Error = ''command output was not valid UTF-8: '' @ library_text t Utf8Error"
| "display_error t (TomlError msg) = ''TOML parse error: '' @ msg"
| "display_error t JsonError = ''JSON error: '' @ library_text t JsonError"
| "display_error t (GitError msg) = ''git: '' @ msg"
| "display_error t (ToolVersion tool msg) = tool @ '' --version failed: '' @ msg"
| "display_error t (HostParse out) =
     ''could not read the host triple from `rustc -vV`: '' @ debug_text t out"
| "display_error t SdkVersionNotFound = ''soroban-sdk not found in Cargo.lock''"
| "display_error t (ManifestMissing p) = ''provenance manifest not found: '' @ path_text t p"
| "display_error t (MissingArtifact name) =
     ''artifact listed in the manifest is missing from the release dir: '' @ name"
| "display_error t (HashMismatch name expected actual) =
     ''sha256 mismatch for '' @ name @ '': manifest '' @ expected @ '' != on-disk '' @ actual @
     '' (rebuild and regenerate, or investigate before releasing)''"
| "display_error t (UnlistedArtifact name) =
     ''artifact present in the release dir is not listed in the manifest: '' @ name @
     '' (regenerate provenance so every contract is covered)''"
| "display_error t (MetadataMismatch field recorded actual) =
     field @ '' drifted since provenance was generated: manifest '' @ recorded @ '' != current '' @ actual"

section \<open>The command line\<close>

definition newline :: string where "newline = [CHR 0x0A]"

definition quoted_text :: "string \<Rightarrow> string" where
  "quoted_text s = [CHR 0x27] @ s @ [CHR 0x27]"

definition USAGE :: string where
  "USAGE = concat (map (\<lambda>l. l @ newline) [
     ''fluxora-provenance '' @ [CHR 0xE2, CHR 0x80, CHR 0x94] @ '' wasm provenance for Fluxora contract releases'',
     '''',
     ''Usage:'',
     ''  fluxora-provenance generate <release-dir> [--manifest <path>] [--workspace-root <dir>] [--target <triple>]'',
     ''  fluxora-provenance verify   <release-dir> [--manifest <path>] [--workspace-root <dir>] [--target <triple>]'',
     ''  fluxora-provenance help'',
     '''',
     ''Commands:'',
     ''  generate   Hash every *.wasm in <release-dir> and write provenance.json and'',
     ''             SHASUMS next to the artifacts.'',
     ''  verify     Re-hash the artifacts and compare against provenance.json; exit'',
     ''             non-zero on any mismatch. This is the release gate.'',
     '''',
     ''Options:'',
     ''  --manifest <path>       Manifest path (default: <release-dir>/provenance.json).'',
     ''  --workspace-root <dir>  Workspace root to read toolchain, sdk, profile and git'',
     ''                          from (default: discovered by walking up from <release-dir>).'',
     ''  --target <triple>       Wasm target triple recorded and checked'',
     ''                          (default: wasm32v1-none, per rust-toolchain.toml).'',
     '''',
     ''Exit codes:'',
     ''  0  success'',
     ''  1  generation or verification failed'',
     ''  2  usage error''])"

text \<open>What a run prints on the two streams, the warnings of the library left out.\<close>

record printed =
  out_text :: string
  err_text :: string

definition on_stdout :: "string \<Rightarrow> printed" where
  "on_stdout s = \<lparr>out_text = s, err_text = ''''\<rparr>"

definition on_stderr :: "string \<Rightarrow> printed" where
  "on_stderr s = \<lparr>out_text = '''', err_text = s\<rparr>"

text \<open>A usage error: one line, an empty line, the usage text.\<close>

definition usage_error :: "string \<Rightarrow> printed" where
  "usage_error msg = on_stderr (''fluxora-provenance: '' @ msg @ newline @ newline @ USAGE)"

definition generated_text :: "'j manifest \<Rightarrow> string" where
  "generated_text m =
     ''wrote '' @ manifest_schema m @ '' for '' @ decimal (length (manifest_subject m)) @
     '' artifact(s), target '' @ info_target (manifest_build m) @
     '', git '' @ take 8 (info_git_revision (manifest_build m))"

definition verified_text :: "nat \<Rightarrow> string" where
  "verified_text n = ''verified '' @ decimal n @ '' artifact(s) against the manifest''"

definition verdict_text :: "wording \<Rightarrow> string tool_result \<Rightarrow> printed" where
  "verdict_text t r =
     (case r of
        Inr msg \<Rightarrow> on_stdout (''fluxora-provenance: '' @ msg @ newline)
      | Inl er \<Rightarrow> on_stderr (''fluxora-provenance: FAILED: '' @ display_error t er @ newline))"

definition dispatch_text ::
    "('v, 'j) toolbox \<Rightarrow> wording \<Rightarrow> (string \<Rightarrow> path) \<Rightarrow> string list \<Rightarrow> bool \<Rightarrow> disk \<Rightarrow> printed" where
  "dispatch_text h t resolve rest is_generate d =
     (case read_arguments rest no_options of
        HelpAsked \<Rightarrow> on_stdout USAGE
      | ValueMissing key \<Rightarrow> usage_error (''option '' @ quoted_text key @ '' requires a value'')
      | UnknownOption key \<Rightarrow> usage_error (''unknown option '' @ quoted_text key)
      | UnexpectedArgument key \<Rightarrow> usage_error (''unexpected argument '' @ quoted_text key)
      | Options opts \<Rightarrow>
          (case opt_release_dir opts of
             None \<Rightarrow> usage_error ''missing <release-dir>''
           | Some dir \<Rightarrow>
               verdict_text t
                 (if is_generate then
                    and_then (fst (generate h (resolve dir) (map_option resolve (opt_manifest opts))
                        (map_option resolve (opt_workspace_root opts)) (opt_target opts) d))
                      (\<lambda>m. Inr (generated_text m))
                  else
                    and_then (verify h (resolve dir) (map_option resolve (opt_manifest opts))
                        (map_option resolve (opt_workspace_root opts)) (opt_target opts) d)
                      (\<lambda>n. Inr (verified_text n)))))"

definition main_text ::
    "('v, 'j) toolbox \<Rightarrow> wording \<Rightarrow> (string \<Rightarrow> path) \<Rightarrow> string list \<Rightarrow> disk \<Rightarrow> printed" where
  "main_text h t resolve argv d =
     (case argv of
        [] \<Rightarrow> on_stderr USAGE
      | cmd # rest \<Rightarrow>
          if cmd \<in> {''-h'', ''--help'', ''help''} then on_stdout USAGE
          else if cmd = ''generate'' then dispatch_text h t resolve rest True d
          else if cmd = ''verify'' then dispatch_text h t resolve rest False d
          else usage_error (''unknown command '' @ quoted_text cmd))"

section \<open>The streams follow the exit code\<close>

text \<open>
  A run writes on one of the two streams: on the standard output when it exits with 0, on the
  standard error otherwise, and a failure of the gate is told from a usage error by its text.
\<close>

lemma verdict_stream:
  "out_text (verdict_text t r) = '''' \<longleftrightarrow> (\<exists>er. r = Inl er)"
  "err_text (verdict_text t r) = '''' \<longleftrightarrow> (\<exists>msg. r = Inr msg)"
  by (auto simp: verdict_text_def on_stdout_def on_stderr_def split: sum.splits)

lemma usage_stream:
  "out_text (usage_error msg) = ''''" "err_text (usage_error msg) \<noteq> ''''" "USAGE \<noteq> ''''"
  by (simp_all add: usage_error_def on_stderr_def USAGE_def newline_def)

lemma dispatch_stream:
  "dispatch h resolve rest g d = (code, d') \<Longrightarrow>
     (out_text (dispatch_text h t resolve rest g d) \<noteq> '''' \<longleftrightarrow> code = EXIT_SUCCESS) \<and>
     (err_text (dispatch_text h t resolve rest g d) = '''' \<longleftrightarrow> code = EXIT_SUCCESS)"
  using usage_stream(3)
  by (auto simp: dispatch_def dispatch_text_def usage_stream(1,2) verdict_stream on_stdout_def EXIT_SUCCESS_def
      EXIT_FAILURE_def EXIT_USAGE_def split: arguments.splits option.splits if_splits prod.splits sum.splits)

lemma main_stream:
  "main_tool h resolve argv d = (code, d') \<Longrightarrow>
     (out_text (main_text h t resolve argv d) \<noteq> '''' \<longleftrightarrow> code = 0) \<and>
     (err_text (main_text h t resolve argv d) = '''' \<longleftrightarrow> code = 0)"
  using dispatch_stream [of h resolve _ _ d code d' t] usage_stream(3)
  by (auto simp: main_tool_def main_text_def usage_stream(1,2) on_stdout_def on_stderr_def EXIT_SUCCESS_def
      EXIT_USAGE_def split: list.splits if_splits)

end
