(* ===== verification/Spec2Isabelle.thy ===== *)
theory Spec2Isabelle
  imports Incident Curves Rent Release_Sample Freeze Any_Calls Batch_Sequence Protocol_Limits Archival_Probe Messages
begin

text \<open>
  A verification development of the Fluxora contracts: token streams on Soroban, a factory that
  puts a policy in front of their creation, and the tool that ties release artifacts to a build.

  \<^bold>\<open>The program.\<close> A sender locks a deposit of a token in the stream contract
  (\<^verbatim>\<open>contracts/stream/src\<close>); it vests to a recipient along a curve between a start and an end, from a
  cliff on. The recipient withdraws what has vested; the sender may pause, resume, cancel, top up
  and reassign as far as the flags fixed at creation allow; both may delegate their rights to third
  parties; an operator may halt the contract. All deposits of a token sit in one balance of the
  contract, of which \<open>PooledBalance\<close> is the accounted part. The factory
  (\<^verbatim>\<open>contracts/factory/src/lib.rs\<close>) stores a policy that \<open>create_stream_via_factory\<close> reads by
  cross-contract calls. The tool (\<^verbatim>\<open>tools/provenance/src\<close>) hashes the compiled contracts into a
  manifest and verifies them before a release.

  \<^bold>\<open>Theories and sources.\<close>
  \<^item> \<open>Prelude\<close>: results (\<open>?\<close> is \<open>and_then\<close>; an error, or a trap), machine integers. A \<open>u64\<close> and
    a \<open>u32\<close> are words; an \<open>i128\<close> is an integer whose every operation is the checked one of the code.
  \<^item> \<open>Stream_Types\<close> (\<^verbatim>\<open>types.rs\<close>, \<^verbatim>\<open>error.rs\<close>), \<open>Accrual\<close> (\<^verbatim>\<open>accrual.rs\<close>), \<open>Ledger_Host\<close> (\<^verbatim>\<open>events.rs\<close>,
    the environment of an invocation, the token as a parameter, the world of the contract with one
    field for each family of storage keys), \<open>Storage\<close> (\<^verbatim>\<open>storage.rs\<close>).
  \<^item> \<open>Stream_Machine\<close>: the specification of one stream, well-formedness (\<open>wf_stream\<close>) and the steps
    a stream may take (\<open>stream_step\<close>). \<open>Ledger_Machine\<close>: the specification of all streams, the pool
    and the id counter (\<open>ledger_step\<close>, \<open>ledger_inv\<close>). \<open>Overdraft\<close>: what is left of both when a stream
    may be paid more than it has vested (\<open>sound\<close>, \<open>free_step\<close>, \<open>ledger_shift\<close>). \<open>Operation\<close>: the
    locales of an operation that settles streams, with or without the halt check, and the worlds
    they run on (\<open>sound_world\<close>, and \<open>world_inv\<close> where no stream is overdrawn).
  \<^item> The entry points of \<^verbatim>\<open>lib.rs\<close>, one definition each, in \<open>Pool\<close> (token movements), \<open>Creation\<close>,
    \<open>Settlement\<close> (top-up, withdrawal, cancellation, dust), \<open>Control\<close> (pause, resume, transfer),
    \<open>Batch\<close>, \<open>Delegation\<close>, \<open>Maintenance\<close> (views, rent, halt), \<open>Via_Factory\<close>. \<open>Factory_Policy\<close> is the
    factory contract. Every entry point is an interpretation of a locale of \<open>Operation\<close>, every setter
    of the factory one of \<open>factory_setter\<close>, the functions of \<open>Storage\<close> of \<open>stream_store\<close>.
  \<^item> \<open>Batch_Sequence\<close> has batched withdrawals against single ones, \<open>Event_Log\<close> the events of every entry
    point (locale \<open>logging\<close>) against an auditor who keeps books from them, \<open>Freeze\<close> what the books show
    to stay as it is, until the halt is lifted or a grant renewed.
  \<^item> \<open>System\<close>: all calls as a datatype, a step relation with rollback of failed calls and passing
    time, and the worlds reached while no delegate tops up a stream that is not linear
    (\<open>system_reachable\<close>). \<open>Solvency\<close>: the movements of an honest token. \<open>Any_Calls\<close>: the runs of any
    calls (\<open>any_run\<close>, \<open>any_reachable\<close>) and those among honest tokens in which nobody else draws on
    the contract's balance (\<open>in_custody\<close>), with their invariants. \<open>Progress\<close>: calls that cannot fail. \<open>Curves\<close>: the curves as
    shapes. \<open>Rent\<close>: how long entries live. \<open>Scenario\<close> and \<open>Incident\<close>: concrete reachable worlds.
  \<^item> \<open>Calendar\<close>, \<open>Provenance\<close>, \<open>Release_Gate\<close>, \<open>Command_Line\<close>, \<open>Release_Sample\<close>: the tool. Its
    timestamps against the Gregorian calendar, its library over a disk, the decision of its gate,
    its arguments and exit codes, a release directory on which it runs; \<open>Messages\<close> is what it prints.
  \<^item> \<open>Protocol_Limits\<close> (\<^verbatim>\<open>contracts/stream/src/protocol_limits.rs\<close>) and \<open>Archival_Probe\<close>
    (\<^verbatim>\<open>contracts/archival-probe/src/lib.rs\<close>), a table of ceilings and a test contract.

  \<^bold>\<open>What is shown.\<close> The properties of the stream contract hold of runs of any calls, by anybody and
  in any order. Such runs keep the accounting exact and every view readable, real balances cover the
  pool with an honest token, entitlement never falls, terminal streams are final (C1 to C5), and an
  auditor can rebuild the contract from its events (C6). Each entry point does what it says and
  refuses what it should, and a withdrawal, a cancellation, a creation and the rest of a settled
  stream are available; a batch is the sum of its members (C7 to C22). Delegation is direct action
  behind a live grant (C23 to C25). The halt stops what it names; what it does not stop, and what
  else the code does against its documentation, is stated as such (C26 to C30). The calls refine
  the ledger machine (C31). Curves, storage, rent and the factory policy are characterised (C32 to
  C37), and the tool is shown to decide what it should, to end, and to date its manifests correctly
  (C38 to C40).

  \<^bold>\<open>Parameters and hypotheses.\<close> The token contract is a record of two functions over a token state
  of any type. \<open>honest_token\<close> states what a token promises about the balances the contract reads
  and is assumed only where a property speaks of real balances or of progress; \<open>book_token\<close> meets
  it. The factory behind an address is a record of two queries; \<open>deployed_factories\<close> puts this
  repository's factory there. A host trap and an error both roll the whole call back, so neither
  carries a world. The clock never goes backwards. Digest, TOML, JSON, commands and clock of the
  tool are a record (\<open>toolbox\<close>).

  \<^bold>\<open>Overdrawn streams.\<close> A delegated top-up of a stream whose curve is not linear is not a step of the
  stream machine: it moves the end of a schedule whose shape depends on it without the re-check of
  \<open>top_up\<close>, and what has vested may fall below what was paid out. C30 runs the code into such a world
  and on to a pool that holds less than a stream of it is owed. The call is a free step of a sound
  stream all the same, so the other properties hold of the worlds behind it; those it can break say
  so. Linear streams are never overdrawn; of the other curves C1, C2, C4, C29 and C31 say more where
  the call was never made (\<open>keeps_curve\<close>, \<open>system_reachable\<close>), and C8, C11, C12 and C28, which need
  the money to be there, ask that the pool of the token is not negative, which C1 shows to be so
  where every stream of the token is linear or that call was never made.

  \<^bold>\<open>Bounds.\<close> Loops of the code run over lists, so their models recurse on the list; batches are limited
  to 16 elements by the code. The two loops of the tool whose end depends on the input are partial
  functions (\<open>argument_loop\<close>, \<open>walk_loop\<close>), shown to return. No fuel is used. \<open>u64::div_ceil\<close> and the
  arithmetic of \<open>civil_from_days\<close> are on integers, within ranges in which the code cannot overflow.

  \<^bold>\<open>Not modelled.\<close> The encoding of values and topics by the SDK; the archival of entries whose rent ran
  out, which the host performs; resource metering, which the ceilings of \<open>Protocol_Limits\<close> are for;
  \<open>debug_assert\<close> lines, absent from the release profile; the warnings of the tool's library and the
  texts of the libraries it calls; scripts, tests and documentation.
\<close>

section \<open>The ledger of the contract\<close>

text \<open>
  C1. In every world the contract can reach, by whatever calls, a stream exists exactly for the ids
  below the stream count, and the pooled balance it accounts for a token is the sum of what its
  streams still hold, in the range of an i128. It covers what each of them still holds, and is not
  negative, where every stream of the token vests linearly or no delegate has topped up one that
  does not.
\<close>

theorem system_accounting:
  assumes "any_reachable tk fi ca foreign ts now w"
  shows "(stream_exists w i \<longleftrightarrow> i < stream_count w) \<and>
    pooled_balance w tkn = owed (lookup_stream w) tkn \<and> in_i128 (pooled_balance w tkn) \<and>
    ((\<forall>j s. get_stream w j = Inr s \<and> token s = tkn \<longrightarrow> curve s = Linear) \<or> system_reachable tk fi now w \<longrightarrow>
       0 \<le> pooled_balance w tkn \<and>
       (\<forall>j s. get_stream w j = Inr s \<and> token s = tkn \<longrightarrow> owed_by s \<le> pooled_balance w tkn))"
proof -
  note d = sound_worldD [OF any_reachable_sound [OF assms]]
  have "0 \<le> owed_on tkn (lookup_stream w j)"
    if "\<forall>j s. get_stream w j = Inr s \<and> token s = tkn \<longrightarrow> curve s = Linear" for j
    using that d(1) [of j] owed_by_nonneg by (auto simp: owed_on_def get_stream_def sound_linear split: option.split)
  moreover have "0 \<le> owed_on tkn (lookup_stream w j)" if "system_reachable tk fi now w" for j
    using reachable_world_inv [OF that] by (rule pool_nonneg)
  ultimately have "(\<forall>j s. get_stream w j = Inr s \<and> token s = tkn \<longrightarrow> curve s = Linear) \<or> system_reachable tk fi now w \<longrightarrow>
       0 \<le> pooled_balance w tkn \<and>
       (\<forall>j s. get_stream w j = Inr s \<and> token s = tkn \<longrightarrow> owed_by s \<le> pooled_balance w tkn)"
    using owed_covers [of tkn "lookup_stream w"] unfolding d(3) by (auto simp: get_stream_def)
  then show ?thesis
    using d(2) [of i] d(3,4) [of tkn] d(5)
    by (auto simp: exists_lookup counters_agree_def not_le [symmetric])
qed

lemma system_accounting_witness:
  "stream_exists world2 1 \<and> pooled_balance world2 coin = owed (lookup_stream world2) coin \<and>
   0 \<le> pooled_balance world2 coin"
  using system_accounting [OF any_reaches(3), of 1 coin] system_reaches(2)
  by (simp add: exists_lookup world2_facts)

text \<open>
  C2. In every world the contract can reach, by whatever calls, every view of an existing stream
  answers: the vested amount lies between zero and the deposit, the refundable amount is its
  distance to the deposit, the withdrawable one what it has above the payments, and the liability
  is the deposit less the payments. No reading overflows or traps. The payments are within the
  vested amount on a linear stream, and on any while no delegate tops up a stream of another curve.
\<close>

theorem readings_available:
  assumes "any_reachable tk fi ca foreign ts (timestamp e) w" "stream_exists w i"
  shows "\<exists>s v. get_stream w i = Inr s \<and> vested_of e w i = Inr v \<and>
     withdrawable_of e w i = Inr (max 0 (v - withdrawn s)) \<and> refundable_of e w i = Inr (deposited s - v) \<and>
     liability s = Inr (deposited s - withdrawn s) \<and>
     0 \<le> withdrawn s \<and> 0 \<le> v \<and> v \<le> deposited s \<and> deposited s \<le> i128_max \<and>
     (curve s = Linear \<or> system_reachable tk fi (timestamp e) w \<longrightarrow> withdrawn s \<le> v)"
proof -
  have inv: "sound_world (timestamp e) w" using assms(1) by (rule any_reachable_sound)
  obtain s where s: "lookup_stream w i = Some s" using assms(2) by (auto simp: exists_lookup)
  have so: "sound (timestamp e) s" using inv s by (rule sound_worldD(1))
  have "wf_stream (timestamp e) s" if "curve s = Linear \<or> system_reachable tk fi (timestamp e) w"
    using that so world_invD(1) [OF reachable_world_inv s] by (auto simp: sound_linear)
  then have "curve s = Linear \<or> system_reachable tk fi (timestamp e) w \<longrightarrow>
      withdrawn s \<le> vested_amount s (timestamp e)"
    using wf_streamD(3) by blast
  then show ?thesis using sound_views [OF inv s] soundD [OF so] sound_readings(3) [OF so] by blast
qed

lemma readings_available_witness:
  "\<exists>s v. get_stream world2 1 = Inr s \<and> vested_of (env_at 1000) world2 1 = Inr v \<and> withdrawn s \<le> v \<and> v \<le> deposited s"
  using readings_available [of book_token no_factories streams_at "\<lambda>_ _. True" purse "env_at 1000" world2 1]
    any_reaches(3) system_reaches(2)
  by (fastforce simp: exists_lookup world2_facts)

text \<open>
  C3. Solvency. With tokens that keep their books, in every world reached by calls of the
  contract of whatever kind, time, and foreign transfers that take nothing from it, the contract
  holds at least what it accounts for every token, the sum of what its streams still hold.
\<close>

theorem pool_is_backed:
  assumes "honest_token tk" "in_custody tk fi ca now w"
  shows "pooled_balance w tkn \<le> held tk (token_state w) tkn ca \<and>
    owed (lookup_stream w) tkn \<le> held tk (token_state w) tkn ca"
  using in_custody_inv(2) [OF assms] sound_worldD(3) [OF in_custody_inv(1) [OF assms], of tkn]
  unfolding backed_def by metis

lemma pool_is_backed_witness: "owed (lookup_stream world2) coin \<le> held book_token (token_state world2) coin streams_at"
  using pool_is_backed [OF book_token_honest custody_reaches(3), of coin] by simp

text \<open>
  C4. Across any run of calls, successful or not, by anybody, what the recipient of a linear stream
  has earned and what has been paid out never fall, the terms of the stream never change, and if it
  cannot be cancelled it never holds less than it did. The same holds of a stream of any curve
  across any run in which no delegate tops up a stream that is not linear.
\<close>

theorem entitlement_never_falls:
  assumes "get_stream w i = Inr s"
    and "any_reachable tk fi ca foreign ts now w \<and> any_run tk fi ca foreign (now, w) (later, w') \<and> curve s = Linear \<or>
      system_reachable tk fi now w \<and> system_run tk fi (now, w) (later, w')"
  shows "\<exists>s'. get_stream w' i = Inr s' \<and> now \<le> later \<and>
     vested_amount s now \<le> vested_amount s' later \<and> withdrawn s \<le> withdrawn s' \<and>
     same_terms s s' \<and> (\<not> cancellable s \<longrightarrow> deposited s \<le> deposited s')"
proof -
  have s: "lookup_stream w i = Some s" using assms(1) by (simp add: get_stream_def)
  obtain s' where s': "lookup_stream w' i = Some s'" "stream_life now s later s'" and wf: "wf_stream now s"
    using assms(2)
  proof
    assume o: "any_reachable tk fi ca foreign ts now w \<and> any_run tk fi ca foreign (now, w) (later, w') \<and>
        curve s = Linear"
    then have "any_reachable tk fi ca foreign ts now w" by simp
    then have inv: "sound_world now w" by (rule any_reachable_sound)
    then have "wf_stream now s" using o sound_worldD(1) [OF inv s] by (simp add: sound_linear)
    with that any_run_sound [OF _ inv] o s show thesis unfolding outlives_def by blast
  next
    assume r: "system_reachable tk fi now w \<and> system_run tk fi (now, w) (later, w')"
    then have inv: "world_inv now w" using reachable_world_inv by blast
    then have "wf_stream now s" using s by (rule world_invD(1))
    with that system_run_life [OF _ inv s] r show thesis by blast
  qed
  have "entitlement_kept now s later s'" using s'(2) wf entitlement.life_holds by blast
  with s'(1) show ?thesis by (auto simp: entitlement_kept_def get_stream_def)
qed

lemma entitlement_never_falls_witness:
  "\<exists>s'. get_stream world2 0 = Inr s' \<and> vested_amount linear_stream 1000 \<le> vested_amount s' 1000"
  using entitlement_never_falls [OF _ disjI2 [OF conjI [OF system_reaches(1)
      commit_run [of "env_at 1000" 1000 open_step]]], of 0 linear_stream]
  by (auto simp: get_stream_def world1_facts world2_def [symmetric] keeps_curve_open)

text \<open>
  C5. Terminal states are final, whatever is called: a depleted stream never changes again, and a
  cancelled one only pays its tail or changes hands, its whole deposit being earned from then on.
\<close>

theorem terminal_streams_final:
  assumes "any_reachable tk fi ca foreign ts now w" "any_run tk fi ca foreign (now, w) (later, w')"
    and "get_stream w i = Inr s"
  shows "\<exists>s'. get_stream w' i = Inr s' \<and> (status s = Depleted \<longrightarrow> s' = s) \<and>
     (status s = Cancelled \<longrightarrow>
        s' = s\<lparr>withdrawn := withdrawn s', recipient := recipient s'\<rparr> \<and>
        vested_amount s' later = deposited s)"
proof -
  have inv: "sound_world now w" using assms(1) by (rule any_reachable_sound)
  have s: "lookup_stream w i = Some s" using assms(3) by (simp add: get_stream_def)
  obtain s' where s': "lookup_stream w' i = Some s'" "outlives now s later s'" and inv': "sound_world later w'"
    using any_run_sound [OF assms(2) inv] s by blast
  have "terminal_sticky now s later s'" using s'(2) by (simp add: outlives_def)
  with soundD(10) [OF sound_worldD(1) [OF inv' s'(1)]] s'(1) show ?thesis
    by (auto simp: terminal_sticky_def get_stream_def)
qed

lemma terminal_streams_final_witness:
  "\<exists>s'. get_stream world4 0 = Inr s' \<and> vested_amount s' 1200 = 100"
  using terminal_streams_final [OF any_reaches_later(2) any_run_tick [of 1100 1200], of 0
      "cancelled_stream 1100 linear_stream"]
  by (simp add: get_stream_def world4_stream) (simp add: cancelled_stream_def scenario_readings)

text \<open>
  C6. The event log is a complete book of account. An auditor who starts from nothing, enters every
  event of a reachable world in order and rejects any whose parties, running totals or order do
  not fit, accepts the log and ends with the contract's own streams, grants, operator and halt;
  whatever is called next, the log only grows, by events the auditor accepts from there. So the
  payments logged for a stream add up to what was withdrawn from it, and its deposit is what was
  put in less what was refunded.
\<close>

theorem event_log_audit:
  assumes "any_reachable tk fi ca foreign ts now w" "any_run tk fi ca foreign (now, w) (later, w')"
  shows "audit (events w) blank_books = Some (books_of w) \<and>
    (\<exists>evs. events w' = events w @ evs \<and> audit evs (books_of w) = Some (books_of w')) \<and>
    (\<forall>i s. get_stream w i = Inr s \<longrightarrow>
       withdrawn s = (\<Sum>ev\<leftarrow>events w. payment_of i ev) \<and> deposited s = (\<Sum>ev\<leftarrow>events w. funding_of i ev))"
proof (intro conjI allI impI)
  show a: "audit (events w) blank_books = Some (books_of w)" using assms(1) by (rule any_reachable_audit)
  show "\<exists>evs. events w' = events w @ evs \<and> audit evs (books_of w) = Some (books_of w')"
    using any_run_logged [OF assms(2) any_reachable_sound [OF assms(1)]] by (simp add: logged_def)
  fix i s assume "get_stream w i = Inr s"
  then show "withdrawn s = (\<Sum>ev\<leftarrow>events w. payment_of i ev)" "deposited s = (\<Sum>ev\<leftarrow>events w. funding_of i ev)"
    using audit_money [OF a, of i] by (simp_all add: booked_def blank_books_def get_stream_def)
qed

lemma event_log_audit_witness:
  "audit (events world1) blank_books = Some (books_of world1) \<and>
   (\<Sum>ev\<leftarrow>events world1. funding_of 0 ev) = 400 \<and> (\<exists>evs. events world2 = events world1 @ evs)"
proof -
  have "any_run book_token no_factories streams_at (\<lambda>_ _. True) (1000, world1) (1000, world2)"
    using any_run_call [of "env_at 1000" 1000 streams_at] by (simp add: world2_def)
  note a = event_log_audit [OF any_reaches(2) this]
  have "get_stream world1 0 = Inr linear_stream" by (simp add: get_stream_def world1_facts)
  then have "deposited linear_stream = (\<Sum>ev\<leftarrow>events world1. funding_of 0 ev)"
    using a by blast
  moreover have "deposited linear_stream = 400" by (simp add: linear_stream_def opened_stream_def)
  ultimately show ?thesis using a by auto
qed

text \<open>
  C7. A successful withdrawal was signed by the recipient and pays what was asked for (or all that
  is available), out of what is available and no more; it lowers the withdrawable amount and the
  pool by that amount, transfers it to the recipient, and publishes one event.
\<close>

theorem withdraw_effect:
  assumes "any_reachable tk fi ca foreign ts (timestamp e) w" "withdraw tk e i amount w = Inr (payout, w')"
  shows "\<exists>s available. get_stream w i = Inr s \<and> authorized e (recipient s) \<and> \<not> halted w \<and>
     withdrawable_of e w i = Inr available \<and> 0 < payout \<and> payout \<le> available \<and>
     (case amount of None \<Rightarrow> payout = available | Some requested \<Rightarrow> payout = requested) \<and>
     lookup_stream w' = (lookup_stream w)(i \<mapsto> paid_stream (timestamp e) payout s) \<and>
     withdrawable_of e w' i = Inr (available - payout) \<and>
     pooled_balance w' = (pooled_balance w)(token s := pooled_balance w (token s) - payout) \<and>
     try_transfer tk (token_state w) (token s) (contract_address e) (recipient s) payout = (TryOk, token_state w') \<and>
     events w' = events w @ [withdrawn_event i (paid_stream (timestamp e) payout s) payout]"
proof -
  have inv: "sound_world (timestamp e) w" using assms(1) by (rule any_reachable_sound)
  show ?thesis
    using inv assms(2)
  proof (rule withdraw_Inr)
    fix s
    assume s: "lookup_stream w i = Some s" and g: "\<not> is_halted w" "authorized e (recipient s)"
      and pay: "0 < payout" "payout \<le> vested_amount s (timestamp e) - withdrawn s"
      and am: "amount = None \<Longrightarrow> payout = vested_amount s (timestamp e) - withdrawn s"
        "amount \<noteq> None \<Longrightarrow> amount = Some payout"
      and run: "apply_withdrawal tk e i s payout (extend_stream e i s w) =
        Inr (paid_stream (timestamp e) payout s, w')"
    have inv1: "sound_world (timestamp e) (extend_stream e i s w)"
      and s1: "lookup_stream (extend_stream e i s w) i = Some s" using inv s by simp_all
    have so: "sound (timestamp e) s" using inv s by (rule sound_worldD(1))
    note eff = apply_withdrawal_effect [OF so s1 pay run]
    have inv': "sound_world (timestamp e) w'" using eff(6) inv1 by (rule settles_sound)
    have s': "lookup_stream w' i = Some (paid_stream (timestamp e) payout s)" using eff(2) by simp
    have "pause_ok (timestamp e) s" using so by (rule soundD)
    then have v: "vested_amount (paid_stream (timestamp e) payout s) (timestamp e) = vested_amount s (timestamp e)"
      by (rule same_schedule_vested(2) [OF same_schedule_steps(3)])
    show ?thesis
      by (intro exI [of _ s] exI [of _ "vested_amount s (timestamp e) - withdrawn s"] conjI)
        (use sound_views [OF inv s] sound_views(2) [OF inv' s'] v g pay am eff s in
          \<open>auto simp: halted_def split: option.splits\<close>)
  qed
qed

lemma withdraw_effect_witness:
  "withdrawable_of (env_at 1100) world3 0 = Inr 0"
  using withdraw_effect [of book_token no_factories streams_at "\<lambda>_ _. True" purse "env_at 1100" world1 0 None 100 world3]
    any_reaches(4) world3_withdrawn by auto



text \<open>
  C9. The refusals of a withdrawal, in the order the code makes them: halted, unknown stream,
  unsigned, nothing available (terminal streams are told apart), an amount that is not positive,
  an amount above what is available.
\<close>

theorem withdraw_refusals:
  assumes "any_reachable tk fi ca foreign ts (timestamp e) w"
  shows "(halted w \<longrightarrow> withdraw tk e i amount w = Inl (Err ContractHalted)) \<and>
    (\<not> halted w \<longrightarrow> \<not> stream_exists w i \<longrightarrow> withdraw tk e i amount w = Inl (Err StreamNotFound)) \<and>
    (\<forall>s available. \<not> halted w \<longrightarrow> get_stream w i = Inr s \<longrightarrow> withdrawable_of e w i = Inr available \<longrightarrow>
       (\<not> authorized e (recipient s) \<longrightarrow> withdraw tk e i amount w = Inl Trap) \<and>
       (authorized e (recipient s) \<longrightarrow>
          (available = 0 \<longrightarrow> withdraw tk e i amount w =
             Inl (Err (if is_terminal (status s) then StreamTerminated else NothingToWithdraw))) \<and>
          (0 < available \<longrightarrow> (\<forall>n. amount = Some n \<longrightarrow>
             (n \<le> 0 \<longrightarrow> withdraw tk e i amount w = Inl (Err InvalidAmount)) \<and>
             (available < n \<longrightarrow> withdraw tk e i amount w = Inl (Err InsufficientWithdrawable))))))"
proof (cases "halted w \<or> \<not> stream_exists w i")
  case True
  then show ?thesis
    by (auto simp: withdraw_def halted_def require_not_halted_def load_stream_eq exists_lookup
        get_stream_def)
next
  case False
  then obtain s where s: "lookup_stream w i = Some s" "\<not> is_halted w" by (auto simp: exists_lookup halted_def)
  have inv: "sound_world (timestamp e) w" using assms by (rule any_reachable_sound)
  note rd = sound_readings(1) [OF sound_worldD(1) [OF inv s(1)]]
  show ?thesis
    using s False sound_views(2) [OF inv s(1)] rd
    by (auto simp: withdraw_def halted_def require_not_halted_def require_auth_def load_stream_eq get_stream_def Let_def)
qed

lemma withdraw_refusals_witness:
  "withdraw book_token (env_at 1100) 0 (Some 500) world1 = Inl (Err InsufficientWithdrawable)"
proof -
  have "withdrawable_of (env_at 1100) world1 0 = Inr 100" "get_stream world1 0 = Inr linear_stream"
    using sound_views(1,2) [of "env_at 1100" world1 0 linear_stream] any_reachable_sound [OF any_reaches(4)]
    by (simp_all add: world1_facts scenario_readings) (simp add: linear_stream_def opened_stream_def)
  then show ?thesis
    using withdraw_refusals [of book_token no_factories streams_at "\<lambda>_ _. True" purse "env_at 1100" world1 0 "Some 500"]
      any_reaches(4) world1_facts(6)
    by (simp add: halted_def)
qed

text \<open>
  C10. Cancelling splits the deposit exactly: what had vested stays as the new deposit, the rest is
  refunded to the sender out of the pool, the recipient's withdrawable amount is untouched, and no
  other stream changes.
\<close>

theorem cancel_conserves:
  assumes "any_reachable tk fi ca foreign ts (timestamp e) w" "cancel tk e i w = Inr (u, w')"
  shows "\<exists>s refund. get_stream w i = Inr s \<and> authorized e (sender s) \<and> cancellable s \<and>
     \<not> is_terminal (status s) \<and> refundable_of e w i = Inr refund \<and>
     get_stream w' i = Inr (cancelled_stream (timestamp e) s) \<and>
     vested_of e w i = Inr (deposited (cancelled_stream (timestamp e) s)) \<and>
     deposited (cancelled_stream (timestamp e) s) + refund = deposited s \<and>
     withdrawable_of e w' i = withdrawable_of e w i \<and>
     (\<forall>j. j \<noteq> i \<longrightarrow> lookup_stream w' j = lookup_stream w j) \<and>
     pooled_balance w' = (pooled_balance w)(token s := pooled_balance w (token s) - refund) \<and>
     (0 < refund \<longrightarrow> try_transfer tk (token_state w) (token s) (contract_address e) (sender s) refund
        = (TryOk, token_state w')) \<and>
     events w' = events w @ [cancelled_event i (cancelled_stream (timestamp e) s) refund]"
proof -
  have inv: "sound_world (timestamp e) w" using assms(1) by (rule any_reachable_sound)
  show ?thesis
    using assms(2) inv
  proof (rule cancel_Inr)
    fix s
    let ?v = "vested_amount s (timestamp e)" and ?c = "cancelled_stream (timestamp e) s"
    assume s: "lookup_stream w i = Some s" and g: "authorized e (sender s)"
      and q: "quote_cancel s (timestamp e) = Inr (?v, deposited s - ?v)"
      and run: "settle_cancel tk e i s (timestamp e) ?v (deposited s - ?v) (extend_stream e i s w) = Inr w'"
    have inv1: "sound_world (timestamp e) (extend_stream e i s w)"
      and s1: "lookup_stream (extend_stream e i s w) i = Some s" using inv s by simp_all
    note eff = settle_cancel_effect [OF inv1 s1 q run]
    have ok: "vest_ok s (timestamp e)" using sound_worldD(1) [OF inv s] by (rule soundD)
    have can: "cancellable s" "\<not> is_terminal (status s)"
      using q by (auto simp: quote_cancel_ok [OF ok] split: if_splits)
    have inv': "sound_world (timestamp e) w'" using eff(7) inv1 by (rule settles_sound)
    have s': "lookup_stream w' i = Some ?c" using eff(4) by simp
    have c: "deposited ?c = ?v" "withdrawn ?c = withdrawn s" by (simp_all add: cancelled_stream_def)
    show ?thesis
      by (intro exI [of _ s] exI [of _ "deposited s - ?v"] conjI)
        (use sound_views [OF inv s] sound_views [OF inv' s'] g can eff s c
            soundD(10) [OF sound_worldD(1) [OF inv' s']] in \<open>auto simp: cancelled_stream_def\<close>)
  qed
qed

lemma cancel_conserves_witness: "withdrawable_of (env_at 1100) world4 0 = withdrawable_of (env_at 1100) world1 0"
  using cancel_conserves [of book_token no_factories streams_at "\<lambda>_ _. True" purse "env_at 1100" world1 0 "()" world4]
    any_reaches(4) world4_cancelled by auto

text \<open>
  C11. A sender can always cancel a cancellable live stream of a contract that is not halted: with
  honest tokens, in custody and while the pool of the token is not overdrawn, the call can only
  fail if the token refuses the refund.
\<close>

theorem cancel_available:
  assumes "honest_token tk" "in_custody tk fi (contract_address e) (timestamp e) w"
    and "get_stream w i = Inr s" "authorized e (sender s)" "\<not> halted w"
    and "cancellable s" "\<not> is_terminal (status s)" "refundable_of e w i = Inr refund"
    and "0 \<le> pooled_balance w (token s)"
    and "0 < refund \<Longrightarrow>
      try_transfer tk (token_state w) (token s) (contract_address e) (sender s) refund = (TryOk, ts)"
  shows "\<exists>w'. cancel tk e i w = Inr ((), w')"
proof -
  note inv = in_custody_inv [OF assms(1,2)]
  have s: "lookup_stream w i = Some s" using assms(3) by (simp add: get_stream_def)
  have r: "refund = deposited s - vested_amount s (timestamp e)"
    using sound_views(4) [OF inv(1) s] assms(8) by simp
  have "0 \<le> refund" using r soundD(6) [OF sound_worldD(1) [OF inv(1) s]] by simp
  then have "deposited s = vested_amount s (timestamp e) \<or> (\<exists>ts. try_transfer tk (token_state w) (token s)
      (contract_address e) (sender s) (deposited s - vested_amount s (timestamp e)) = (TryOk, ts))"
    using assms(10) r by (cases "refund = 0") auto
  then show ?thesis using cancel_total [OF assms(1) inv _ s assms(4,6,7) _ assms(9)] assms(5) by (simp add: halted_def)
qed

lemma cancel_available_witness: "\<exists>w'. cancel book_token (env_at 1100) 0 world1 = Inr ((), w')"
proof -
  have f: "token linear_stream = coin" "sender linear_stream = alice" "deposited linear_stream = 400"
    "cancellable linear_stream" "status linear_stream = Active"
    by (simp_all add: linear_stream_def opened_stream_def)
  obtain ts where "try_transfer book_token (token_state world1) coin streams_at alice 300 = (TryOk, ts)"
    using book_holds [OF world1_facts(2), of 300 coin alice] by (auto simp: world1_facts)
  then show ?thesis
    using cancel_available [OF book_token_honest, of no_factories "env_at 1100" world1 0 linear_stream 300 ts]
      custody_reaches(4) f world1_facts(6) sound_views(4) [of "env_at 1100" world1 0 linear_stream]
      any_reachable_sound [OF any_reaches(4)]
    by (simp add: get_stream_def world1_facts scenario_readings halted_def)
qed



text \<open>
  C13. A top-up by the sender deposits exactly the amount, keeps the rate of a linear stream (the
  end moves by amount * duration div deposit) and the schedule of the other curves, and never
  lowers what has vested.
\<close>

theorem top_up_keeps_rate:
  assumes "any_reachable tk fi ca foreign ts (timestamp e) w" "top_up tk e i amount w = Inr (u, w')"
  shows "\<exists>s new_end. get_stream w i = Inr s \<and> authorized e (sender s) \<and> 0 < amount \<and>
     get_stream w' i = Inr (s\<lparr>deposited := deposited s + amount, end_time := new_end\<rparr>) \<and>
     uint new_end = uint (end_time s) +
       (if curve s = Linear then amount * uint (duration s) div deposited s else 0) \<and>
     pooled_balance w' = (pooled_balance w)(token s := pooled_balance w (token s) + amount) \<and>
     vested_amount s (timestamp e) \<le>
       vested_amount (s\<lparr>deposited := deposited s + amount, end_time := new_end\<rparr>) (timestamp e) \<and>
     events w' = events w @ [ToppedUpEvent i (sender s) amount (deposited s + amount) new_end (recipient s)]"
proof -
  have inv: "sound_world (timestamp e) w" using assms(1) by (rule any_reachable_sound)
  show ?thesis
    using assms(2) inv
  proof (rule top_up_Inr)
    fix s new_end w2 w3
    assume s: "lookup_stream w i = Some s" and g: "authorized e (sender s)" "0 < amount"
      and pace: "keeps_pace amount new_end s"
      and step: "stream_step (timestamp e) s (grown_stream amount new_end s)"
      and mono: "vested_amount s (timestamp e) \<le> vested_amount (grown_stream amount new_end s) (timestamp e)"
      and pull: "pull_deposit tk e (token s) (sender s) amount (extend_stream e i s w) = Inr w2"
      and save: "save_stream e i (grown_stream amount new_end s) w2 = Inr w3"
      and w': "w' = publish (ToppedUpEvent i (sender s) amount (deposited s + amount) new_end (recipient s)) w3"
    note eff = top_up_effect [OF pull save s step]
    have "vested_amount s (timestamp e) \<le> vested_amount (grown_stream amount new_end s) (timestamp e)"
      by (rule mono)
    then show ?thesis
      by (intro exI [of _ s] exI [of _ new_end])
        (use s g pace eff w' in \<open>simp add: get_stream_def keeps_pace_def grown_stream_def\<close>)
  qed
qed

lemma top_up_keeps_rate_witness:
  "\<exists>w'. top_up book_token (env_at 1100) 0 200 world1 = Inr ((), w') \<and> pooled_balance w' coin = 600"
proof -
  obtain w' where run: "top_up book_token (env_at 1100) 0 200 world1 = Inr ((), w')" using tops_up by blast
  have "any_reachable book_token no_factories streams_at (\<lambda>_ _. True) purse (timestamp (env_at 1100)) world1"
    using any_reaches(4) by simp
  from top_up_keeps_rate [OF this run] run show ?thesis
    by (auto simp: get_stream_def world1_facts linear_stream_terms)
qed

text \<open>
  C14. The defensive re-check of \<open>VestedDecreased\<close> is never what refuses a call: on reachable worlds
  none of \<open>top_up\<close>, \<open>pause\<close>, \<open>resume\<close>, \<open>transfer_recipient\<close> fails with it.
\<close>

theorem vested_never_decreases:
  fixes w :: "'t world"
  assumes "any_reachable tk fi ca foreign ts (timestamp e) w"
  shows "top_up tk e i amount w \<noteq> Inl (Err VestedDecreased) \<and>
    pause e i w \<noteq> Inl (Err VestedDecreased) \<and> resume e i w \<noteq> Inl (Err VestedDecreased) \<and>
    transfer_recipient e i a w \<noteq> Inl (Err VestedDecreased)"
proof (intro conjI)
  have inv: "sound_world (timestamp e) w" using assms by (rule any_reachable_sound)
  then show "top_up tk e i amount w \<noteq> Inl (Err VestedDecreased)" by (rule top_up_never_decreases)
  have sv: "save_stream e i s v \<noteq> Inl (Err x)" for s x and v :: "'t world"
    by (auto simp: save_stream_def Let_def and_then_eq_Inl ok_or_eq_Inl)
  show "pause e i w \<noteq> Inl (Err VestedDecreased)"
    using pause_eq [OF inv] sv
    by (cases "lookup_stream w i"; cases "is_halted w"; cases "authorized e (sender (the (lookup_stream w i)))")
      (auto simp: and_then_eq_Inl pause_def require_not_halted_def require_auth_def load_stream_eq)
  show "resume e i w \<noteq> Inl (Err VestedDecreased)"
    using resume_eq [OF inv] sv
    by (cases "lookup_stream w i"; cases "is_halted w"; cases "authorized e (sender (the (lookup_stream w i)))")
      (auto simp: and_then_eq_Inl resume_def require_not_halted_def require_auth_def load_stream_eq
        split: option.splits)
  show "transfer_recipient e i a w \<noteq> Inl (Err VestedDecreased)"
    using transfer_recipient_eq [OF inv] sv
    by (cases "lookup_stream w i"; cases "is_halted w"; cases "authorized e (sender (the (lookup_stream w i)))")
      (auto simp: and_then_eq_Inl transfer_recipient_def require_not_halted_def require_auth_def load_stream_eq)
qed

lemma vested_never_decreases_witness: "pause (env_at 1000) 1 world2 \<noteq> Inl (Err VestedDecreased)"
  using vested_never_decreases [of book_token no_factories streams_at "\<lambda>_ _. True" purse "env_at 1000" world2]
    any_reaches(3) by simp



text \<open>
  C16. A successful creation takes the next id, opens exactly the stream that was asked for under it,
  active and unpaid, changes no other stream, and pulls exactly the deposit from the sender, who
  signed.
\<close>

theorem create_effect:
  assumes "any_reachable tk fi ca foreign ts (timestamp e) w"
    and "create_stream_with_cliff_mode tk e a b tkn d st en cl m cc cp ct ref w = Inr (i, w') \<and> crv = Linear \<or>
      create_stream_with_curve tk e a b tkn d st en cl cc cp ct crv w = Inr (i, w') \<and>
      m = Schedule \<and> ref = None"
  shows "i = stream_count w \<and> \<not> stream_exists w i \<and> stream_count w' = i + 1 \<and> authorized e a \<and>
    get_stream w' i = Inr \<lparr>sender = a, recipient = b, token = tkn, deposited = d, withdrawn = 0,
      start_time = st, end_time = en, cliff_time = cl, cancellable = cc, pausable = cp,
      transferable = ct, paused_at = None, paused_total = 0, status = Active,
      cliff_mode = m, curve = crv, reference = ref\<rparr> \<and>
    (\<forall>j. j \<noteq> i \<longrightarrow> lookup_stream w' j = lookup_stream w j) \<and>
    pooled_balance w' = (pooled_balance w)(tkn := pooled_balance w tkn + d) \<and>
    try_transfer tk (token_state w) tkn a (contract_address e) d = (TryOk, token_state w') \<and>
    events w' = events w @ [StreamCreatedEvent i a b tkn d st en cl cc cp ct crv m ref]"
proof -
  have inv: "sound_world (timestamp e) w" using assms(1) by (rule any_reachable_sound)
  have run: "create_stream_inner tk e a b tkn d st en cl m cc cp ct ref crv w = Inr (i, w')" and auth: "authorized e a"
    using assms(2) by (auto simp: DEFAULT_cliff_mode_def)
  note eff = create_stream_inner_effect [OF inv run]
  have "next_id w = stream_count w" using sound_worldD(5) [OF inv] by (simp add: counters_agree_def)
  moreover have "\<not> stream_exists w i" using sound_worldD(2) [OF inv, of i] eff(1) by (auto simp: exists_lookup)
  ultimately show ?thesis
    using eff(1,3-6,8) auth create_stream_inner_token [OF inv run]
    by (simp add: get_stream_def opened_stream_def)
qed

lemma create_effect_witness: "get_stream world2 1 = Inr step_stream \<and> stream_count world2 = 1 + 1"
  using create_effect [of book_token no_factories streams_at "\<lambda>_ _. True" purse "env_at 1000" world1 alice bob coin 400 1000 1400 1000 Schedule
      True True True None 1 world2 Step] any_reaches(2) world2_created
  by (simp add: step_stream_def opened_stream_def del: create_gate)

text \<open>
  C17. A valid request is accepted: with honest tokens, in a world reached in custody that is not
  halted, a sender who signs a request within the rules obtains a stream under the next id,
  unless the id counter or the pool is at the top of its range or the token refuses the deposit.
\<close>

theorem create_accepts:
  assumes "honest_token tk" "in_custody tk fi (contract_address e) (timestamp e) w"
    and "valid_request a b d st en cl ref" "authorized e a" "a \<noteq> contract_address e" "\<not> halted w"
    and "uint (stream_count w) < u64_max" "pooled_balance w tkn + d \<le> i128_max"
    and "try_transfer tk (token_state w) tkn a (contract_address e) d = (TryOk, ts)"
  shows "\<exists>w'. create_stream_with_cliff_mode tk e a b tkn d st en cl m cc cp ct ref w = Inr (stream_count w, w')"
proof -
  note inv = in_custody_inv [OF assms(1,2)]
  have n: "next_id w = stream_count w" using sound_worldD(5) [OF inv(1)] by (simp add: counters_agree_def)
  have d: "0 < d" using assms(3) by (simp add: valid_request_def)
  have p: "in_i128 (pooled_balance w tkn)" using inv(1) by (rule sound_worldD(4))
  have "1 \<le> uint (en - st)" using assms(3) by (simp add: valid_request_def uint_diff_u64 word_le_def word_less_def)
  then have "in_i128 d" using d assms(3) by (intro in_i128_mono [of d "d * uint (en - st)"]) (simp_all add: valid_request_def)
  moreover have "in_i128 (pooled_balance w tkn + d)" using d p assms(8) by (simp add: in_i128_def)
  ultimately show ?thesis
    using create_inner_total [OF assms(1,3) _ _ _ assms(5,9)] assms(4,6,7) n by (simp add: halted_def)
qed

lemma create_accepts_witness:
  "\<exists>w'. create_stream_with_cliff_mode book_token (env_at 1000) alice bob coin 400 1000 1400 1000 WallClock
     True True True None world1 = Inr (1, w')"
proof -
  obtain ts where "try_transfer book_token (token_state world1) coin alice streams_at 400 = (TryOk, ts)"
    using book_transfer_ok [of 400 "token_state world1" coin alice streams_at] by (auto simp: world1_purse)
  moreover have "stream_count world1 = 1"
    using sound_worldD(5) [OF world_sound [OF world1_facts(1)]] world1_facts(5) by (simp add: counters_agree_def)
  ultimately show ?thesis
    using create_accepts [OF book_token_honest, of no_factories "env_at 1000" world1 alice bob 400 1000 1400 1000 None coin ts WallClock True True True]
      custody_reaches(2) valid_400 world1_facts(6)
    by (simp add: halted_def world1_facts u64_max_def i128_max_def del: create_gate)
qed

text \<open>
  C18. The refusals of a creation for its contents, in the order the code makes them, and with the
  error each one gives; a request that passes them all is a valid one or overflows an i128 when
  deposit and duration are multiplied.
\<close>

theorem create_refusals:
  assumes "\<not> halted w" "authorized e a"
  shows "let result = create_stream_with_cliff_mode tk e a b tkn d st en cl m cc cp ct ref w in
    (a = b \<longrightarrow> result = Inl (Err SelfStream)) \<and>
    (a \<noteq> b \<and> d \<le> 0 \<longrightarrow> result = Inl (Err InvalidDeposit)) \<and>
    (a \<noteq> b \<and> 0 < d \<and> en \<le> st \<longrightarrow> result = Inl (Err InvalidTimeRange)) \<and>
    (a \<noteq> b \<and> 0 < d \<and> st < en \<and> \<not> (st \<le> cl \<and> cl \<le> en) \<longrightarrow> result = Inl (Err InvalidCliff)) \<and>
    (a \<noteq> b \<and> 0 < d \<and> st < en \<and> st \<le> cl \<and> cl \<le> en \<and> (\<exists>r. ref = Some r \<and> 64 < length r)
       \<longrightarrow> result = Inl (Err InvalidReferenceLength)) \<and>
    (a \<noteq> b \<and> 0 < d \<and> st < en \<and> st \<le> cl \<and> cl \<le> en \<and> (\<forall>r. ref = Some r \<longrightarrow> length r \<le> 64) \<and>
       d < uint (en - st) \<longrightarrow> result = Inl (Err DepositRateTooLow)) \<and>
    (a \<noteq> b \<and> 0 < d \<and> st < en \<and> st \<le> cl \<and> cl \<le> en \<and> (\<forall>r. ref = Some r \<longrightarrow> length r \<le> 64) \<and>
       uint (en - st) \<le> d \<longrightarrow>
       valid_request a b d st en cl ref \<or> result = Inl (Err Overflow))"
  using assms unfolding Let_def
  by (auto simp: create_stream_with_cliff_mode_def create_stream_inner_def halted_def require_not_halted_def
      require_auth_def valid_request_def checked_mul_i128_def MAX_REFERENCE_LENGTH_def not_le not_less
      Let_def split: option.splits)

lemma create_refusals_witness:
  "create_stream_with_cliff_mode book_token (env_at 1000) alice bob coin 400 1000 1401 1000 Schedule
     True True True None world1 = Inl (Err DepositRateTooLow)"
  using create_refusals [of world1 "env_at 1000" alice book_token bob coin 400 1000 1401 1000 Schedule True True True
      None] world1_facts(6)
  by (simp add: halted_def Let_def)

text \<open>
  C19. A successful batched creation creates every request, under consecutive ids in the order of
  the batch, leaves the existing streams alone, and accounts for every deposit; a batch is never
  empty nor above the limit.
\<close>

theorem batch_create_effect:
  assumes "any_reachable tk fi ca foreign ts (timestamp e) w" "batch_create tk e a requests w = Inr (ids, w')"
  shows "requests \<noteq> [] \<and> length requests \<le> MAX_BATCH_SIZE \<and> authorized e a \<and>
    ids = map (\<lambda>k. stream_count w + of_nat k) [0..<length requests] \<and>
    stream_count w' = stream_count w + of_nat (length requests) \<and>
    (\<forall>k<length requests. get_stream w' (ids ! k) = Inr (stream_of_request a (requests ! k))) \<and>
    (\<forall>j s. get_stream w j = Inr s \<longrightarrow> get_stream w' j = Inr s) \<and>
    pooled_balance w' tkn = pooled_balance w tkn +
      (\<Sum>r\<leftarrow>requests. if req_token r = tkn then req_deposit r else 0)"
proof -
  have inv: "sound_world (timestamp e) w" using assms(1) by (rule any_reachable_sound)
  have inv': "sound_world (timestamp e) w'" using inv assms(2) by (rule create_batch.keeps_sound)
  have n: "stream_count w = next_id w" "stream_count w' = next_id w'"
    using sound_worldD(5) [OF inv] sound_worldD(5) [OF inv'] by (simp_all add: counters_agree_def)
  have g: "requests \<noteq> []" "length requests \<le> MAX_BATCH_SIZE" "authorized e a"
    and run: "create_all tk e a requests w = Inr (ids, w')"
    using assms(2) by (simp_all add: MAX_BATCH_SIZE_def)
  show ?thesis
    unfolding get_stream_def peek_stream_Inr n using create_all_effect [OF inv run, of tkn] g by blast
qed

lemma batch_create_effect_witness:
  "\<exists>ids w'. batch_create book_token (env_at 1000) alice [request_400, request_400] world0 = Inr (ids, w') \<and>
     get_stream w' (ids ! 1) = Inr (stream_of_request alice request_400) \<and> stream_count w' = 2"
proof -
  obtain ids w' where run: "batch_create book_token (env_at 1000) alice [request_400, request_400] world0 = Inr (ids, w')"
    using batch_creates by blast
  have "any_reachable book_token no_factories streams_at (\<lambda>_ _. True) purse (timestamp (env_at 1000)) world0"
    using any_reaches(1) by simp
  note eff = batch_create_effect [OF this run]
  have "stream_count world0 = 0"
    using world_invD(5) [OF world0_facts(1)] world0_facts(5) by (simp add: counters_agree_def)
  then have "stream_count w' = 2" using eff by simp
  moreover have "get_stream w' (ids ! 1) = Inr (stream_of_request alice request_400)"
    using eff [THEN conjunct2, THEN conjunct2, THEN conjunct2, THEN conjunct2, THEN conjunct2, THEN conjunct1,
        THEN spec, of 1] by simp
  ultimately show ?thesis using run by blast
qed

text \<open>The amount of a reading that succeeds.\<close>

definition figure :: "int result \<Rightarrow> int" where
  "figure m = (case m of Inr x \<Rightarrow> x | Inl _ \<Rightarrow> 0)"



text \<open>
  C21. A batch of withdrawals is the withdrawals one by one. With honest tokens, in a world reached in
  custody that is not halted, for up to sixteen distinct streams of a recipient who signs and whose
  claims add up within an i128, \<open>batch_withdraw\<close> does what calling \<open>withdraw\<close> for everything on each
  stream that has something, in that order, would do: it succeeds or fails with the same error, at
  the same transfer, and leaves the same streams, pools, balances and events, with only rent
  to tell the two apart.
\<close>

theorem batch_withdraw_is_sequence:
  assumes "honest_token tk" "in_custody tk fi (contract_address e) (timestamp e) w"
    and "\<not> halted w" "authorized e payee"
    and "ids \<noteq> []" "length ids \<le> MAX_BATCH_SIZE" "distinct ids"
    and "\<And>i. i \<in> set ids \<Longrightarrow> \<exists>s. get_stream w i = Inr s \<and> recipient s = payee"
    and "(\<Sum>i\<leftarrow>ids. case withdrawable_of e w i of Inr available \<Rightarrow> available | Inl f \<Rightarrow> 0) \<le> i128_max"
  shows "alike (batch_withdraw tk e payee (map RawU64 ids) w) (withdraw_each tk e ids 0 w)"
  using in_custody_inv [OF assms(1,2)] assms
  by (intro batch_withdraw_alike) (simp_all add: halted_def get_stream_def)

lemma batch_withdraw_is_sequence_witness:
  "\<exists>w'. withdraw_each book_token (env_at 1100) [0] 0 world1 = Inr (100, w')"
proof -
  have c: "in_custody book_token no_factories (contract_address (env_at 1100)) (timestamp (env_at 1100)) world1"
    using custody_reaches(4) by simp
  have v: "withdrawable_of (env_at 1100) world1 0 = Inr 100"
    using sound_views(2) [of "env_at 1100" world1 0 linear_stream] in_custody_inv(1) [OF book_token_honest c]
    by (simp add: world1_facts scenario_readings) (simp add: linear_stream_def opened_stream_def)
  have "alike (batch_withdraw book_token (env_at 1100) bob (map RawU64 [0]) world1)
      (withdraw_each book_token (env_at 1100) [0] 0 world1)"
    by (rule batch_withdraw_is_sequence [OF book_token_honest c])
      (use v world1_facts(6) in \<open>simp_all add: halted_def get_stream_def world1_facts linear_stream_terms
        MAX_BATCH_SIZE_def i128_max_def\<close>)
  moreover obtain w' where "batch_withdraw book_token (env_at 1100) bob [RawU64 0] world1 = Inr (100, w')"
    using batch_withdraws by blast
  ultimately show ?thesis by (simp add: alike_def del: withdraw_each.simps) blast
qed

text \<open>
  C22. A batched cancellation that returns either refuses, changing nothing and naming the first
  member in batch order that cannot be cancelled and why, or cancels every member at the same
  instant and returns the sum of the refunds.
\<close>

theorem batch_cancel_outcome:
  assumes "any_reachable tk fi ca foreign ts (timestamp e) w" "batch_cancel tk e owner raws w = Inr (out, w')"
  shows "\<exists>ids. raws = map RawU64 ids \<and>
    (w' = w \<and> refunded out = 0 \<and>
       (\<exists>k s reason. k < length ids \<and> refused_index out = Some (of_nat k) \<and>
          refused_reason out = Some (discriminant reason) \<and> get_stream w (ids ! k) = Inr s \<and>
          reason = (if \<not> cancellable s then NotCancellable else StreamTerminated) \<and>
          (\<not> cancellable s \<or> is_terminal (status s)) \<and>
          (\<forall>j<k. \<exists>r. get_stream w (ids ! j) = Inr r \<and> cancellable r \<and> \<not> is_terminal (status r))) \<or>
     refused_index out = None \<and> refunded out = (\<Sum>i\<leftarrow>ids. figure (refundable_of e w i)) \<and>
       (\<forall>i\<in>set ids. \<exists>s. get_stream w i = Inr s \<and> sender s = owner \<and> authorized e owner \<and>
          get_stream w' i = Inr (cancelled_stream (timestamp e) s)) \<and>
       (\<forall>j. j \<notin> set ids \<longrightarrow> lookup_stream w' j = lookup_stream w j))"
proof -
  have inv: "sound_world (timestamp e) w" using assms(1) by (rule any_reachable_sound)
  show ?thesis
    using assms(2)
  proof (cases rule: batch_cancel_Inr)
    case (settled items)
    note all = settle_all_members [OF settled(1) inv settled(4,8)]
    have one: "refundable_of e w i = Inr r \<and> get_stream w i = Inr s \<and> sender s = owner \<and>
        get_stream w' i = Inr (cancelled_stream (timestamp e) s)" if "(i, s, v, r) \<in> set items" for i s v r
      using all(1) [OF that] settled(9) that sound_views(4) [OF inv] by (auto simp: get_stream_def)
    have "refunded out = (\<Sum>i\<leftarrow>map fst items. figure (refundable_of e w i))"
      unfolding settled(3) map_map batch_cancel_outcome.simps
      by (intro arg_cong [where f = sum_list] map_cong) (auto simp: figure_def dest: one)
    moreover have "\<forall>i\<in>set (map fst items). \<exists>s. get_stream w i = Inr s \<and> sender s = owner \<and> authorized e owner \<and>
          get_stream w' i = Inr (cancelled_stream (timestamp e) s)"
      using one settled(7) by fastforce
    ultimately show ?thesis using all(2) settled(2,3) by (intro exI [of _ "map fst items"]) simp
  next
    case (refused k reason ids pre i s post)
    have before: "\<exists>r. get_stream w (ids ! j) = Inr r \<and> cancellable r \<and> \<not> is_terminal (status r)"
      if j: "j < length pre" for j
    proof -
      obtain i' r where n: "pre ! j = (i', r)" by (cases "pre ! j")
      then have "(i', r) \<in> set pre" using j by (metis nth_mem)
      then have l: "lookup_stream w i' = Some r" and "\<exists>q. quote_cancel r (timestamp e) = Inr q"
        using refused(8) by auto
      then show ?thesis
        using quote_cancel_verdict(2) [OF sound_worldD(1) [OF inv l]] j n refused(4)
        by (fastforce simp: get_stream_def nth_append)
    qed
    have "length pre < length ids" "ids ! length pre = i" using refused(4) by (simp_all add: nth_append)
    then show ?thesis
      using refused(1-3,5,6) quote_cancel_verdict(1) [OF sound_worldD(1) [OF inv refused(6)] refused(7)] before
      by - (rule exI [of _ ids], rule conjI, simp, rule disjI1,
        intro conjI exI [of _ "length pre"] exI [of _ s] exI [of _ reason], auto simp: get_stream_def)
  qed
qed

lemma batch_cancel_outcome_witness:
  "\<exists>out. batch_cancel book_token (env_at 1100) alice [RawU64 0] world4 = Inr (out, world4) \<and>
     refused_reason out = Some 14"
proof -
  let ?e = "env_at 1100" and ?s = "cancelled_stream 1100 linear_stream"
  have "batch_cancel book_token ?e alice [RawU64 0] world4 =
      Inr (\<lparr>refunded = 0, refused_index = Some 0, refused_reason = Some (discriminant StreamTerminated)\<rparr>, world4)"
    by (simp add: batch_cancel_def validate_batch_ids_def MAX_BATCH_SIZE_def require_auth_def peek_stream_def
        read_stream_eq world4_stream quote_cancel_def cancelled_stream_def linear_stream_terms Let_def)
  moreover have "any_reachable book_token no_factories streams_at (\<lambda>_ _. True) purse (timestamp ?e) world4"
    using any_reaches_later(2) by simp
  then have "\<exists>ids. [RawU64 0] = map RawU64 ids"
    using calculation by (rule batch_cancel_outcome [THEN ex_forward]) (erule conjunct1)
  ultimately show ?thesis by simp
qed

section \<open>Delegation\<close>

text \<open>
  C23. A delegated operation is the direct one: behind a grant that covers it, on an existing stream
  of a contract that is not halted, each of \<open>delegate_withdraw\<close>, \<open>delegate_cancel\<close>,
  \<open>delegate_pause\<close>, \<open>delegate_resume\<close> and \<open>delegate_transfer_recipient\<close> computes exactly what
  the direct entry point computes for the signature of the stream's owner, errors included.
\<close>

theorem delegated_is_direct:
  assumes "any_reachable tk fi ca foreign ts (timestamp e) w" "get_stream w i = Inr s" "\<not> halted w"
  shows "(check_delegate e i d op_WITHDRAW w = Inr () \<longrightarrow>
      delegate_withdraw tk e i d amount w = withdraw tk (signed_by e (recipient s)) i amount w) \<and>
    (check_delegate e i d op_CANCEL w = Inr () \<longrightarrow>
      delegate_cancel tk e i d w = cancel tk (signed_by e (sender s)) i w) \<and>
    (check_delegate e i d op_PAUSE w = Inr () \<longrightarrow>
      delegate_pause e i d w = pause (signed_by e (sender s)) i w) \<and>
    (check_delegate e i d op_RESUME w = Inr () \<longrightarrow>
      delegate_resume e i d w = resume (signed_by e (sender s)) i w) \<and>
    (check_delegate e i d op_TRANSFER_RECIPIENT w = Inr () \<longrightarrow>
      delegate_transfer_recipient e i d a w = transfer_recipient (signed_by e (sender s)) i a w)"
proof -
  have inv: "sound_world (timestamp e) w" using assms(1) by (rule any_reachable_sound)
  have "lookup_stream w i = Some s" "\<not> is_halted w" using assms(2,3) by (simp_all add: get_stream_def halted_def)
  then show ?thesis
    by (simp add: delegate_withdraw_eq delegate_cancel_eq delegate_pause_eq [OF inv] delegate_resume_eq [OF inv]
        delegate_transfer_recipient_eq [OF inv] behind_check_def require_not_halted_def)
qed

lemma delegated_is_direct_witness:
  "delegate_pause (env_at 1000) 1 carol world7 = pause (signed_by (env_at 1000) alice) 1 world7"
  using delegated_is_direct [of book_token no_factories streams_at "\<lambda>_ _. True" purse "env_at 1000" world7 1 step_stream carol]
    world7_reached(2) world7_check [of op_PAUSE 1000] world7_facts(3,5)
  by (simp add: get_stream_def halted_def world2_facts step_stream_terms)

text \<open>
  C24. No delegated operation without a grant: one that succeeds was signed by a delegate who holds a
  stored, unexpired grant for that stream with the bit of that operation, and on reachable worlds
  such a grant covers the operations of one side of the stream only. A delegated top-up is
  signed by the sender as well.
\<close>

theorem delegate_needs_grant:
  assumes "any_reachable tk fi ca foreign ts (timestamp e) w"
  shows "(delegate_withdraw tk e i d amount w = Inr r1 \<longrightarrow> holds_grant e w i d op_WITHDRAW) \<and>
    (delegate_cancel tk e i d w = Inr r2 \<longrightarrow> holds_grant e w i d op_CANCEL) \<and>
    (delegate_pause e i d w = Inr r3 \<longrightarrow> holds_grant e w i d op_PAUSE) \<and>
    (delegate_resume e i d w = Inr r4 \<longrightarrow> holds_grant e w i d op_RESUME) \<and>
    (delegate_transfer_recipient e i d a w = Inr r5 \<longrightarrow> holds_grant e w i d op_TRANSFER_RECIPIENT) \<and>
    (delegate_top_up tk e i d n w = Inr r6 \<longrightarrow> holds_grant e w i d op_TOP_UP \<and>
       (\<exists>s. get_stream w i = Inr s \<and> authorized e (sender s)))"
proof -
  have ok: "grants_ok w" using any_reachable_control_ok [OF assms] by (simp add: control_ok_def)
  have hold: "holds_grant e w i d p" if "check_delegate e i d p w = Inr ()" for p
    using that ok by (auto simp: check_delegate_Inr holds_grant_def load_delegate_def grants_ok_def)
  show ?thesis
    by (auto simp: delegate_withdraw_def delegate_cancel_def delegate_pause_def delegate_resume_def
        delegate_transfer_recipient_def delegate_top_up_def get_stream_def Let_def intro!: hold)
qed

lemma delegate_needs_grant_witness:
  "\<not> (\<exists>r. delegate_withdraw book_token (env_at 1000) 1 carol None world7 = Inr r)"
proof -
  have "\<not> holds_grant (env_at 1000) world7 1 carol op_WITHDRAW"
    by (simp add: holds_grant_def load_delegate_def world7_facts(2) sender_ops_def op_defs)
  then show ?thesis
    using delegate_needs_grant [of book_token no_factories streams_at "\<lambda>_ _. True" purse "env_at 1000" world7 1 carol None]
      world7_reached(2)
    by auto
qed

text \<open>
  C25. Revocation is immediate, complete and lasting: after a successful \<open>revoke_delegate\<close>, whatever is
  called next and however much time passes, as long as the log shows no new grant for that
  delegate on that stream, every delegated operation of the delegate on the stream is refused,
  whoever signs.
\<close>

theorem revocation_immediate:
  assumes "any_reachable tk fi ca foreign ts (timestamp e) w" "revoke_delegate e i grantor d w = Inr (u, w0)"
    and "any_run tk fi ca foreign (timestamp e, w0) (later, w')"
    and "events w' = events w0 @ evs" "\<And>ev. ev \<in> set evs \<Longrightarrow> \<not> grants_to i d ev"
  shows "let refused = Err (if halted w' then ContractHalted else DelegateNotPermitted) in
    delegate_withdraw tk e' i d amount w' = Inl refused \<and> delegate_cancel tk e' i d w' = Inl refused \<and>
    delegate_pause e' i d w' = Inl refused \<and> delegate_resume e' i d w' = Inl refused \<and>
    delegate_top_up tk e' i d n w' = Inl refused \<and> delegate_transfer_recipient e' i d a w' = Inl refused"
proof -
  have "exec tk fi (Revoke_delegate i grantor d) e w = Inr w0" using assms(2) by (simp add: world_after_def)
  then have "sound_world (timestamp e) w0" using any_reachable_sound [OF assms(1)] by (rule exec_sound)
  moreover have "delegate_entries w0 (i, d) = None" using revoke_delegate_effect(6) [OF assms(2)] by simp
  ultimately have "delegate_entries w' (i, d) = None"
    using assms(5) by (intro run_revoked [OF assms(3) _ _ assms(4)]) (auto simp: list_all_iff)
  then show ?thesis by (simp add: Let_def halted_def no_grant_refused)
qed

lemma revocation_immediate_witness:
  "\<exists>w'. revoke_delegate (env_at 1000) 1 alice carol world7 = Inr ((), w') \<and>
     delegate_pause (env_at 2000) 1 carol w' = Inl (Err DelegateNotPermitted)"
proof -
  obtain w' where w': "revoke_delegate (env_at 1000) 1 alice carol world7 = Inr ((), w')"
    using world7_facts(3,5) by (auto simp: revoke_delegate_Inr world2_facts step_stream_terms)
  have "\<not> halted w'" using w' revoke_delegate_effect(4) [OF w'] by (auto simp: revoke_delegate_Inr halted_def is_halted_def)
  moreover have "any_run book_token no_factories streams_at (\<lambda>_ _. True) (timestamp (env_at 1000), w') (2000, w')"
    by (rule any_run_tick) simp
  moreover have "any_reachable book_token no_factories streams_at (\<lambda>_ _. True) purse (timestamp (env_at 1000)) world7"
    using world7_reached(2) by simp
  ultimately have "delegate_pause (env_at 2000) 1 carol w' = Inl (Err DelegateNotPermitted)"
    using revocation_immediate [of book_token no_factories streams_at "\<lambda>_ _. True" purse "env_at 1000" world7 1 alice
        carol "()" w' 2000 w' "[]" "env_at 2000"] w'
    by (simp add: Let_def)
  with w' show ?thesis by blast
qed



section \<open>The emergency halt\<close>

text \<open>
  C27. The halt freezes the contract, but for cancellations. While it is halted every call is refused
  except \<open>resume_contract\<close>, which ends the halt, and the two the check was left out of,
  \<open>batch_cancel\<close> and \<open>reclaim_dust\<close>. So however long it lasts, until a \<open>ContractResumedEvent\<close> is
  published: no stream is created, no grant is given or taken, and a stream is as it was when the
  halt was found, or was cancelled during the halt.
\<close>

theorem halt_freezes:
  assumes "any_reachable tk fi ca foreign ts now w" "halted w" "any_run tk fi ca foreign (now, w) (later, w')"
    and "events w' = events w @ evs" "\<And>ev. ev \<in> set evs \<Longrightarrow> \<not> resumes ev"
  shows "(\<forall>c e w''. exec tk fi c e w = Inr w'' \<longrightarrow> passes_halt c) \<and>
    halted w' \<and> stream_count w' = stream_count w \<and> (\<forall>i d. load_delegate w' i d = load_delegate w i d) \<and>
    (\<forall>i s. get_stream w i = Inr s \<longrightarrow> (\<exists>s'. get_stream w' i = Inr s' \<and>
       (s' = s \<or> cancellable s \<and> \<not> is_terminal (status s) \<and>
          (\<exists>t. now \<le> t \<and> t \<le> later \<and> s' = cancelled_stream t s))))"
proof (intro conjI)
  have inv: "sound_world now w" using assms(1) by (rule any_reachable_sound)
  have ok: "control_ok w" using assms(1) by (rule any_reachable_control_ok)
  have h: "is_halted w" using assms(2) by (simp add: halted_def)
  show "\<forall>c e w''. exec tk fi c e w = Inr w'' \<longrightarrow> passes_halt c" using halted_calls [OF ok h] by blast
  have "list_all (\<lambda>ev. \<not> resumes ev) evs" using assms(5) by (simp add: list_all_iff)
  then have f: "frozen now w later w'" by (rule run_frozen [OF assms(3) inv ok h assms(4)])
  then show "halted w'" "\<forall>i d. load_delegate w' i d = load_delegate w i d"
    using h by (simp_all add: frozen_def control_of_def halted_def is_halted_def load_delegate_def)
  have same: "lookup_stream w' i = None \<longleftrightarrow> lookup_stream w i = None" for i
    using f by (cases "lookup_stream w i") (fastforce simp: frozen_def)+
  have inv': "sound_world later w'" using any_run_sound [OF assms(3) inv] by blast
  have "next_id w \<le> next_id w'" "next_id w' \<le> next_id w"
    using same [of "next_id w'"] same [of "next_id w"] sound_worldD(2) [OF inv] sound_worldD(2) [OF inv'] by auto
  then show "stream_count w' = stream_count w"
    using sound_worldD(5) [OF inv] sound_worldD(5) [OF inv'] by (simp add: counters_agree_def)
  show "\<forall>i s. get_stream w i = Inr s \<longrightarrow> (\<exists>s'. get_stream w' i = Inr s' \<and>
       (s' = s \<or> cancellable s \<and> \<not> is_terminal (status s) \<and>
          (\<exists>t. now \<le> t \<and> t \<le> later \<and> s' = cancelled_stream t s)))"
    using f by (simp add: get_stream_def frozen_def)
qed

lemma halt_freezes_witness:
  "\<not> (\<exists>w'. exec book_token no_factories (Cancel 0) (env_at 1100) world9 = Inr w') \<and>
   halted (commit book_token no_factories (Cancel 0) (env_at 1100) world9)"
proof -
  have h: "halted world9" using world9_facts(3) by (simp add: halted_def)
  have c: "commit book_token no_factories (Cancel 0) (env_at 1100) world9 = world9"
    using cancel.refuses [of world9 book_token "env_at 1100" 0] world9_facts(3) by (simp add: commit_def world_after_def)
  have "any_run book_token no_factories streams_at (\<lambda>_ _. True) (1100, world9) (1200, world9)"
    by (rule any_run_tick) simp
  then have "(\<forall>c e w''. exec book_token no_factories c e world9 = Inr w'' \<longrightarrow> passes_halt c) \<and> halted world9"
    using halt_freezes [OF world9_reached, of "\<lambda>_ _. True" 1200 world9 "[]"] h by simp
  moreover have "\<not> passes_halt (Cancel 0)" by (simp add: passes_halt_def)
  ultimately show ?thesis using c by metis
qed

text \<open>
  C28. The emergency halt does not stop cancellations: on a halted contract, where \<open>cancel\<close> refuses,
  a batch of one cancels the stream and pays the refund out all the same (with honest tokens, in
  custody, and while the pool of the token is not overdrawn).
\<close>

theorem batch_cancel_ignores_halt:
  assumes "honest_token tk" "in_custody tk fi (contract_address e) (timestamp e) w" "halted w"
    and "get_stream w i = Inr s" "authorized e (sender s)" "cancellable s" "\<not> is_terminal (status s)"
    and "refundable_of e w i = Inr refund"
    and "0 \<le> pooled_balance w (token s)"
    and "0 < refund \<Longrightarrow>
      try_transfer tk (token_state w) (token s) (contract_address e) (sender s) refund = (TryOk, ts)"
  shows "cancel tk e i w = Inl (Err ContractHalted) \<and>
    (\<exists>w'. batch_cancel tk e (sender s) [RawU64 i] w =
        Inr (\<lparr>refunded = refund, refused_index = None, refused_reason = None\<rparr>, w') \<and>
       halted w' \<and> get_stream w' i = Inr (cancelled_stream (timestamp e) s))"
proof -
  note inv = in_custody_inv [OF assms(1,2)]
  have s: "lookup_stream w i = Some s" using assms(4) by (simp add: get_stream_def)
  have so: "sound (timestamp e) s" using inv(1) s by (rule sound_worldD(1))
  have r: "refund = deposited s - vested_amount s (timestamp e)"
    using sound_views(4) [OF inv(1) s] assms(8) by simp
  have nn: "0 \<le> refund" using r soundD(6) [OF so] by simp
  have "deposited s = vested_amount s (timestamp e) \<or> (\<exists>ts. try_transfer tk (token_state w) (token s)
      (contract_address e) (sender s) (deposited s - vested_amount s (timestamp e)) = (TryOk, ts))"
    using assms(10) r nn by (cases "refund = 0") auto
  then obtain w' where run: "settle_cancel tk e i s (timestamp e) (vested_amount s (timestamp e)) refund w = Inr w'"
    using settle_cancel_total [OF assms(1) inv s _ assms(9)] r by blast
  have q: "quote_cancel s (timestamp e) = Inr (vested_amount s (timestamp e), refund)"
    using assms(6,7) r by (simp add: quote_cancel_ok [OF soundD(1) [OF so]])
  have "in_i128 refund" using r nn soundD(5,7) [OF so] by (simp add: in_i128_nonneg)
  then have "batch_cancel tk e (sender s) [RawU64 i] w =
      Inr (\<lparr>refunded = refund, refused_index = None, refused_reason = None\<rparr>, w')"
    using assms(5) s q run
    by (simp add: batch_cancel_def validate_batch_ids_def MAX_BATCH_SIZE_def require_auth_def peek_stream_def
        read_stream_eq checked_add_i128_def Let_def)
  moreover note eff = settle_cancel_effect [OF inv(1) s q run]
  have "control_of w' = control_of w" using eff(7) by (simp add: settles_def)
  then have "halted w'" using assms(3) by (simp add: control_of_def halted_def is_halted_def)
  ultimately show ?thesis
    using eff(4) assms(3) by (auto simp: get_stream_def halted_def cancel.refuses)
qed

lemma batch_cancel_ignores_halt_witness:
  "\<exists>w'. batch_cancel book_token (env_at 1100) alice [RawU64 0] world9 =
     Inr (\<lparr>refunded = 300, refused_index = None, refused_reason = None\<rparr>, w') \<and> halted w'"
proof -
  have v: "refundable_of (env_at 1100) world9 0 = Inr 300" "get_stream world9 0 = Inr linear_stream"
    using sound_views(1,4) [of "env_at 1100" world9 0 linear_stream] any_reachable_sound [OF world9_reached] world9_facts(1)
    by (simp_all add: scenario_readings linear_stream_terms)
  obtain ts where "try_transfer book_token (token_state world9) coin streams_at alice 300 = (TryOk, ts)"
    using book_holds [OF world1_facts(2), of 300 coin alice] world9_facts(2) by (auto simp: world1_facts)
  then show ?thesis
    using batch_cancel_ignores_halt [OF book_token_honest, of no_factories "env_at 1100" world9 0 linear_stream 300 ts]
      purse_custody [OF world9_reached] world9_facts(3,4) v by (auto simp: linear_stream_terms halted_def)
qed

text \<open>
  C29. There is no dust: \<open>reclaim_dust\<close>, signed by the sender, never moves funds and changes no
  stream, because a terminal stream owes what its recipient may still withdraw. It returns zero,
  but on a terminal stream that was paid more than it still holds it returns the shortfall, as a
  negative amount; no linear stream is ever short, and none at all while no delegate tops up a
  stream of another curve.
\<close>

theorem reclaim_dust_pays_nothing:
  assumes "any_reachable tk fi ca foreign ts (timestamp e) w" "get_stream w i = Inr s" "authorized e (sender s)"
  shows "\<exists>amount w'. reclaim_dust tk e i w = Inr (amount, w') \<and>
    amount = (if is_terminal (status s) then min 0 (deposited s - withdrawn s) else 0) \<and>
    (curve s = Linear \<or> system_reachable tk fi (timestamp e) w \<longrightarrow> amount = 0) \<and>
    lookup_stream w' = lookup_stream w \<and> pooled_balance w' = pooled_balance w \<and>
    token_state w' = token_state w \<and> events w' = events w"
proof -
  have inv: "sound_world (timestamp e) w" using assms(1) by (rule any_reachable_sound)
  have s: "lookup_stream w i = Some s" using assms(2) by (simp add: get_stream_def)
  have "wf_stream (timestamp e) s" if "curve s = Linear \<or> system_reachable tk fi (timestamp e) w"
    using that sound_worldD(1) [OF inv s] world_invD(1) [OF reachable_world_inv s] by (auto simp: sound_linear)
  then have "curve s = Linear \<or> system_reachable tk fi (timestamp e) w \<longrightarrow> dust_of s = 0" using dust_of_wf by blast
  with reclaim_dust_eq [OF inv s assms(3), of tk] show ?thesis by (simp add: dust_of_def)
qed

lemma reclaim_dust_pays_nothing_witness: "\<exists>w'. reclaim_dust book_token (env_at 1100) 0 world4 = Inr (0, w')"
  using reclaim_dust_pays_nothing [of book_token no_factories streams_at "\<lambda>_ _. True" purse "env_at 1100" world4 0
      "cancelled_stream 1100 linear_stream"] any_reaches_later(2)
  by (auto simp: get_stream_def world4_stream cancelled_stream_def linear_stream_terms)

text \<open>
  C30. A delegated top-up ignores the release curve and the re-check, and can drain the pool. On
  \<open>world7\<close>, a reachable world with two streams of 400 coins, the recipient of the step stream
  collects its first tranche of 100; a delegated top-up of 4 coins lowers what has vested from 100
  to 0; the sender cancels and is refunded all 404 coins. The contract, still in custody, holds the
  300 coins its pool accounts for, while the other stream, untouched, is owed 400, and asking for
  the dust of the cancelled stream returns -100.
\<close>

theorem delegate_top_up_drains_pool:
  "system_reachable book_token no_factories 1000 world7 \<and>
   (\<exists>w1 w2 w3.
      withdraw book_token (env_at 1100) 1 None world7 = Inr (100, w1) \<and>
      vested_of (env_at 1100) w1 1 = Inr 100 \<and>
      delegate_top_up book_token (env_at 1100) 1 carol 4 w1 = Inr ((), w2) \<and>
      vested_of (env_at 1100) w2 1 = Inr 0 \<and>
      cancel book_token (env_at 1100) 1 w2 = Inr ((), w3) \<and>
      in_custody book_token no_factories streams_at 1100 w3 \<and> pooled_balance w3 coin = 300 \<and>
      get_stream w3 0 = Inr linear_stream \<and> liability linear_stream = Inr 400 \<and>
      (\<exists>w4. reclaim_dust book_token (env_at 1100) 1 w3 = Inr (- 100, w4)))"
proof (intro conjI world7_reached(1))
  let ?e = "env_at 1100"
  obtain w1 where w1: "withdraw book_token ?e 1 None world7 = Inr (100, w1)"
    "lookup_stream w1 = [0 \<mapsto> linear_stream, 1 \<mapsto> step_stream\<lparr>withdrawn := 100\<rparr>]"
    "pooled_balance w1 = (\<lambda>_. 0)(coin := 700)" "backed book_token streams_at w1"
    "held book_token (token_state w1) coin alice = 9200" "\<not> is_halted w1"
    "delegate_entries w1 = delegate_entries world7" by (rule tranche_collected)
  obtain w2 where w2: "delegate_top_up book_token ?e 1 carol 4 w1 = Inr ((), w2)"
    "lookup_stream w2 = [0 \<mapsto> linear_stream, 1 \<mapsto> regressed_stream]"
    "pooled_balance w2 = (\<lambda>_. 0)(coin := 704)" "backed book_token streams_at w2" "\<not> is_halted w2"
    by (rule tranche_closed [OF w1(2-7)])
  let ?w = "extend_stream ?e 1 regressed_stream w2"
  obtain ts where "try_transfer book_token (token_state ?w) coin streams_at alice 404 = (TryOk, ts)"
    using book_holds [OF w2(4), of 404 coin alice] w2(3) by auto
  then obtain w3 where w3: "settle_cancel book_token ?e 1 regressed_stream 1100 0 404 ?w = Inr w3"
    "lookup_stream w3 0 = Some linear_stream" "pooled_balance w3 coin = 300"
    "lookup_stream w3 1 = Some (cancelled_stream 1100 regressed_stream)"
    using settle_cancel_runs [OF book_token_honest, of ?e ?w 1 regressed_stream 404 1100 0] w2(2-4)
    by (auto simp: regressed_terms in_i128_def i128_min_def i128_max_def cancelled_stream_def vested_amount_def)
  have cancelled: "cancel book_token ?e 1 w2 = Inr ((), w3)"
    using w2(2,5) w3(1)
    by (simp add: cancel_def require_not_halted_def load_stream_eq require_auth_def quote_cancel_def
        regressed_terms Let_def)
  have reach: "any_reachable book_token no_factories streams_at foreign purse 1100 w3" for foreign
  proof -
    have "any_reachable book_token no_factories streams_at foreign purse 1100 w1"
      using any_reachable_call [OF world7_reached(2), where e = ?e and c = "Withdraw 1 None" and w' = w1] w1(1)
      by (simp add: world_after_def)
    from any_reachable_call [OF this, where e = ?e and c = "Delegate_top_up 1 carol 4" and w' = w2] w2(1)
    have "any_reachable book_token no_factories streams_at foreign purse 1100 w2" by (simp add: world_after_def)
    from any_reachable_call [OF this, where e = ?e and c = "Cancel 1" and w' = w3] cancelled
    show ?thesis by (simp add: world_after_def)
  qed
  have "\<exists>w4. reclaim_dust book_token ?e 1 w3 = Inr (- 100, w4)"
    using reclaim_dust_eq [of ?e w3 1 "cancelled_stream 1100 regressed_stream" book_token]
      any_reachable_sound [OF reach] w3(4)
    by (simp add: dust_of_def cancelled_stream_def vested_amount_def regressed_terms)
  moreover note cancelled purse_custody [OF reach]
  moreover have "vested (step_stream\<lparr>withdrawn := 100\<rparr>) 1100 = Inr 100"
    using scenario_readings(2) vested_cong [of "step_stream\<lparr>withdrawn := 100\<rparr>" 1100 step_stream]
    by (simp add: stream_time_def)
  then have "vested_of ?e w1 1 = Inr 100"
    using w1(2) by (simp add: vested_of_def peek_stream_def read_stream_eq)
  moreover have "vested_of ?e w2 1 = Inr 0"
    using w2(2) by (simp add: vested_of_def peek_stream_def read_stream_eq regressed_terms)
  moreover have "get_stream w3 0 = Inr linear_stream" using w3(2) by (simp add: get_stream_def)
  moreover have "liability linear_stream = Inr 400"
    by (simp add: liability_def linear_stream_terms checked_sub_i128_def in_i128_def i128_min_def i128_max_def)
  ultimately show "\<exists>w1 w2 w3.
      withdraw book_token (env_at 1100) 1 None world7 = Inr (100, w1) \<and>
      vested_of (env_at 1100) w1 1 = Inr 100 \<and>
      delegate_top_up book_token (env_at 1100) 1 carol 4 w1 = Inr ((), w2) \<and>
      vested_of (env_at 1100) w2 1 = Inr 0 \<and>
      cancel book_token (env_at 1100) 1 w2 = Inr ((), w3) \<and>
      in_custody book_token no_factories streams_at 1100 w3 \<and> pooled_balance w3 coin = 300 \<and>
      get_stream w3 0 = Inr linear_stream \<and> liability linear_stream = Inr 400 \<and>
      (\<exists>w4. reclaim_dust book_token (env_at 1100) 1 w3 = Inr (- 100, w4))"
    using w1(1) w2(1) w3(3) by blast
qed

section \<open>Refinement\<close>

text \<open>
  C31. The contract refines the ledger machine: every successful call, with the one exception of a
  delegated top-up of a curve that is not linear, is a sequence of steps of the abstract ledger
  (a stream opened at the next id, or one stream paused, resumed, paid, cancelled, topped up or
  transferred, with the pool moved by the change of its liability), and keeps its invariant where
  that call was never made. The exception is a shift of the ledger, in which a live stream of a step
  or front-loaded curve may lose what has vested, and every call keeps the accounts exact.
\<close>

theorem calls_refine_ledger:
  assumes "any_reachable tk fi ca foreign ts (timestamp e) w" "exec tk fi c e w = Inr w'"
  shows "(keeps_curve c w \<and> \<not> control_call c \<longrightarrow> (ledger_step (timestamp e))\<^sup>*\<^sup>* (ledger_of w) (ledger_of w')) \<and>
    (control_call c \<longrightarrow> ledger_of w' = ledger_of w) \<and>
    (keeps_curve c w \<and> system_reachable tk fi (timestamp e) w \<longrightarrow> ledger_inv (timestamp e) (ledger_of w')) \<and>
    (ledger_shift (timestamp e))\<^sup>*\<^sup>* (ledger_of w) (ledger_of w') \<and> sound_ledger (timestamp e) (ledger_of w')"
proof -
  have inv: "sound_world (timestamp e) w" using assms(1) by (rule any_reachable_sound)
  have steps: "(ledger_step (timestamp e))\<^sup>*\<^sup>* (ledger_of w) (ledger_of w')" if "keeps_curve c w" "\<not> control_call c"
    using exec_settles [OF assms(2) inv that] by (simp add: settles_def)
  have same: "ledger_of w' = ledger_of w" if "control_call c" using assms(2) that by (rule exec_control)
  have "ledger_inv (timestamp e) (ledger_of w')" if "keeps_curve c w" "system_reachable tk fi (timestamp e) w"
  proof (cases "control_call c")
    case True
    with that(2) same show ?thesis using world_invD(6) [OF reachable_world_inv] by simp
  next
    case False
    from ledger_steps_inv [OF steps [OF that(1) this] world_invD(6) [OF reachable_world_inv [OF that(2)]]]
    show ?thesis .
  qed
  with steps same exec_sound(1) [OF assms(2) inv] sound_worldD(6) [OF exec_sound(2) [OF assms(2) inv]]
  show ?thesis by blast
qed

lemma calls_refine_ledger_witness: "ledger_inv 1100 (ledger_of world3)"
  using calls_refine_ledger [of book_token no_factories streams_at "\<lambda>_ _. True" purse "env_at 1100" world1
      "Withdraw 0 None" world3] any_reaches(4) system_reachable_later [OF system_reaches(1), of 1100] world3_withdrawn
  by (simp add: keeps_curve_def)

section \<open>Curves, storage, errors and rent\<close>

text \<open>
  C32. Accrual is total, bounded and monotone: a stream within the creation-time guard reads, at any
  two instants in order, two amounts in order between nothing and its deposit, and its whole
  deposit once its gate is open and its schedule consumed.
\<close>

theorem vested_bounded_monotone:
  assumes "accrual_domain (deposited s) (duration s)" "t \<le> t'"
  shows "\<exists>v v'. vested s t = Inr v \<and> vested s t' = Inr v' \<and> 0 \<le> v \<and> v \<le> v' \<and> v' \<le> deposited s \<and>
    (cliff_reached s t' \<and> end_time s \<le> stream_time s t' \<longrightarrow> v' = deposited s)"
proof -
  have ok: "vest_ok s t" using assms(1) by (simp add: vest_ok_def accrual_domain_def)
  have ok': "vest_ok s t'" using assms(2) ok by (rule vest_ok_mono)
  have "cliff_reached s t' \<and> end_time s \<le> stream_time s t' \<longrightarrow> vested_amount s t' = deposited s"
    using delivered_at_end by blast
  then show ?thesis
    using vested_total [OF ok] vested_total [OF ok'] vested_amount_mono [OF ok assms(2)] by blast
qed

lemma vested_bounded_monotone_witness: "\<exists>v v'. vested step_stream 1100 = Inr v \<and> vested step_stream 1350 = Inr v' \<and> v \<le> v'"
  using vested_bounded_monotone [of step_stream 1100 1350]
  by (auto simp: step_stream_terms accrual_domain_def i128_max_def)

text \<open>
  C33. The three curves, strictly within a schedule and within the creation-time guard: linear is the
  floor of deposit times the consumed share; step the floor of the whole quarters consumed;
  front-loaded the floor of a thousandth grid on which a share \<open>u\<close> releases \<open>2 u - u * u / 1000\<close>. No
  intermediate product leaves an i128. The front-loaded curve is never behind the linear one once a
  thousandth of the schedule has been consumed, but it may be before: with ten million units over
  ten thousand seconds, nine seconds in, linear has released 9000 units and front-loaded none.
\<close>

theorem curve_shapes:
  assumes "accrual_domain D T" "c < T"
  shows "vested_linear D c T = Inr (D * uint c div uint T) \<and>
    vested_step D c T = D * (4 * uint c div uint T) div 4 \<and>
    (let u = 1000 * uint c div uint T in vested_front_loaded D c T = D * (2 * u - u * u div 1000) div 1000) \<and>
    in_i128 (D sdiv 4 * released_tranches c T) \<and> in_i128 (D smod 4 * released_tranches c T) \<and>
    in_i128 (D sdiv 1000 * front_curve (front_grid c T)) \<and> in_i128 (D smod 1000 * front_curve (front_grid c T)) \<and>
    (uint T \<le> 1000 * uint c \<longrightarrow> D * uint c div uint T \<le> vested_front_loaded D c T) \<and>
    vested_linear 10000000 9 10000 = Inr 9000 \<and> vested_front_loaded 10000000 9 10000 = 0"
proof -
  have D: "0 \<le> D" "D \<le> i128_max" using assms(1) by (simp_all add: accrual_domain_def)
  have lin: "vested_linear D c T = Inr (D * uint c div uint T)" using assms by (simp add: vested_linear_eq)
  have stp: "vested_step D c T = D * (4 * uint c div uint T) div 4"
    using D(1) assms(2) by (rule step_is_quarters)
  have grid: "front_grid c T = 1000 * uint c div uint T" by (simp add: front_grid_def mult.commute)
  have fr: "vested_front_loaded D c T = D * (2 * front_grid c T - front_grid c T * front_grid c T div 1000) div 1000"
    using front_grid_bounds [OF assms(2)] by (simp add: vested_front_loaded_eq [OF D(1) assms(2)] front_curve_eq)
  have ahead: "uint T \<le> 1000 * uint c \<longrightarrow> D * uint c div uint T \<le> vested_front_loaded D c T"
    by (intro impI front_loaded_ahead [OF assms]) simp
  have late: "vested_linear 10000000 9 10000 = Inr 9000" "vested_front_loaded 10000000 9 10000 = 0"
    using front_loaded_against_linear by blast+
  show ?thesis
    unfolding Let_def grid [symmetric]
    by (intro conjI lin stp fr ahead late step_products [OF D] front_products [OF D assms(2)])
qed

lemma curve_shapes_witness: "vested_step 400 200 400 = 200 \<and> vested_linear 400 100 400 = Inr 100"
  using curve_shapes [of 400 400 200] curve_shapes [of 400 400 100]
  by (simp add: accrual_domain_def i128_max_def in_i128_def i128_min_def)

text \<open>
  C34. What is saved is what is loaded: after \<open>save_stream\<close>, reading the id returns that stream with all
  of its fields (the curve, cliff mode and reference of the side-car entries included), every
  other id reads as before, and no later write of another stream disturbs it.
\<close>

theorem save_load_roundtrip:
  assumes "save_stream e i s w = Inr w1" "save_stream e' j s' w1 = Inr w2" "j \<noteq> i"
  shows "peek_stream w1 i = Inr s \<and> load_stream e w1 i = Inr (s, extend_stream e i s w1) \<and>
    peek_stream w2 i = Inr s \<and> (\<forall>k. k \<noteq> i \<longrightarrow> peek_stream w1 k = peek_stream w k)"
  using store.read_after_store [OF assms(1)] store.store_frame [OF assms(1)]
    store.store_frame [OF assms(2), of i] assms(3) save_stream_lookup [OF assms(1)]
  by simp

lemma save_load_roundtrip_witness:
  "\<exists>w1 w2. save_stream (env_at 0) 0 step_stream world2 = Inr w1 \<and>
     save_stream (env_at 0) 1 linear_stream w1 = Inr w2 \<and> peek_stream w2 0 = Inr step_stream"
proof -
  obtain w1 where w1: "save_stream (env_at 0) 0 step_stream world2 = Inr w1"
    using save_stream_existing [of world2 0] by (auto simp: world2_facts)
  have "lookup_stream w1 1 \<noteq> None" using save_stream_lookup [OF w1] by (simp add: world2_facts)
  then obtain w2 where w2: "save_stream (env_at 0) 1 linear_stream w1 = Inr w2" using save_stream_existing by blast
  from save_load_roundtrip [OF w1 w2] w1 w2 show ?thesis by auto
qed



section \<open>The factory\<close>

text \<open>
  C36. The policy of a factory is well-typed for ever and only its admin's: initialisation succeeds
  once, every other successful call is signed by the current admin, and in every reachable state
  the stored limits are in range (a cap of at least the floor, a minimum duration of at most the
  ceiling, a non-empty interval of non-negative rates), so the configuration of an initialised
  factory is always readable, and that of any other is \<open>NotInitialized\<close>.
\<close>

theorem factory_policy_kept:
  assumes "factory_reachable f"
  shows "(\<forall>c e f'. factory_exec c e f = Inr f' \<longrightarrow> factory_reachable f' \<and>
      (\<exists>c'. get_factory_config f' = Inr c') \<and>
      (case get_factory_config f of
         Inr old \<Rightarrow> authorized e (cfg_admin old) \<and> (\<forall>a sc cap secs. c \<noteq> Init a sc cap secs)
       | Inl er \<Rightarrow> er = Err NotInitialized \<and> (\<exists>a sc cap secs. c = Init a sc cap secs \<and> authorized e a))) \<and>
    (\<forall>c. get_factory_config f = Inr c \<longrightarrow>
       MIN_DEPOSIT_CAP \<le> cfg_max_deposit c \<and> cfg_min_duration c \<le> MAX_MIN_DURATION_SECONDS \<and>
       rates_ok (cfg_min_rate_per_second c) (cfg_max_rate_per_second c))"
proof (intro conjI allI impI)
  note ok = factory_reachable_ok [OF assms]
  fix c e f' assume run: "factory_exec c e f = Inr f'"
  show "factory_reachable f'" using assms run by (rule factory_call)
  have ok': "factory_ok f'" "initialized f'" using factory_exec_ok [OF ok run] by simp_all
  then show "\<exists>c'. get_factory_config f' = Inr c'" by (rule factory_config_available) blast
  show "case get_factory_config f of
      Inr old \<Rightarrow> authorized e (cfg_admin old) \<and> (\<forall>a sc cap secs. c \<noteq> Init a sc cap secs)
    | Inl er \<Rightarrow> er = Err NotInitialized \<and> (\<exists>a sc cap secs. c = Init a sc cap secs \<and> authorized e a)"
  proof (cases "initialized f")
    case True
    then obtain old where "get_factory_config f = Inr old" "admin_entry f = Some (cfg_admin old)"
      by (rule factory_config_available [OF ok]) blast
    then show ?thesis
      using factory_exec_authorized [OF run True] run init_once [OF True] by auto
  next
    case False
    then show ?thesis
      using factory_config_needs_init [OF ok False] factory_exec_init [OF run False] by simp
  qed
next
  note ok = factory_reachable_ok [OF assms]
  fix c assume c: "get_factory_config f = Inr c"
  then have i: "initialized f" using factory_config_needs_init [OF ok] by fastforce
  show "MIN_DEPOSIT_CAP \<le> cfg_max_deposit c" "cfg_min_duration c \<le> MAX_MIN_DURATION_SECONDS"
    "rates_ok (cfg_min_rate_per_second c) (cfg_max_rate_per_second c)"
    by (rule factory_config_available [OF ok i]; use c in simp)+
qed

lemma factory_policy_kept_witness:
  "\<exists>f. factory_exec (Init alice streams_at 1000000 3600) (env_at 1000) fresh_factory = Inr f \<and>
     (\<exists>c. get_factory_config f = Inr c)"
proof -
  obtain f where f: "factory_exec (Init alice streams_at 1000000 3600) (env_at 1000) fresh_factory = Inr f"
    by (simp add: init_Inr fresh_factory_def MIN_DEPOSIT_CAP_def MAX_MIN_DURATION_SECONDS_def)
  then show ?thesis using factory_policy_kept [OF factory_deploy] by blast
qed



section \<open>The provenance of a release\<close>



text \<open>
  C39. The loops of the tool return. Reading the arguments ends for every command line, with what the
  recursion over them gives; the search for the workspace root ends for every disk and directory,
  with the nearest ancestor whose \<open>Cargo.toml\<close> declares a workspace and with nothing if there is
  none. A release directory with an equals sign in its name is cut at the sign.
\<close>

theorem loops_return:
  "argument_loop rest 0 no_options = Some (read_arguments rest no_options) \<and>
   (\<exists>found. walk_loop h d dir = Some found \<and>
      (\<forall>r. found = Some r \<longleftrightarrow> prefix r dir \<and> declares_workspace h d r \<and>
         (\<forall>q. prefix q dir \<longrightarrow> length r < length q \<longrightarrow> \<not> declares_workspace h d q))) \<and>
   argument_loop [''release=1''] 0 no_options = Some (Options (no_options\<lparr>opt_release_dir := Some ''release''\<rparr>))"
proof (intro conjI)
  show "argument_loop rest 0 no_options = Some (read_arguments rest no_options)"
    by (simp add: argument_loop_returns)
  show "\<exists>found. walk_loop h d dir = Some found \<and>
      (\<forall>r. found = Some r \<longleftrightarrow> prefix r dir \<and> declares_workspace h d r \<and>
         (\<forall>q. prefix q dir \<longrightarrow> length r < length q \<longrightarrow> \<not> declares_workspace h d q))"
    by (intro exI [of _ "walk_up h d dir"] conjI walk_loop_returns allI walk_up_nearest)
  show "argument_loop [''release=1''] 0 no_options = Some (Options (no_options\<lparr>opt_release_dir := Some ''release''\<rparr>))"
    by (simp add: argument_loop_returns split_key_def takes_value_def option_like_def no_options_def Let_def)
qed

lemma loops_return_witness: "\<exists>found. walk_loop sample_tools sample_disk [''ws'', ''out''] = Some found"
  using loops_return [of "[]" sample_tools sample_disk "[''ws'', ''out'']"] by blast

text \<open>
  C40. A timestamp names its instant: the text \<open>format_unix\<close> makes of any number of seconds reads back
  as a valid date of the Gregorian calendar and a time of the day which together count exactly
  those seconds from 1970.
\<close>

theorem timestamps_read_back:
  "\<exists>date seconds. read_unix (format_unix secs) = (date, seconds) \<and> valid_date date \<and>
     0 \<le> seconds \<and> seconds < 86400 \<and> 86400 * day_number date + seconds = uint secs"
proof -
  have "86400 * uint (secs div 86400) + uint (secs mod 86400) = uint secs"
    by (simp add: uint_div uint_mod)
  then show ?thesis
    using read_format_unix [of secs] civil_from_days_correct [of "uint (secs div 86400)"]
    by (simp add: uint_mod)
qed

end
